(* ===== verification/Trojan_Prelude.thy ===== *)
theory Trojan_Prelude
  imports Main "HOL-Library.Word"
begin

text \<open>
  What every component of the development shares: the types that stand for Go's own
  (bytes, byte slices, strings, errors, run-time panics), slicing and indexing with the
  bounds checks of the Go run time, the decimal and hexadecimal renderings of the
  standard library that the code uses, and the generic list lemmas the component proofs
  rest on.
\<close>

unbundle bit_operations_syntax

named_theorems outcome_simps \<open>case analysis of computations that may panic\<close>
named_theorems slice_simps \<open>slices and indexed reads within their bounds\<close>

section \<open>Bytes and strings\<close>

type_synonym byte = "8 word"
type_synonym bytes = "byte list"

text \<open>A Go string is a sequence of bytes, and so is an Isabelle string.\<close>

definition string_of_bytes :: "bytes \<Rightarrow> string" where
  "string_of_bytes bs = map (\<lambda>b. char_of (unat b)) bs"

definition bytes_of_string :: "string \<Rightarrow> bytes" where
  "bytes_of_string s = map (\<lambda>c. word_of_nat (of_char c)) s"

lemma unat_byte_less [simp]: "unat (b :: byte) < 256"
  using unsigned_less [of b, where ?'a = nat] by simp

lemma unat_byte_le [simp]: "unat (b :: byte) \<le> 255"
  using unat_byte_less [of b] by linarith

lemma unat_of_char [simp]: "unat (word_of_nat (of_char c) :: byte) = of_char c"
  by (simp add: unat_of_nat)

lemma string_of_bytes_of_string [simp]: "string_of_bytes (bytes_of_string s) = s"
  by (induction s) (simp_all add: string_of_bytes_def bytes_of_string_def)

lemma bytes_of_string_of_bytes [simp]: "bytes_of_string (string_of_bytes bs) = bs"
proof -
  have "word_of_nat (of_char (char_of (unat b) :: char)) = b" for b :: byte
    by simp
  then show ?thesis
    by (induction bs) (simp_all add: string_of_bytes_def bytes_of_string_def)
qed

lemma length_string_of_bytes [simp]: "length (string_of_bytes bs) = length bs"
  by (simp add: string_of_bytes_def)

lemma length_bytes_of_string [simp]: "length (bytes_of_string s) = length s"
  by (simp add: bytes_of_string_def)

lemma string_of_bytes_inject [simp]: "string_of_bytes bs = string_of_bytes cs \<longleftrightarrow> bs = cs"
  by (metis bytes_of_string_of_bytes)

lemma string_of_bytes_append [simp]:
  "string_of_bytes (bs @ cs) = string_of_bytes bs @ string_of_bytes cs"
  by (simp add: string_of_bytes_def)

lemma string_of_bytes_take: "string_of_bytes (take n bs) = take n (string_of_bytes bs)"
  by (simp add: string_of_bytes_def take_map)

section \<open>Errors and panics\<close>

text \<open>
  Go errors. \<open>Wrap\<close> is \<open>fmt.Errorf\<close> with \<open>%w\<close>; \<open>NetTimeout\<close> is an error whose type
  implements \<open>net.Error\<close> with \<open>Timeout()\<close> true without being the sentinel
  \<open>os.ErrDeadlineExceeded\<close>; \<open>Msg\<close> is any other error, named by its text.
\<close>

datatype go_error =
    EOF
  | ErrUnexpectedEOF
  | ErrClosedPipe
  | ErrDeadlineExceeded
  | NetTimeout
  | ErrShortWrite
  | ErrClosed
  | Msg string
  | Wrap string go_error

text \<open>\<open>errors.Is\<close> against a sentinel: the error itself or one it wraps.\<close>

fun errors_Is :: "go_error \<Rightarrow> go_error \<Rightarrow> bool" where
  "errors_Is (Wrap m e) t \<longleftrightarrow> Wrap m e = t \<or> errors_Is e t"
| "errors_Is e t \<longleftrightarrow> e = t"

text \<open>
  \<open>errors.As\<close> to a \<open>net.Error\<close> whose \<open>Timeout()\<close> is true. The sentinel
  \<open>os.ErrDeadlineExceeded\<close> implements the interface too, and reports a timeout.
\<close>

fun is_net_timeout :: "go_error \<Rightarrow> bool" where
  "is_net_timeout (Wrap m e) = is_net_timeout e"
| "is_net_timeout e \<longleftrightarrow> e = NetTimeout \<or> e = ErrDeadlineExceeded"

datatype go_panic = NilDeref | IndexOutOfRange | SliceBounds | CloseOfClosed | ExplicitPanic string

text \<open>A computation that may end in a run-time panic.\<close>

datatype 'a outcome = Returns (result: 'a) | Panics go_panic

primrec and_then :: "'a outcome \<Rightarrow> ('a \<Rightarrow> 'b outcome) \<Rightarrow> 'b outcome" where
  "and_then (Returns x) f = f x"
| "and_then (Panics p) f = Panics p"

lemma and_then_eq_Returns [outcome_simps]:
  "and_then m f = Returns y \<longleftrightarrow> (\<exists>x. m = Returns x \<and> f x = Returns y)"
  by (cases m) auto

lemma and_then_eq_Panics [outcome_simps]:
  "and_then m f = Panics p \<longleftrightarrow> m = Panics p \<or> (\<exists>x. m = Returns x \<and> f x = Panics p)"
  by (cases m) auto

lemma and_then_ReturnsE:
  assumes "and_then m f = Returns y"
  obtains x where "m = Returns x" "f x = Returns y"
  using assms by (cases m) auto

lemma and_then_PanicsE:
  assumes "and_then m f = Panics p"
  obtains (first) "m = Panics p" | (rest) x where "m = Returns x" "f x = Panics p"
  using assms by (cases m) auto

lemma and_then_assoc: "and_then (and_then m f) g = and_then m (\<lambda>x. and_then (f x) g)"
  by (cases m) auto

section \<open>Slices\<close>

text \<open>
  \<open>xs[lo:hi]\<close> and \<open>xs[i]\<close> on a slice whose capacity is its length: the bounds checks
  of the Go run time are explicit.
\<close>

definition slice :: "'a list \<Rightarrow> nat \<Rightarrow> nat \<Rightarrow> 'a list outcome" where
  "slice xs lo hi =
     (if lo \<le> hi \<and> hi \<le> length xs then Returns (take (hi - lo) (drop lo xs)) else Panics SliceBounds)"

definition index :: "'a list \<Rightarrow> nat \<Rightarrow> 'a outcome" where
  "index xs i = (if i < length xs then Returns (xs ! i) else Panics IndexOutOfRange)"

text \<open>\<open>copy(buf[at:], bs)\<close>: as many bytes as fit.\<close>

definition copy_at :: "'a list \<Rightarrow> nat \<Rightarrow> 'a list \<Rightarrow> 'a list" where
  "copy_at buf at bs =
     take at buf @ take (length buf - at) bs @ drop (at + length bs) buf"

lemma slice_in_bounds [slice_simps]:
  "lo \<le> hi \<Longrightarrow> hi \<le> length xs \<Longrightarrow> slice xs lo hi = Returns (take (hi - lo) (drop lo xs))"
  by (simp add: slice_def)

lemma index_in_bounds [slice_simps]: "i < length xs \<Longrightarrow> index xs i = Returns (xs ! i)"
  by (simp add: index_def)

lemma length_copy_at [simp]: "at \<le> length buf \<Longrightarrow> length (copy_at buf at bs) = length buf"
  by (simp add: copy_at_def)

lemma take_copy_at [simp]:
  "at \<le> length buf \<Longrightarrow> k \<le> at \<Longrightarrow> take k (copy_at buf at bs) = take k buf"
  by (simp add: copy_at_def)

lemma take_copy_at_end:
  "at + length bs \<le> length buf \<Longrightarrow> take (at + length bs) (copy_at buf at bs) = take at buf @ bs"
  by (simp add: copy_at_def)

lemma copy_at_all: "length bs = length buf \<Longrightarrow> copy_at buf 0 bs = bs"
  by (simp add: copy_at_def)

lemma nth_copy_at_before: "at \<le> length buf \<Longrightarrow> i < at \<Longrightarrow> copy_at buf at bs ! i = buf ! i"
  by (simp add: copy_at_def nth_append)

lemma nth_copy_at:
  "at + length bs \<le> length buf \<Longrightarrow> i < length bs \<Longrightarrow> copy_at buf at bs ! (at + i) = bs ! i"
  by (simp add: copy_at_def nth_append)

lemma slice_copy_at:
  "at + length bs \<le> length buf \<Longrightarrow> slice (copy_at buf at bs) at (at + length bs) = Returns bs"
  by (simp add: slice_def copy_at_def)

lemma drop_copy_at:
  "at + length bs \<le> length buf \<Longrightarrow> k = at + length bs \<Longrightarrow> drop k (copy_at buf at bs) = drop k buf"
  by (simp add: copy_at_def)

section \<open>Two-byte numbers\<close>

text \<open>\<open>int(hi)<<8 | int(lo)\<close>, and the two bytes \<open>byte(p>>8)\<close>, \<open>byte(p)\<close> of an \<open>int\<close>.\<close>

definition be16 :: "byte \<Rightarrow> byte \<Rightarrow> nat" where
  "be16 hi lo = push_bit 8 (unat hi) OR unat lo"

definition byte_hi :: "int \<Rightarrow> byte" where
  "byte_hi p = word_of_int (drop_bit 8 p)"

definition byte_lo :: "int \<Rightarrow> byte" where
  "byte_lo p = word_of_int p"

lemma be16_eq: "be16 hi lo = unat hi * 256 + unat lo"
proof -
  have "push_bit 8 (unat hi) AND unat lo = 0"
  proof (rule bit_eqI)
    fix n
    have "\<not> bit (unat lo) n" if "8 \<le> n"
    proof -
      have "(2 :: nat) ^ 8 \<le> 2 ^ n" using that by (rule power_increasing) simp
      then have "256 \<le> (2 :: nat) ^ n" by simp
      with unat_byte_less [of lo] have "unat lo < 2 ^ n" by (rule less_le_trans)
      then show ?thesis by (simp only: bit_iff_odd div_less) simp
    qed
    then show "bit (push_bit 8 (unat hi) AND unat lo) n \<longleftrightarrow> bit (0 :: nat) n"
      by (auto simp: bit_and_iff bit_push_bit_iff)
  qed
  then show ?thesis
    by (simp add: be16_def disjunctive_add_eq_or [symmetric] push_bit_eq_mult)
qed

lemma be16_less: "be16 hi lo < 65536"
  using unat_byte_less [of hi] unat_byte_less [of lo] unfolding be16_eq by linarith

lemma uint_byte_lo: "uint (byte_lo p) = p mod 256"
  by (simp add: byte_lo_def uint_word_of_int)

lemma uint_byte_hi: "uint (byte_hi p) = (p div 256) mod 256"
  by (simp add: byte_hi_def uint_word_of_int drop_bit_eq_div)

lemma be16_byte_hi_lo: "int (be16 (byte_hi p) (byte_lo p)) = p mod 65536"
proof -
  have "p mod (256 * 256) = 256 * (p div 256 mod 256) + p mod 256"
    by (rule zmod_zmult2_eq) simp
  then show ?thesis
    by (simp add: be16_eq uint_byte_lo uint_byte_hi algebra_simps)
qed

lemma byte_hi_be16: "byte_hi (int (be16 hi lo)) = hi"
proof -
  have "uint (byte_hi (int (be16 hi lo))) = uint hi"
    using uint_lt2p [of hi] uint_lt2p [of lo] uint_ge_0 [of hi] uint_ge_0 [of lo]
    by (simp add: uint_byte_hi be16_eq)
  then show ?thesis by (simp only: word_uint_eq_iff)
qed

lemma byte_lo_be16: "byte_lo (int (be16 hi lo)) = lo"
proof -
  have "uint (byte_lo (int (be16 hi lo))) = uint lo"
    using uint_lt2p [of lo] uint_ge_0 [of lo]
    by (simp add: uint_byte_lo be16_eq)
  then show ?thesis by (simp only: word_uint_eq_iff)
qed

section \<open>Numbers as text\<close>

definition digit_char :: "nat \<Rightarrow> char" where
  "digit_char n = ''0123456789abcdef'' ! n"

fun itoa :: "nat \<Rightarrow> string" where
  "itoa n = (if n < 10 then [digit_char n] else itoa (n div 10) @ [digit_char (n mod 10)])"

declare itoa.simps [simp del]

fun hex_digits :: "nat \<Rightarrow> string" where
  "hex_digits n =
     (if n < 16 then [digit_char n] else hex_digits (n div 16) @ [digit_char (n mod 16)])"

declare hex_digits.simps [simp del]

lemma itoa_nonempty [simp]: "itoa n \<noteq> []"
  by (subst itoa.simps) simp

end
