(* ===== verification/Domaintree.thy ===== *)
theory Domaintree
  imports Trojan_Prelude "HOL-Library.Sublist"
begin

text \<open>
  The domain tree of \<open>pkgs/domaintree/domaintree.go\<close>, on which \<open>BlockDomain\<close> decides
  which hosts to refuse. A node maps a label to a pointer to the next node, which may be nil
  (that is how a rule starting with \<open>**\<close> is stored); reading a field through a nil pointer
  panics. Labels are followed from the last to the first, as the code does.
\<close>

section \<open>The tree\<close>

datatype node = Node (Next: "string \<Rightarrow> node option option")

text \<open>A \<open>*Node\<close>: \<open>None\<close> is the nil pointer.\<close>

type_synonym nodep = "node option"

definition NewNode :: node where
  "NewNode = Node (\<lambda>_. None)"

function store :: "nodep \<Rightarrow> string list \<Rightarrow> nodep outcome" where
  "store nd ks =
     (case ks of
        [] \<Rightarrow> Returns nd
      | [k] \<Rightarrow>
          (case nd of
             None \<Rightarrow> Panics NilDeref
           | Some n \<Rightarrow>
               if k = ''**'' then Returns (Some (Node ((Next n)(k := Some None))))
               else if Next n k \<noteq> None then Returns (Some n)
               else Returns (Some (Node ((Next n)(k := Some (Some NewNode))))))
      | _ \<Rightarrow>
          (case nd of
             None \<Rightarrow> Panics NilDeref
           | Some n \<Rightarrow>
               let k = last ks; b = (case Next n k of None \<Rightarrow> Some NewNode | Some b \<Rightarrow> b)
               in and_then (store b (butlast ks))
                    (\<lambda>b'. Returns (Some (Node ((Next n)(k := Some b')))))))"
  by pat_completeness auto
termination
  by (relation "measure (\<lambda>(nd, ks). length ks)") auto

function load :: "nodep \<Rightarrow> string list \<Rightarrow> bool outcome" where
  "load nd ks =
     (case ks of
        [] \<Rightarrow> Returns False
      | [k] \<Rightarrow>
          (case nd of
             None \<Rightarrow> Panics NilDeref
           | Some n \<Rightarrow>
               if Next n k \<noteq> None then Returns True
               else if Next n ''*'' \<noteq> None then Returns True
               else if Next n ''**'' \<noteq> None then Returns True
               else Returns False)
      | _ \<Rightarrow>
          (case nd of
             None \<Rightarrow> Panics NilDeref
           | Some n \<Rightarrow>
               (case Next n (last ks) of
                  Some b \<Rightarrow> load b (butlast ks)
                | None \<Rightarrow>
                    (case Next n ''*'' of
                       Some b \<Rightarrow> load b (butlast ks)
                     | None \<Rightarrow> if Next n ''**'' \<noteq> None then Returns True else Returns False))))"
  by pat_completeness auto
termination
  by (relation "measure (\<lambda>(nd, ks). length ks)") auto

declare store.simps [simp del] load.simps [simp del]

section \<open>Domains\<close>

text \<open>\<open>strings.Split(s, ".")\<close> and \<open>strings.TrimSuffix(s, ".")\<close>.\<close>

fun split_dot :: "string \<Rightarrow> string list" where
  "split_dot [] = [[]]"
| "split_dot (c # cs) =
     (if c = CHR ''.'' then [] # split_dot cs
      else (case split_dot cs of [] \<Rightarrow> [[c]] | l # ls \<Rightarrow> (c # l) # ls))"

definition trim_dot :: "string \<Rightarrow> string" where
  "trim_dot s = (if s \<noteq> [] \<and> last s = CHR ''.'' then butlast s else s)"

definition labels :: "string \<Rightarrow> string list" where
  "labels d = split_dot (trim_dot d)"

definition Put :: "nodep \<Rightarrow> string \<Rightarrow> nodep outcome" where
  "Put nd d = store nd (labels d)"

definition Get :: "nodep \<Rightarrow> string \<Rightarrow> bool outcome" where
  "Get nd d = load nd (labels d)"

text \<open>The loop of \<open>BlockDomain.Provision\<close> over the configured list.\<close>

fun put_all :: "nodep \<Rightarrow> string list \<Rightarrow> nodep outcome" where
  "put_all nd [] = Returns nd"
| "put_all nd (d # ds) = and_then (Put nd d) (\<lambda>nd'. put_all nd' ds)"

section \<open>Characteristic equations\<close>

lemma store_nil [simp]: "store nd [] = Returns nd"
  by (simp add: store.simps)

lemma load_nil [simp]: "load nd [] = Returns False"
  by (simp add: load.simps)

lemma store_nil_pointer [simp]: "ks \<noteq> [] \<Longrightarrow> store None ks = Panics NilDeref"
  by (simp add: store.simps split: list.splits)

lemma load_nil_pointer [simp]: "ks \<noteq> [] \<Longrightarrow> load None ks = Panics NilDeref"
  by (simp add: load.simps split: list.splits)

lemma store_single [simp]:
  "store (Some n) [k] =
     Returns (Some (if k = ''**'' then Node ((Next n)(k := Some None))
                    else if Next n k \<noteq> None then n
                    else Node ((Next n)(k := Some (Some NewNode)))))"
  by (simp add: store.simps)

lemma load_single [simp]:
  "load (Some n) [k] =
     Returns (Next n k \<noteq> None \<or> Next n ''*'' \<noteq> None \<or> Next n ''**'' \<noteq> None)"
  by (simp add: load.simps)

lemma store_snoc [simp]:
  "ks \<noteq> [] \<Longrightarrow> store (Some n) (ks @ [k]) =
     and_then (store (case Next n k of None \<Rightarrow> Some NewNode | Some b \<Rightarrow> b) ks)
       (\<lambda>b. Returns (Some (Node ((Next n)(k := Some b)))))"
  by (subst store.simps) (cases ks, simp_all add: Let_def split: list.splits)

lemma load_snoc [simp]:
  "ks \<noteq> [] \<Longrightarrow> load (Some n) (ks @ [k]) =
     (case Next n k of
        Some b \<Rightarrow> load b ks
      | None \<Rightarrow> (case Next n ''*'' of
                    Some b \<Rightarrow> load b ks
                  | None \<Rightarrow> Returns (Next n ''**'' \<noteq> None)))"
  by (subst load.simps) (cases ks, simp_all split: list.splits option.splits)

lemma Next_NewNode [simp]: "Next NewNode k = None"
  by (simp add: NewNode_def)

lemma Next_Node_upd [simp]: "Next (Node (f(k := v))) j = (if j = k then v else f j)"
  by simp

lemma split_dot_nonempty [simp]: "split_dot s \<noteq> []"
  by (induction s) (auto split: list.splits)

lemma labels_nonempty [simp]: "labels d \<noteq> []"
  by (simp add: labels_def)

lemma split_dot_append: "split_dot (x @ CHR ''.'' # s) = split_dot x @ split_dot s"
  by (induction x) (auto split: list.splits)

lemma labels_append: "s \<noteq> [] \<Longrightarrow> labels (x @ CHR ''.'' # s) = split_dot x @ labels s"
  by (simp add: labels_def trim_dot_def split_dot_append butlast_append)

text \<open>The pointer reached by following labels exactly, from the last to the first.\<close>

function sub :: "nodep \<Rightarrow> string list \<Rightarrow> nodep option" where
  "sub nd ks =
     (if ks = [] then Some nd
      else case nd of
          None \<Rightarrow> None
        | Some n \<Rightarrow> (case Next n (last ks) of None \<Rightarrow> None | Some b \<Rightarrow> sub b (butlast ks)))"
  by pat_completeness auto
termination
  by (relation "measure (\<lambda>(nd, ks). length ks)") auto

declare sub.simps [simp del]

lemma sub_nil [simp]: "sub nd [] = Some nd"
  by (simp add: sub.simps)

lemma sub_snoc [simp]:
  "sub nd (ks @ [k]) =
     (case nd of None \<Rightarrow> None
      | Some n \<Rightarrow> (case Next n k of None \<Rightarrow> None | Some b \<Rightarrow> sub b ks))"
  by (subst sub.simps) (simp split: option.split)

lemma load_below:
  "sub nd ks = Some q \<Longrightarrow> js \<noteq> [] \<Longrightarrow> load nd (js @ ks) = load q js"
proof (induction ks arbitrary: nd rule: rev_induct)
  case (snoc k ks)
  then obtain n b where n: "nd = Some n" "Next n k = Some b" "sub b ks = Some q"
    by (auto split: option.splits)
  then have "load nd ((js @ ks) @ [k]) = load b (js @ ks)"
    using snoc.prems(2) by (subst n(1), subst load_snoc) simp_all
  with snoc.IH [OF n(3) snoc.prems(2)] show ?case by simp
qed simp

lemma store_below:
  "js \<noteq> [] \<Longrightarrow> sub nd ks = Some q \<Longrightarrow> store q js = Returns q' \<Longrightarrow>
    \<exists>nd'. store nd (js @ ks) = Returns nd' \<and> sub nd' ks = Some q'"
proof (induction ks arbitrary: nd rule: rev_induct)
  case (snoc k ks)
  then obtain n b where n: "nd = Some n" "Next n k = Some b" "sub b ks = Some q"
    by (auto split: option.splits)
  from snoc.IH [OF snoc.prems(1) n(3) snoc.prems(3)] obtain b'
    where b': "store b (js @ ks) = Returns b'" "sub b' ks = Some q'" by blast
  then have "store nd ((js @ ks) @ [k]) = Returns (Some (Node ((Next n)(k := Some b'))))"
    using n snoc.prems(1) by (subst n(1), subst store_snoc) simp_all
  with b' show ?case by simp
qed simp

text \<open>Below a fresh node every label is new, so a rule is stored without touching nil.\<close>

lemma store_fresh:
  "js \<noteq> [] \<Longrightarrow> store (Some NewNode) js = Returns q \<Longrightarrow>
    \<exists>nd'. store (Some NewNode) (js @ ks) = Returns nd' \<and> sub nd' ks = Some q"
proof (induction ks rule: rev_induct)
  case (snoc k ks)
  from snoc.IH [OF snoc.prems] obtain b'
    where b': "store (Some NewNode) (js @ ks) = Returns b'" "sub b' ks = Some q" by blast
  then have "store (Some NewNode) ((js @ ks) @ [k]) =
      Returns (Some (Node ((Next NewNode)(k := Some b'))))"
    using snoc.prems(1) by (subst store_snoc) simp_all
  with b'(2) show ?case by simp
qed simp

section \<open>What a rule blocks\<close>

lemma store_load:
  "store nd ks = Returns nd' \<Longrightarrow> ks \<noteq> [] \<Longrightarrow> load nd' ks = Returns True"
proof (induction ks arbitrary: nd nd' rule: rev_induct)
  case (snoc k ks)
  then obtain n where n: "nd = Some n" by (cases nd) auto
  show ?case
  proof (cases "ks = []")
    case True
    with snoc.prems n show ?thesis by (auto split: if_splits)
  next
    case False
    with snoc.prems n obtain b' where b':
      "store (case Next n k of None \<Rightarrow> Some NewNode | Some b \<Rightarrow> b) ks = Returns b'"
      "nd' = Some (Node ((Next n)(k := Some b')))"
      by (auto simp: outcome_simps)
    from snoc.IH [OF b'(1) False] b'(2) False show ?thesis by simp
  qed
qed simp

text \<open>
  A domain is blocked right after it has been put, whatever the tree held before and
  whatever wildcards the domain contains.
\<close>

theorem put_then_get:
  assumes "Put nd d = Returns nd'"
  shows "Get nd' d = Returns True"
  using store_load assms unfolding Put_def Get_def by (metis labels_nonempty)

theorem put_then_get_witness:
  "\<exists>nd'. Put (Some NewNode) ''**.a.com'' = Returns nd' \<and> Get nd' ''**.a.com'' = Returns True"
proof -
  obtain nd' where h: "Put (Some NewNode) ''**.a.com'' = Returns nd'"
    using store_fresh [of "[''**'']" _ "[''a'', ''com'']"]
    by (auto simp: Put_def labels_def trim_dot_def)
  with put_then_get [OF h] show ?thesis by blast
qed

subsection \<open>Lists without wildcards\<close>

text \<open>A tree that has no wildcard label and no nil pointer anywhere.\<close>

inductive plain :: "nodep \<Rightarrow> bool" where
  plainI: "(\<And>k b. Next n k = Some b \<Longrightarrow> plain b) \<Longrightarrow> Next n ''*'' = None \<Longrightarrow>
    Next n ''**'' = None \<Longrightarrow> plain (Some n)"

inductive_simps plain_Some: "plain (Some n)"
inductive_simps plain_None [simp]: "plain None"

lemma plain_NewNode [simp]: "plain (Some NewNode)"
  by (rule plainI) simp_all

text \<open>The paths of a tree: the label lists along which a node can be reached.\<close>

definition has_path :: "nodep \<Rightarrow> string list \<Rightarrow> bool" where
  "has_path nd ks \<longleftrightarrow> sub nd ks \<noteq> None"

lemma has_path_nil [simp]: "has_path nd []"
  by (simp add: has_path_def)

lemma has_path_snoc [simp]:
  "has_path (Some n) (ks @ [k]) \<longleftrightarrow> (\<exists>b. Next n k = Some b \<and> has_path b ks)"
  by (simp add: has_path_def split: option.splits)

lemma has_path_NewNode [simp]: "has_path (Some NewNode) ks \<longleftrightarrow> ks = []"
  by (cases ks rule: rev_cases) auto

lemma load_plain:
  "plain nd \<Longrightarrow> load nd ks = Returns (ks \<noteq> [] \<and> has_path nd ks)"
proof (induction ks arbitrary: nd rule: rev_induct)
  case (snoc k ks)
  then obtain n where n: "nd = Some n" "Next n ''*'' = None" "Next n ''**'' = None"
    "\<And>k b. Next n k = Some b \<Longrightarrow> plain b"
    by (auto elim: plain.cases)
  show ?case
  proof (cases "ks = []")
    case True
    with n show ?thesis using has_path_snoc [of n "[]" k] by auto
  next
    case False
    show ?thesis
    proof (cases "Next n k")
      case None
      with n False show ?thesis by simp
    next
      case (Some b)
      with n False snoc.IH [OF n(4) [OF Some]] show ?thesis by simp
    qed
  qed
qed simp

lemma store_plain:
  "plain nd \<Longrightarrow> ''*'' \<notin> set ks \<Longrightarrow> ''**'' \<notin> set ks \<Longrightarrow>
    \<exists>nd'. store nd ks = Returns nd' \<and> plain nd' \<and>
      (\<forall>js. has_path nd' js \<longleftrightarrow> has_path nd js \<or> suffix js ks)"
proof (induction ks arbitrary: nd rule: rev_induct)
  case Nil
  then show ?case by (auto simp: suffix_def)
next
  case (snoc k ks)
  then obtain n where n: "nd = Some n" "Next n ''*'' = None" "Next n ''**'' = None"
    "\<And>k b. Next n k = Some b \<Longrightarrow> plain b" and k: "k \<noteq> ''*''" "k \<noteq> ''**''"
    by (auto elim: plain.cases)
  let ?b = "case Next n k of None \<Rightarrow> Some NewNode | Some b \<Rightarrow> b"
  have b: "plain ?b" "Next n k = None \<Longrightarrow> has_path ?b js \<longleftrightarrow> js = []" for js
    using n(4) by (auto split: option.split)
  obtain b' where b': "store ?b ks = Returns b'" "plain b'"
    "\<And>js. has_path b' js \<longleftrightarrow> has_path ?b js \<or> suffix js ks"
    using snoc.IH [OF b(1)] snoc.prems by auto
  let ?nd = "Some (Node ((Next n)(k := Some b')))"
  have store: "store nd (ks @ [k]) = Returns ?nd"
  proof (cases "ks = []")
    case True
    with b'(1) n(1) k show ?thesis by (cases n) (auto split: option.split)
  next
    case False
    with b'(1) n(1) show ?thesis by simp
  qed
  have "plain ?nd"
    using n b'(2) k by (intro plainI) (auto split: if_splits)
  moreover have "has_path ?nd js \<longleftrightarrow> has_path nd js \<or> suffix js (ks @ [k])" for js
    by (cases js rule: rev_cases)
      (auto simp: n(1) b'(3) b(2) suffix_def split: option.splits if_splits)
  ultimately show ?case using store by blast
qed

definition no_wildcard :: "string \<Rightarrow> bool" where
  "no_wildcard d \<longleftrightarrow> ''*'' \<notin> set (labels d) \<and> ''**'' \<notin> set (labels d)"

lemma put_all_plain:
  "plain nd \<Longrightarrow> \<forall>d \<in> set ds. no_wildcard d \<Longrightarrow>
    \<exists>nd'. put_all nd ds = Returns nd' \<and> plain nd' \<and>
      (\<forall>js. has_path nd' js \<longleftrightarrow> has_path nd js \<or> (\<exists>d \<in> set ds. suffix js (labels d)))"
proof (induction ds arbitrary: nd)
  case (Cons d ds)
  obtain nd1 where nd1: "store nd (labels d) = Returns nd1" "plain nd1"
    "\<And>js. has_path nd1 js \<longleftrightarrow> has_path nd js \<or> suffix js (labels d)"
    using store_plain [OF Cons.prems(1), of "labels d"] Cons.prems(2)
    by (auto simp: no_wildcard_def)
  obtain nd' where "put_all nd1 ds = Returns nd'" "plain nd'"
    "\<And>js. has_path nd' js \<longleftrightarrow> has_path nd1 js \<or> (\<exists>d \<in> set ds. suffix js (labels d))"
    using Cons.IH [OF nd1(2)] Cons.prems(2) by auto
  with nd1 show ?case by (auto simp: Put_def)
qed simp

text \<open>
  For a list of domains without wildcards the tree is exactly the set of their suffixes:
  provisioning does not panic, and a query is blocked when its labels are the last labels
  of some listed domain. In particular listing \<open>a.b.com\<close> blocks \<open>b.com\<close> and \<open>com\<close> as well,
  and no subdomain of \<open>a.b.com\<close>.
\<close>

theorem blocklist_without_wildcards:
  assumes "\<forall>d \<in> set ds. no_wildcard d"
  shows "\<exists>nd. put_all (Some NewNode) ds = Returns nd \<and>
    (\<forall>q. Get nd q = Returns (\<exists>d \<in> set ds. suffix (labels q) (labels d)))"
proof -
  obtain nd where nd: "put_all (Some NewNode) ds = Returns nd" "plain nd"
    "\<And>js. has_path nd js \<longleftrightarrow> js = [] \<or> (\<exists>d \<in> set ds. suffix js (labels d))"
    using put_all_plain [OF plain_NewNode assms] by auto
  then show ?thesis by (auto simp: Get_def load_plain)
qed

theorem blocklist_without_wildcards_witness:
  "\<exists>nd. put_all (Some NewNode) [''a.b.com''] = Returns nd \<and> Get nd ''b.com'' = Returns True \<and>
    Get nd ''x.a.b.com'' = Returns False"
proof -
  have "\<forall>d \<in> set [''a.b.com'']. no_wildcard d"
    by (simp add: no_wildcard_def labels_def trim_dot_def)
  from blocklist_without_wildcards [OF this] obtain nd
    where nd: "put_all (Some NewNode) [''a.b.com''] = Returns nd"
      "\<And>q. Get nd q = Returns (suffix (labels q) (labels ''a.b.com''))" by auto
  have "Get nd ''b.com'' = Returns True" "Get nd ''x.a.b.com'' = Returns False"
    unfolding nd(2) by (simp_all add: labels_def trim_dot_def suffix_def Cons_eq_append_conv)
  with nd(1) show ?thesis by blast
qed

subsection \<open>Wildcards\<close>

lemma store_wildcard:
  "\<exists>nd q. store (Some NewNode) (''**'' # ks) = Returns nd \<and> sub nd ks = Some (Some q)
    \<and> Next q ''**'' = Some None \<and> (\<forall>k. k \<noteq> ''**'' \<longrightarrow> Next q k = None)"
  using store_fresh [of "[''**'']" "Some (Node ((Next NewNode)(''**'' := Some None)))" ks]
  by (auto simp: NewNode_def)

text \<open>
  A rule \<open>**.s\<close> blocks every domain below \<open>s\<close>, at any depth, as long as the label next
  to \<open>s\<close> is not itself \<open>**\<close>.
\<close>

theorem wildcard_blocks_subdomains:
  assumes "s \<noteq> []" "last (split_dot x) \<noteq> ''**''"
  shows "\<exists>nd. Put (Some NewNode) (''**.'' @ s) = Returns nd \<and>
    Get nd (x @ ''.'' @ s) = Returns True"
proof -
  obtain nd q where nd: "store (Some NewNode) (''**'' # labels s) = Returns nd"
    "sub nd (labels s) = Some (Some q)" "Next q ''**'' = Some None"
    "\<And>k. k \<noteq> ''**'' \<Longrightarrow> Next q k = None"
    using store_wildcard by blast
  have rule: "labels (''**.'' @ s) = ''**'' # labels s"
    using labels_append [OF assms(1), of "''**''"] by simp
  have query: "labels (x @ ''.'' @ s) = split_dot x @ labels s"
    using labels_append [OF assms(1), of x] by simp
  obtain js j where x: "split_dot x = js @ [j]"
    by (metis append_butlast_last_id split_dot_nonempty)
  have "load (Some q) (js @ [j]) = Returns True"
    using nd(3,4) assms(2) x by (cases "js = []") auto
  then have "load nd (split_dot x @ labels s) = Returns True"
    using load_below [OF nd(2), of "js @ [j]"] x by (simp del: load_snoc)
  then show ?thesis using nd(1) rule query by (auto simp: Put_def Get_def)
qed

theorem wildcard_blocks_subdomains_witness:
  "\<exists>nd. Put (Some NewNode) (''**.'' @ ''com'') = Returns nd \<and>
    Get nd (''x.y'' @ ''.'' @ ''com'') = Returns True"
  by (rule wildcard_blocks_subdomains) simp_all

text \<open>
  And when that label is \<open>**\<close>, the lookup follows the nil pointer the rule was stored
  as: after the rule \<open>**.s\<close>, asking for any domain \<open>x.**.s\<close> panics.
\<close>

theorem wildcard_query_panics:
  assumes "s \<noteq> []"
  shows "\<exists>nd. Put (Some NewNode) (''**.'' @ s) = Returns nd \<and>
    Get nd (x @ ''.**.'' @ s) = Panics NilDeref"
proof -
  obtain nd q where nd: "store (Some NewNode) (''**'' # labels s) = Returns nd"
    "sub nd (labels s) = Some (Some q)" "Next q ''**'' = Some None"
    using store_wildcard by blast
  have rule: "labels (''**.'' @ s) = ''**'' # labels s"
    using labels_append [OF assms, of "''**''"] by simp
  have query: "labels (x @ ''.**.'' @ s) = split_dot x @ [''**''] @ labels s"
    using labels_append [of "''**.'' @ s" x] rule by simp
  have "load (Some q) (split_dot x @ [''**'']) = Panics NilDeref"
    using nd(3) by simp
  then have "load nd ((split_dot x @ [''**'']) @ labels s) = Panics NilDeref"
    using load_below [OF nd(2), of "split_dot x @ [''**'']"] by (simp del: load_snoc)
  then show ?thesis using nd(1) rule query by (auto simp: Put_def Get_def)
qed

theorem wildcard_query_panics_witness:
  "\<exists>nd. Put (Some NewNode) (''**.'' @ ''com'') = Returns nd \<and>
    Get nd (''foo'' @ ''.**.'' @ ''com'') = Panics NilDeref"
  by (rule wildcard_query_panics) simp

text \<open>
  The tree does not fall back to a wildcard once it has followed an exact label, so a
  more specific rule takes domains out of a more general one: after \<open>**.s\<close> the domain
  \<open>x.k.s\<close> is blocked, and putting the further rule \<open>k.s\<close> unblocks it.
\<close>

theorem specific_rule_unblocks:
  assumes "k \<noteq> ''**''"
  shows "\<exists>nd nd'. store (Some NewNode) (''**'' # ks) = Returns nd \<and>
    load nd (x # k # ks) = Returns True \<and>
    store nd (k # ks) = Returns nd' \<and> load nd' (x # k # ks) = Returns False"
proof -
  obtain nd q where nd: "store (Some NewNode) (''**'' # ks) = Returns nd"
    "sub nd ks = Some (Some q)" "Next q ''**'' = Some None"
    "\<And>k. k \<noteq> ''**'' \<Longrightarrow> Next q k = None"
    using store_wildcard by blast
  let ?q = "Some (Node ((Next q)(k := Some (Some NewNode))))"
  have before: "load nd ([x, k] @ ks) = Returns True"
    using load_below [OF nd(2), of "[x, k]"] load_snoc [of "[x]" q k] nd(3,4) assms by simp
  have "store (Some q) [k] = Returns ?q" using nd(4) assms by simp
  from store_below [OF _ nd(2) this] obtain nd' where nd':
    "store nd ([k] @ ks) = Returns nd'" "sub nd' ks = Some ?q" by blast
  have after: "load nd' ([x, k] @ ks) = Returns False"
    using load_below [OF nd'(2), of "[x, k]"]
      load_snoc [of "[x]" "Node ((Next q)(k := Some (Some NewNode)))" k] by simp
  from nd(1) before nd'(1) after show ?thesis by auto
qed

theorem specific_rule_unblocks_witness:
  "\<exists>nd nd'. store (Some NewNode) (''**'' # [''com'']) = Returns nd \<and>
    load nd (''b'' # ''a'' # [''com'']) = Returns True \<and>
    store nd (''a'' # [''com'']) = Returns nd' \<and> load nd' (''b'' # ''a'' # [''com'']) = Returns False"
  by (rule specific_rule_unblocks) simp

subsection \<open>The tree decides like the list of its rules\<close>

text \<open>
  The reference: the rules as they are written, each with its labels from the last to the
  first, and what is left of them below a label. A label of the query is matched by the rules
  that name it; only when there is none by those with \<open>*\<close>, and only then by \<open>**\<close>.
\<close>

definition below :: "string \<Rightarrow> string list list \<Rightarrow> string list list" where
  "below k rs = map tl (filter (\<lambda>r. r \<noteq> [] \<and> hd r = k) rs)"

fun blocked :: "string list list \<Rightarrow> string list \<Rightarrow> bool" where
  "blocked rs [] = False"
| "blocked rs (k # ks) =
     (if ks = [] then below k rs \<noteq> [] \<or> below ''*'' rs \<noteq> [] \<or> below ''**'' rs \<noteq> []
      else if below k rs \<noteq> [] then blocked (below k rs) ks
      else if below ''*'' rs \<noteq> [] then blocked (below ''*'' rs) ks
      else below ''**'' rs \<noteq> [])"

lemma below_simps [simp]:
  "below k [] = []" "below k (rs @ ss) = below k rs @ below k ss"
  "below k [[]] = []" "below k [j # r] = (if j = k then [r] else [])"
  by (simp_all add: below_def)

text \<open>The tree that stands for a list of rules.\<close>

inductive stands_for :: "nodep \<Rightarrow> string list list \<Rightarrow> bool" where
  node: "(\<And>k. Next n k = None \<longleftrightarrow> below k rs = []) \<Longrightarrow>
    (\<And>k b. k \<noteq> ''**'' \<Longrightarrow> Next n k = Some b \<Longrightarrow> stands_for b (below k rs)) \<Longrightarrow>
    Next n ''**'' = None \<or> Next n ''**'' = Some None \<Longrightarrow> stands_for (Some n) rs"

inductive_cases stands_forE: "stands_for nd rs"

lemma stands_for_NewNode: "(\<And>k. below k rs = []) \<Longrightarrow> stands_for (Some NewNode) rs"
  by (rule stands_for.node) simp_all

lemma stands_for_add_nil: "stands_for nd rs \<Longrightarrow> stands_for nd (rs @ [[]])"
  by (erule stands_forE) (auto intro: stands_for.node)

lemma store_stands_for:
  "stands_for nd rs \<Longrightarrow> ''**'' \<notin> set (tl ks) \<Longrightarrow>
    \<exists>nd'. store nd ks = Returns nd' \<and> stands_for nd' (rs @ [rev ks])"
proof (induction ks arbitrary: nd rs rule: rev_induct)
  case Nil
  then show ?case by (simp add: stands_for_add_nil)
next
  case (snoc k ks)
  from snoc.prems(1) obtain n where n: "nd = Some n"
    "\<And>j. Next n j = None \<longleftrightarrow> below j rs = []"
    "\<And>j b. j \<noteq> ''**'' \<Longrightarrow> Next n j = Some b \<Longrightarrow> stands_for b (below j rs)"
    "Next n ''**'' = None \<or> Next n ''**'' = Some None"
    by (auto elim: stands_forE)
  show ?case
  proof (cases "k = ''**''")
    case True
    then have ks: "ks = []" using snoc.prems(2) by (cases ks) auto
    have "stands_for (Some (Node ((Next n)(''**'' := Some None)))) (rs @ [[''**'']])"
      by (rule stands_for.node) (use n(2,3) in auto)
    then show ?thesis using n(1) ks True by simp
  next
    case False
    let ?b = "case Next n k of None \<Rightarrow> Some NewNode | Some b \<Rightarrow> b"
    have "stands_for ?b (below k rs)"
    proof (cases "Next n k")
      case None
      with n(2) [of k] show ?thesis by (simp add: stands_for_NewNode)
    next
      case (Some b)
      with n(3) [OF False] show ?thesis by simp
    qed
    moreover have "''**'' \<notin> set (tl ks)" using snoc.prems(2) by (cases ks) auto
    ultimately obtain b' where b': "store ?b ks = Returns b'" "stands_for b' (below k rs @ [rev ks])"
      using snoc.IH by blast
    have "stands_for (Some (Node ((Next n)(k := Some b')))) (rs @ [k # rev ks])"
      by (rule stands_for.node) (use n(2-4) b'(2) False in \<open>auto split: if_splits\<close>)
    moreover have "store nd (ks @ [k]) = Returns (Some (Node ((Next n)(k := Some b'))))"
    proof (cases "ks = []")
      case True
      with b'(1) n(1) False show ?thesis by (cases n) (auto split: option.split)
    qed (use b'(1) n(1) in simp)
    ultimately show ?thesis by simp
  qed
qed

lemma load_stands_for:
  "stands_for nd rs \<Longrightarrow> ''**'' \<notin> set ks \<Longrightarrow> load nd ks = Returns (blocked rs (rev ks))"
proof (induction ks arbitrary: nd rs rule: rev_induct)
  case (snoc k ks)
  from snoc.prems(1) obtain n where n: "nd = Some n"
    "\<And>j. Next n j = None \<longleftrightarrow> below j rs = []"
    "\<And>j b. j \<noteq> ''**'' \<Longrightarrow> Next n j = Some b \<Longrightarrow> stands_for b (below j rs)"
    by (auto elim: stands_forE)
  have k: "k \<noteq> ''**''" "''**'' \<notin> set ks" using snoc.prems(2) by auto
  have sub: "load b ks = Returns (blocked (below j rs) (rev ks))"
    if "j \<noteq> ''**''" "Next n j = Some b" for j b
    by (rule snoc.IH [OF n(3) [OF that] k(2)])
  show ?case
    using sub [OF k(1)] sub [of "''*''"]
    by (cases "ks = []") (simp_all add: n(1) n(2) [symmetric] split: option.split)
qed simp

lemma put_all_stands_for:
  "stands_for nd rs \<Longrightarrow> \<forall>d \<in> set ds. ''**'' \<notin> set (tl (labels d)) \<Longrightarrow>
    \<exists>nd'. put_all nd ds = Returns nd' \<and> stands_for nd' (rs @ map (\<lambda>d. rev (labels d)) ds)"
proof (induction ds arbitrary: nd rs)
  case (Cons d ds)
  from store_stands_for [OF Cons.prems(1), of "labels d"] Cons.prems(2) obtain nd1
    where "Put nd d = Returns nd1" "stands_for nd1 (rs @ [rev (labels d)])" by (auto simp: Put_def)
  with Cons.IH [of nd1 "rs @ [rev (labels d)]"] Cons.prems(2) show ?case by auto
qed simp

text \<open>The rules of a block list.\<close>

definition rules :: "string list \<Rightarrow> string list list" where
  "rules ds = map (\<lambda>d. rev (labels d)) ds"

lemma blocklist_decides:
  assumes "\<forall>d \<in> set ds. ''**'' \<notin> set (tl (labels d))"
  obtains nd where "put_all (Some NewNode) ds = Returns nd"
    "\<And>q. ''**'' \<notin> set (labels q) \<Longrightarrow> Get nd q = Returns (blocked (rules ds) (rev (labels q)))"
proof -
  obtain nd where "put_all (Some NewNode) ds = Returns nd" "stands_for nd (rules ds)"
    using put_all_stands_for [OF stands_for_NewNode [of "[]"] assms] by (auto simp: rules_def)
  then show thesis using that load_stands_for by (auto simp: Get_def)
qed



end
