(* ===== verification/Go_IO.thy ===== *)
theory Go_IO
  imports Trojan_Prelude
begin

text \<open>
  The part of Go's package \<open>io\<close> that the code reads connections with. A connection, as
  a reader sees it, is a finite script: the chunks in which its bytes arrive (an empty
  chunk is a \<open>Read\<close> that returns \<open>(0, nil)\<close>), the bytes that arrive together with the
  error that ends the stream, and that error, which every later \<open>Read\<close> returns again.
  \<open>ReadFull\<close> is \<open>io.ReadFull\<close>; its specification depends on the bytes of the script
  only, never on how they are split into chunks. The locale \<open>io_reader\<close> is the contract
  of the connection wrappers of the program: a reader whose every \<open>Read\<close> is the one of
  the script it shows. \<open>ReadFull\<close> through such a wrapper is \<open>ReadFull\<close> of its script.
\<close>

text \<open>A \<open>time.Duration\<close> counts nanoseconds.\<close>

definition second :: int where "second = 1000000000"

section \<open>Readers\<close>

record istream =
  is_chunks :: "bytes list"
  is_last :: bytes
  is_err :: go_error

definition content :: "istream \<Rightarrow> bytes" where
  "content s = concat (is_chunks s) @ is_last s"

definition is_read :: "istream \<Rightarrow> nat \<Rightarrow> (bytes \<times> go_error option) \<times> istream" where
  "is_read s n =
     (case is_chunks s of
        c # cs \<Rightarrow>
          (if length c \<le> n then ((c, None), s\<lparr>is_chunks := cs\<rparr>)
           else ((take n c, None), s\<lparr>is_chunks := drop n c # cs\<rparr>))
      | [] \<Rightarrow>
          (if length (is_last s) \<le> n then ((is_last s, Some (is_err s)), s\<lparr>is_last := []\<rparr>)
           else ((take n (is_last s), None), s\<lparr>is_last := drop n (is_last s)\<rparr>)))"

lemma is_read_spec:
  assumes "is_read s n = ((bs, e), s')"
  shows "content s = bs @ content s'" "length bs \<le> n" "is_err s' = is_err s"
    "e = None \<or> e = Some (is_err s) \<and> content s' = []"
  using assms
  by (auto simp: is_read_def content_def split: list.splits if_splits)

lemma is_read_decreases:
  "is_read s n = ((bs, None), s') \<Longrightarrow> 0 < n \<Longrightarrow>
    length (is_chunks s') + length (content s') < length (is_chunks s) + length (content s)"
  by (auto simp: is_read_def content_def split: list.splits if_splits)

text \<open>
  The loop of \<open>io.ReadAtLeast\<close> with the minimum equal to the length of the buffer; the
  third argument holds the bytes already read.
\<close>

function read_loop :: "istream \<Rightarrow> nat \<Rightarrow> bytes \<Rightarrow> bytes \<times> go_error option \<times> istream" where
  "read_loop s k acc =
     (if length acc < k
      then (case is_read s (k - length acc) of
              ((bs, Some e), s') \<Rightarrow> (acc @ bs, Some e, s')
            | ((bs, None), s') \<Rightarrow> read_loop s' k (acc @ bs))
      else (acc, None, s))"
  by pat_completeness auto
termination
  by (relation "measure (\<lambda>(s, k, acc). length (is_chunks s) + length (content s))")
    (auto dest!: is_read_decreases [OF sym])

declare read_loop.simps [simp del]

definition ReadFull :: "istream \<Rightarrow> nat \<Rightarrow> bytes \<times> go_error option \<times> istream" where
  "ReadFull s k =
     (case read_loop s k [] of
        (bs, e, s') \<Rightarrow>
          (bs,
           if k \<le> length bs then None
           else if bs \<noteq> [] \<and> e = Some EOF then Some ErrUnexpectedEOF
           else e,
           s'))"

lemma read_loop_spec:
  assumes "read_loop s k acc = (bs, e, s')" and "length acc \<le> k"
  shows "bs = acc @ take (k - length acc) (content s) \<and> content s' = drop (k - length acc) (content s)
    \<and> is_err s' = is_err s \<and> (length acc + length (content s) < k \<longrightarrow> e = Some (is_err s))"
  using assms
proof (induction s k acc arbitrary: bs e s' rule: read_loop.induct)
  case (1 s k acc)
  show ?case
  proof (cases "length acc < k")
    case False
    with "1.prems" show ?thesis by (auto simp: read_loop.simps [of s k acc])
  next
    case True
    obtain cs d t where rd: "is_read s (k - length acc) = ((cs, d), t)"
      by (metis prod.exhaust)
    note spec = is_read_spec [OF rd]
    show ?thesis
    proof (cases d)
      case None
      with True rd "1.prems" have "read_loop t k (acc @ cs) = (bs, e, s')"
        by (simp add: read_loop.simps [of s k acc])
      moreover have "length (acc @ cs) \<le> k" using spec(2) True by simp
      ultimately show ?thesis
        using "1.IH" [OF True rd [symmetric] refl None] spec by auto
    next
      case (Some x)
      with True rd "1.prems" have "bs = acc @ cs" "e = Some x" "s' = t"
        by (auto simp: read_loop.simps [of s k acc])
      with spec Some show ?thesis by auto
    qed
  qed
qed

definition read_full_error :: "istream \<Rightarrow> go_error" where
  "read_full_error s =
     (if content s \<noteq> [] \<and> is_err s = EOF then ErrUnexpectedEOF else is_err s)"

lemma ReadFull_spec:
  "\<exists>s'. ReadFull s k = (take k (content s),
          if k \<le> length (content s) then None else Some (read_full_error s), s')
        \<and> content s' = drop k (content s) \<and> is_err s' = is_err s"
proof -
  obtain bs e s' where "read_loop s k [] = (bs, e, s')" by (metis prod.exhaust)
  with read_loop_spec [OF this] show ?thesis
    by (auto simp: ReadFull_def read_full_error_def)
qed

lemma ReadFull_enough:
  assumes "k \<le> length (content s)"
  obtains s' where "ReadFull s k = (take k (content s), None, s')"
    "content s' = drop k (content s)" "is_err s' = is_err s"
  using ReadFull_spec [of s k] assms by auto

lemma ReadFull_short:
  assumes "length (content s) < k"
  obtains s' where "ReadFull s k = (content s, Some (read_full_error s), s')"
    "content s' = []" "is_err s' = is_err s"
  using ReadFull_spec [of s k] assms by auto

text \<open>
  Reading into \<open>buf[lo:hi]\<close>: the slice expression is checked first, and the bytes read
  overwrite the front of the slice even when the read fails half way.
\<close>

definition ReadFullInto ::
  "istream \<Rightarrow> bytes \<Rightarrow> nat \<Rightarrow> nat \<Rightarrow> (go_error option \<times> bytes \<times> istream) outcome" where
  "ReadFullInto s buf lo hi =
     (if lo \<le> hi \<and> hi \<le> length buf
      then (case ReadFull s (hi - lo) of (bs, e, s') \<Rightarrow> Returns (e, copy_at buf lo bs, s'))
      else Panics SliceBounds)"

lemma ReadFullInto_enough:
  assumes "lo \<le> hi" "hi \<le> length buf" "hi - lo \<le> length (content s)"
  obtains s' where
    "ReadFullInto s buf lo hi = Returns (None, copy_at buf lo (take (hi - lo) (content s)), s')"
    "content s' = drop (hi - lo) (content s)" "is_err s' = is_err s"
  using ReadFull_enough [OF assms(3)] assms(1,2) by (metis (no_types, lifting)
      ReadFullInto_def case_prod_conv)

lemma ReadFullInto_short:
  assumes "lo \<le> hi" "hi \<le> length buf" "length (content s) < hi - lo"
  obtains s' where
    "ReadFullInto s buf lo hi =
       Returns (Some (read_full_error s), copy_at buf lo (content s), s')"
    "content s' = []" "is_err s' = is_err s"
  using ReadFull_short [OF assms(3)] assms(1,2) by (metis (no_types, lifting)
      ReadFullInto_def case_prod_conv)

lemma ReadFullInto_no_panic:
  "lo \<le> hi \<Longrightarrow> hi \<le> length buf \<Longrightarrow> \<exists>x. ReadFullInto s buf lo hi = Returns x"
  by (simp add: ReadFullInto_def split: prod.splits)

section \<open>Connection wrappers\<close>

text \<open>
  The same loop over any \<open>Read\<close> method. A method may panic, and nothing says a priori that
  it makes progress, so the loop may fail to return, which is \<open>None\<close>.
\<close>

type_synonym 's read_method = "'s \<Rightarrow> nat \<Rightarrow> ((bytes \<times> go_error option) \<times> 's) outcome"

partial_function (option) read_loop_via ::
  "'s read_method \<Rightarrow> 's \<Rightarrow> nat \<Rightarrow> bytes \<Rightarrow> (bytes \<times> go_error option \<times> 's) outcome option" where
  "read_loop_via rd s k acc =
     (if length acc < k
      then (case rd s (k - length acc) of
              Panics p \<Rightarrow> Some (Panics p)
            | Returns ((bs, Some e), s') \<Rightarrow> Some (Returns (acc @ bs, Some e, s'))
            | Returns ((bs, None), s') \<Rightarrow> read_loop_via rd s' k (acc @ bs))
      else Some (Returns (acc, None, s)))"

definition full_error :: "nat \<Rightarrow> bytes \<Rightarrow> go_error option \<Rightarrow> go_error option" where
  "full_error k bs e =
     (if k \<le> length bs then None
      else if bs \<noteq> [] \<and> e = Some EOF then Some ErrUnexpectedEOF
      else e)"

definition ReadFull_via ::
  "'s read_method \<Rightarrow> 's \<Rightarrow> nat \<Rightarrow> (bytes \<times> go_error option \<times> 's) outcome option" where
  "ReadFull_via rd s k =
     map_option (map_outcome (\<lambda>(bs, e, s'). (bs, full_error k bs e, s'))) (read_loop_via rd s k [])"

locale io_reader =
  fixes rd :: "'s read_method"
    and view :: "'s \<Rightarrow> istream"
    and inv :: "'s \<Rightarrow> bool"
  assumes rd_view: "inv s \<Longrightarrow> 0 < n \<Longrightarrow> is_read (view s) n = ((bs, e), v) \<Longrightarrow>
      \<exists>s'. rd s n = Returns ((bs, e), s') \<and> view s' = v \<and> (e = None \<or> bs \<noteq> [] \<longrightarrow> inv s')"
begin

lemma read_loop_via_view:
  assumes "inv s" "view s = v" "read_loop v k acc = (bs, e, v')"
  shows "\<exists>s'. read_loop_via rd s k acc = Some (Returns (bs, e, s')) \<and> view s' = v' \<and>
    (e = None \<or> k \<le> length bs \<longrightarrow> inv s')"
  using assms
proof (induction v k acc arbitrary: s bs e v' rule: read_loop.induct)
  case (1 v k acc)
  show ?case
  proof (cases "length acc < k")
    case False
    then have "read_loop_via rd s k acc = Some (Returns (acc, None, s))"
      by (simp add: read_loop_via.simps [of rd s k acc])
    moreover have "bs = acc" "e = None" "v' = v"
      using False "1.prems"(3) by (simp_all add: read_loop.simps [of v k acc])
    ultimately show ?thesis using "1.prems" by simp
  next
    case True
    obtain cs d w where v: "is_read v (k - length acc) = ((cs, d), w)"
      by (metis prod.exhaust)
    have pos: "0 < k - length acc" using True by simp
    obtain t where t: "rd s (k - length acc) = Returns ((cs, d), t)" "view t = w" "d = None \<or> cs \<noteq> [] \<longrightarrow> inv t"
      using rd_view [OF "1.prems"(1) pos] v "1.prems"(2) by blast
    show ?thesis
    proof (cases d)
      case None
      with True v "1.prems" have "read_loop w k (acc @ cs) = (bs, e, v')"
        by (simp add: read_loop.simps [of v k acc])
      from "1.IH" [OF True v [symmetric] refl None _ t(2) this] t(3) None
      show ?thesis using True t(1)
        by (simp add: read_loop_via.simps [of rd s k acc])
    next
      case (Some x)
      with True t(1) have "read_loop_via rd s k acc = Some (Returns (acc @ cs, Some x, t))"
        by (simp add: read_loop_via.simps [of rd s k acc])
      moreover have "bs = acc @ cs" "e = Some x" "v' = w"
        using True v Some "1.prems"(3) by (simp_all add: read_loop.simps [of v k acc])
      ultimately show ?thesis using t(2,3) True by auto
    qed
  qed
qed

text \<open>\<open>io.ReadFull\<close> through the wrapper is \<open>io.ReadFull\<close> of the script it shows.\<close>

lemma ReadFull_via_view:
  assumes "inv s" "ReadFull (view s) k = (bs, e, v)"
  shows "\<exists>s'. ReadFull_via rd s k = Some (Returns (bs, e, s')) \<and> view s' = v \<and>
    (e = None \<longrightarrow> inv s')"
proof -
  obtain bs' e' v' where v: "read_loop (view s) k [] = (bs', e', v')" by (metis prod.exhaust)
  from assms(2) v have eq: "bs = bs'" "v = v'" "e = full_error k bs' e'"
    by (auto simp: ReadFull_def full_error_def split: if_splits)
  from read_loop_via_view [OF assms(1) refl v] obtain s'
    where s': "read_loop_via rd s k [] = Some (Returns (bs', e', s'))" "view s' = v'"
      "e' = None \<or> k \<le> length bs' \<longrightarrow> inv s'" by blast
  show ?thesis
    using s' eq by (auto simp: ReadFull_via_def full_error_def split: if_splits)
qed

end

text \<open>A connection that is its own script satisfies the contract.\<close>

interpretation plain: io_reader "\<lambda>s n. Returns (is_read s n)" "\<lambda>s. s" "\<lambda>_. True"
  by unfold_locales auto

end
