(* ===== verification/Socks_Addr.thy ===== *)
theory Socks_Addr
  imports Go_IO
begin

text \<open>
  The address codec of \<open>pkgs/socks/addr.go\<close>: reading an address from a connection,
  parsing it from a slice, rendering it as \<open>host:port\<close>, resolving it, and encoding a
  network address. The functions of package \<open>net\<close> that the code calls (\<open>IP.To4\<close>,
  \<open>IP.To16\<close>, \<open>IP.String\<close>, \<open>JoinHostPort\<close>) are modelled as the standard library has
  them; name resolution is a parameter. The abstract view of an address is a \<open>host\<close> and a
  port with their encoding \<open>encode_addr\<close>.
\<close>

section \<open>Package net\<close>

abbreviation IPv4len :: nat where "IPv4len \<equiv> 4"
abbreviation IPv6len :: nat where "IPv6len \<equiv> 16"

definition v4InV6Prefix :: bytes where
  "v4InV6Prefix = replicate 10 0 @ [0xff, 0xff]"

definition To4 :: "bytes \<Rightarrow> bytes option" where
  "To4 ip =
     (if length ip = IPv4len then Some ip
      else if length ip = IPv6len \<and> take 12 ip = v4InV6Prefix then Some (drop 12 ip)
      else None)"

definition To16 :: "bytes \<Rightarrow> bytes option" where
  "To16 ip =
     (if length ip = IPv4len then Some (v4InV6Prefix @ ip)
      else if length ip = IPv6len then Some ip
      else None)"

definition join :: "string \<Rightarrow> string list \<Rightarrow> string" where
  "join sep xs = concat (case xs of [] \<Rightarrow> [] | y # ys \<Rightarrow> y # map (\<lambda>z. sep @ z) ys)"

definition dotted :: "bytes \<Rightarrow> string" where
  "dotted ip = join ''.'' (map (\<lambda>b. itoa (unat b)) ip)"

fun groups16 :: "bytes \<Rightarrow> nat list" where
  "groups16 (x # y # zs) = be16 x y # groups16 zs"
| "groups16 _ = []"

text \<open>The first of the longest runs of at least two zero groups, as (start, length).\<close>

definition zero_run :: "nat list \<Rightarrow> nat \<times> nat" where
  "zero_run gs =
     fold (\<lambda>i best. let l = length (takeWhile (\<lambda>g. g = 0) (drop i gs))
                    in if 2 \<le> l \<and> snd best < l then (i, l) else best)
       [0..<length gs] (0, 0)"

definition ip6_text :: "bytes \<Rightarrow> string" where
  "ip6_text ip =
     (let gs = groups16 ip; hex = join '':'' \<circ> map hex_digits; (i, l) = zero_run gs
      in if l = 0 then hex gs else hex (take i gs) @ ''::'' @ hex (drop (i + l) gs))"

definition hex_byte :: "byte \<Rightarrow> string" where
  "hex_byte b = [digit_char (unat b div 16), digit_char (unat b mod 16)]"

definition IP_String :: "bytes \<Rightarrow> string" where
  "IP_String ip =
     (if ip = [] then ''<nil>''
      else if length ip \<noteq> IPv4len \<and> length ip \<noteq> IPv6len then ''?'' @ concat (map hex_byte ip)
      else case To4 ip of Some p4 \<Rightarrow> dotted p4 | None \<Rightarrow> ip6_text ip)"

definition JoinHostPort :: "string \<Rightarrow> string \<Rightarrow> string" where
  "JoinHostPort host port =
     (if CHR '':'' \<in> set host then ''['' @ host @ '']:'' @ port else host @ '':'' @ port)"

section \<open>Addresses\<close>

definition MaxAddrLen :: nat where "MaxAddrLen = 1 + 1 + 255 + 2"

definition ErrInvalidAddrType :: go_error where
  "ErrInvalidAddrType = Msg ''invalid address type''"

definition ErrInvalidAddrLen :: go_error where
  "ErrInvalidAddrLen = Msg ''invalid address length''"

definition AddrTypeIPv4 :: byte where "AddrTypeIPv4 = 1"
definition AddrTypeDomain :: byte where "AddrTypeDomain = 3"
definition AddrTypeIPv6 :: byte where "AddrTypeIPv6 = 4"

lemmas addr_types = AddrTypeIPv4_def AddrTypeDomain_def AddrTypeIPv6_def

record Addr =
  addr_data :: bytes

definition Addr_Len :: "Addr \<Rightarrow> nat" where
  "Addr_Len a = length (addr_data a)"

definition Addr_Network :: "Addr \<Rightarrow> string" where
  "Addr_Network a = ''socks''"

definition AppendTo :: "Addr \<Rightarrow> bytes \<Rightarrow> bytes" where
  "AppendTo a b = b @ addr_data a"

definition Addr_Bytes :: "Addr \<Rightarrow> bytes" where
  "Addr_Bytes a = addr_data a"

definition Addr_Append :: "Addr \<Rightarrow> bytes \<Rightarrow> bytes" where
  "Addr_Append a b = addr_data a @ b"

definition port_at :: "bytes \<Rightarrow> nat \<Rightarrow> nat \<Rightarrow> nat outcome" where
  "port_at d i j = and_then (index d i) (\<lambda>hi. and_then (index d j) (\<lambda>lo. Returns (be16 hi lo)))"

text \<open>
  \<open>Addr.String\<close>. In the domain case every index is computed as \<open>2+addr.data[1]\<close>, an
  expression of type \<open>byte\<close>: the sum wraps around at 256, and so does it here.
\<close>

definition Addr_String :: "Addr \<Rightarrow> string outcome" where
  "Addr_String addr =
     (let d = addr_data addr in
      and_then (index d 0) (\<lambda>t.
        if t = AddrTypeIPv4 then
          and_then (slice d 1 (1 + IPv4len)) (\<lambda>ip.
          and_then (port_at d (1 + IPv4len) (1 + IPv4len + 1)) (\<lambda>port.
            Returns (JoinHostPort (IP_String ip) (itoa port))))
        else if t = AddrTypeDomain then
          and_then (index d 1) (\<lambda>l.
          and_then (slice d 2 (unat (2 + l))) (\<lambda>host.
          and_then (port_at d (unat (2 + l)) (unat (2 + l + 1))) (\<lambda>port.
            Returns (JoinHostPort (string_of_bytes host) (itoa port)))))
        else if t = AddrTypeIPv6 then
          and_then (slice d 1 (1 + IPv6len)) (\<lambda>ip.
          and_then (port_at d (1 + IPv6len) (1 + IPv6len + 1)) (\<lambda>port.
            Returns (JoinHostPort (IP_String ip) (itoa port))))
        else Returns []))"

section \<open>Reading and parsing\<close>

definition ReadAddrRest ::
  "istream \<Rightarrow> bytes \<Rightarrow> nat \<Rightarrow> ((go_error + Addr) \<times> bytes \<times> istream) outcome" where
  "ReadAddrRest r addr n =
     and_then (ReadFullInto r addr 2 n) (\<lambda>(e, addr', r').
       case e of
         Some e \<Rightarrow> Returns (Inl e, addr', r')
       | None \<Rightarrow> and_then (slice addr' 0 n) (\<lambda>d. Returns (Inr \<lparr>addr_data = d\<rparr>, addr', r')))"

definition ReadAddrBuffer ::
  "istream \<Rightarrow> bytes \<Rightarrow> ((go_error + Addr) \<times> bytes \<times> istream) outcome" where
  "ReadAddrBuffer r addr =
     and_then (ReadFullInto r addr 0 2) (\<lambda>(e, addr, r).
       case e of
         Some e \<Rightarrow> Returns (Inl e, addr, r)
       | None \<Rightarrow>
           if addr ! 0 = AddrTypeIPv4 then ReadAddrRest r addr (1 + IPv4len + 2)
           else if addr ! 0 = AddrTypeDomain then ReadAddrRest r addr (1 + 1 + unat (addr ! 1) + 2)
           else if addr ! 0 = AddrTypeIPv6 then ReadAddrRest r addr (1 + IPv6len + 2)
           else Returns (Inl ErrInvalidAddrType, addr, r))"

definition ReadAddr :: "istream \<Rightarrow> ((go_error + Addr) \<times> bytes \<times> istream) outcome" where
  "ReadAddr r = ReadAddrBuffer r (replicate MaxAddrLen 0)"

definition ParseAddr :: "bytes \<Rightarrow> go_error + Addr" where
  "ParseAddr addr =
     (if length addr < 1 + 1 + 1 + 2 then Inl ErrInvalidAddrLen
      else if addr ! 0 = AddrTypeIPv4 then
        (let n = 1 + IPv4len + 2 in
         if length addr < n then Inl ErrInvalidAddrLen else Inr \<lparr>addr_data = take n addr\<rparr>)
      else if addr ! 0 = AddrTypeDomain then
        (let n = 1 + 1 + unat (addr ! 1) + 2 in
         if length addr < n then Inl ErrInvalidAddrLen else Inr \<lparr>addr_data = take n addr\<rparr>)
      else if addr ! 0 = AddrTypeIPv6 then
        (let n = 1 + IPv6len + 2 in
         if length addr < n then Inl ErrInvalidAddrLen else Inr \<lparr>addr_data = take n addr\<rparr>)
      else Inl ErrInvalidAddrType)"

section \<open>Network addresses\<close>

text \<open>
  The implementations of \<open>net.Addr\<close> the code tells apart. \<open>OtherAddr\<close> stands for any
  other type, by its name.
\<close>

datatype net_addr = TCPAddr bytes int | UDPAddr bytes int | SocksAddr Addr | OtherAddr string

definition fixed_ip_port :: "bytes \<Rightarrow> nat \<Rightarrow> (bytes \<times> int) outcome" where
  "fixed_ip_port d n =
     and_then (slice d 1 (1 + n)) (\<lambda>host.
     and_then (port_at d (1 + n) (1 + n + 1)) (\<lambda>port. Returns (host, int port)))"

text \<open>
  \<open>ResolveTCPAddr\<close> and \<open>ResolveUDPAddr\<close> are the same up to the type of the result; the
  first argument stands for \<open>net.ResolveTCPAddr("tcp", _)\<close> or its UDP twin.
\<close>

definition resolve_with ::
  "(string \<Rightarrow> go_error + bytes \<times> int) \<Rightarrow> Addr \<Rightarrow> (go_error + bytes \<times> int) outcome" where
  "resolve_with dns addr =
     (let d = addr_data addr in
      and_then (index d 0) (\<lambda>t.
        if t = AddrTypeIPv4 then and_then (fixed_ip_port d IPv4len) (\<lambda>x. Returns (Inr x))
        else if t = AddrTypeDomain then and_then (Addr_String addr) (\<lambda>s. Returns (dns s))
        else if t = AddrTypeIPv6 then and_then (fixed_ip_port d IPv6len) (\<lambda>x. Returns (Inr x))
        else Returns (Inl (Msg (''address type ('' @ itoa (unat t) @ '') error'')))))"

definition ResolveTCPAddr ::
  "(string \<Rightarrow> go_error + bytes \<times> int) \<Rightarrow> Addr \<Rightarrow> (go_error + net_addr) outcome" where
  "ResolveTCPAddr dns addr =
     and_then (resolve_with dns addr) (\<lambda>x. Returns (map_sum id (\<lambda>(ip, p). TCPAddr ip p) x))"

definition ResolveUDPAddr ::
  "(string \<Rightarrow> go_error + bytes \<times> int) \<Rightarrow> Addr \<Rightarrow> (go_error + net_addr) outcome" where
  "ResolveUDPAddr dns addr =
     and_then (resolve_with dns addr) (\<lambda>x. Returns (map_sum id (\<lambda>(ip, p). UDPAddr ip p) x))"

definition set_byte :: "bytes \<Rightarrow> nat \<Rightarrow> byte \<Rightarrow> bytes outcome" where
  "set_byte b i x = (if i < length b then Returns (b[i := x]) else Panics IndexOutOfRange)"

text \<open>
  One address written into the front of \<open>b\<close>: the type, the bytes of the host (none for an
  IP of a wrong length, so that what was in the buffer stays) and the two bytes of the port.
\<close>

definition put_addr :: "bytes \<Rightarrow> byte \<Rightarrow> bytes \<Rightarrow> nat \<Rightarrow> int \<Rightarrow> Addr outcome" where
  "put_addr b t ip n port =
     and_then (set_byte b 0 t) (\<lambda>b.
     and_then (set_byte (copy_at b 1 ip) (1 + n) (byte_hi port)) (\<lambda>b.
     and_then (set_byte b (1 + n + 1) (byte_lo port)) (\<lambda>b.
     and_then (slice b 0 (1 + n + 2)) (\<lambda>d. Returns \<lparr>addr_data = d\<rparr>))))"

definition put_ip_port :: "bytes \<Rightarrow> bytes \<Rightarrow> int \<Rightarrow> Addr outcome" where
  "put_ip_port b ip port =
     (case To4 ip of
        Some ipv4 \<Rightarrow> put_addr b AddrTypeIPv4 ipv4 IPv4len port
      | None \<Rightarrow> put_addr b AddrTypeIPv6 (case To16 ip of Some ipv6 \<Rightarrow> ipv6 | None \<Rightarrow> []) IPv6len port)"

definition ResolveAddrBuffer :: "net_addr \<Rightarrow> bytes \<Rightarrow> (go_error + Addr) outcome" where
  "ResolveAddrBuffer addr b =
     (case addr of
        TCPAddr ip port \<Rightarrow> and_then (put_ip_port b ip port) (\<lambda>a. Returns (Inr a))
      | UDPAddr ip port \<Rightarrow> and_then (put_ip_port b ip port) (\<lambda>a. Returns (Inr a))
      | SocksAddr a \<Rightarrow>
          and_then (slice (copy_at b 0 (addr_data a)) 0 (length (addr_data a)))
            (\<lambda>d. Returns (Inr \<lparr>addr_data = d\<rparr>))
      | OtherAddr _ \<Rightarrow> Returns (Inl ErrInvalidAddrType))"

definition ResolveAddr :: "net_addr \<Rightarrow> (go_error + Addr) outcome" where
  "ResolveAddr addr =
     (case addr of
        SocksAddr a \<Rightarrow> Returns (Inr a)
      | _ \<Rightarrow> ResolveAddrBuffer addr (replicate MaxAddrLen 0))"

section \<open>Reading an address from a connection\<close>

text \<open>The length of an encoded address, from its first two bytes.\<close>

definition addr_size :: "byte \<Rightarrow> byte \<Rightarrow> nat option" where
  "addr_size t l =
     (if t = AddrTypeIPv4 then Some 7
      else if t = AddrTypeDomain then Some (4 + unat l)
      else if t = AddrTypeIPv6 then Some 19
      else None)"

fun wf_addr :: "bytes \<Rightarrow> bool" where
  "wf_addr (t # l # xs) \<longleftrightarrow> addr_size t l = Some (length xs + 2)"
| "wf_addr _ \<longleftrightarrow> False"

lemma addr_size_bounds: "addr_size t l = Some n \<Longrightarrow> 4 \<le> n \<and> n \<le> MaxAddrLen"
  by (auto simp: addr_size_def MaxAddrLen_def split: if_splits)

lemma ReadAddrRest_enough:
  assumes "2 \<le> n" "n \<le> length b" "n - 2 \<le> length (content r)"
  obtains b' r' where
    "ReadAddrRest r b n = Returns (Inr \<lparr>addr_data = take 2 b @ take (n - 2) (content r)\<rparr>, b', r')"
    "content r' = drop (n - 2) (content r)" "is_err r' = is_err r" "length b' = length b"
    "take n b' = take 2 b @ take (n - 2) (content r)" "drop n b' = drop n b"
proof -
  let ?xs = "take (n - 2) (content r)"
  let ?b = "copy_at b 2 ?xs"
  obtain r' where r': "ReadFullInto r b 2 n = Returns (None, ?b, r')"
    "content r' = drop (n - 2) (content r)" "is_err r' = is_err r"
    using ReadFullInto_enough [OF assms] .
  have len: "length ?xs = n - 2" using assms(3) by simp
  have front: "take n ?b = take 2 b @ ?xs"
  proof -
    have sum: "2 + length ?xs = n" using len assms(1) by simp
    show ?thesis using take_copy_at_end [of 2 ?xs b] assms(2) unfolding sum by simp
  qed
  have "ReadAddrRest r b n = Returns (Inr \<lparr>addr_data = take 2 b @ ?xs\<rparr>, ?b, r')"
    using r'(1) front assms by (simp add: ReadAddrRest_def slice_simps)
  moreover have "drop n ?b = drop n b" "length ?b = length b"
    using assms len by (simp_all add: drop_copy_at)
  ultimately show thesis using that r'(2,3) front by blast
qed

lemma ReadAddrRest_short:
  assumes "2 \<le> n" "n \<le> length b" "length (content r) < n - 2"
  obtains b' r' where "ReadAddrRest r b n = Returns (Inl (read_full_error r), b', r')"
    "content r' = []" "is_err r' = is_err r" "length b' = length b"
proof -
  obtain r' where "ReadFullInto r b 2 n =
      Returns (Some (read_full_error r), copy_at b 2 (content r), r')"
    "content r' = []" "is_err r' = is_err r"
    using ReadFullInto_short [OF assms] .
  with assms that show thesis by (simp add: ReadAddrRest_def)
qed

lemma ReadAddrBuffer_head:
  assumes "2 \<le> length b" "content r = t # l # xs"
  obtains b1 r1 where "length b1 = length b" "take 2 b1 = [t, l]" "content r1 = xs"
    "is_err r1 = is_err r" "drop 2 b1 = drop 2 b"
    "ReadAddrBuffer r b =
       (case addr_size t l of None \<Rightarrow> Returns (Inl ErrInvalidAddrType, b1, r1)
        | Some n \<Rightarrow> ReadAddrRest r1 b1 n)"
proof -
  let ?b = "copy_at b 0 [t, l]"
  have enough: "(2 :: nat) - 0 \<le> length (content r)" using assms(2) by simp
  obtain r1 where r1: "ReadFullInto r b 0 2 = Returns (None, ?b, r1)"
    "content r1 = xs" "is_err r1 = is_err r"
    using ReadFullInto_enough [OF _ assms(1) enough] assms(2) by auto
  have b: "take 2 ?b = [t, l]" "?b ! 0 = t" "?b ! 1 = l" "?b ! Suc 0 = l" "length ?b = length b"
    "drop 2 ?b = drop 2 b"
    using assms(1) take_copy_at_end [of 0 "[t, l]" b]
    by (auto simp: copy_at_def nth_append numeral_2_eq_2)
  have "ReadAddrBuffer r b =
       (case addr_size t l of None \<Rightarrow> Returns (Inl ErrInvalidAddrType, ?b, r1)
        | Some n \<Rightarrow> ReadAddrRest r1 ?b n)"
    using r1(1) b
    by (auto simp: ReadAddrBuffer_def addr_size_def addr_types eval_nat_numeral)
  with r1 b that show thesis by blast
qed

lemma ReadAddrBuffer_enough:
  assumes "MaxAddrLen \<le> length b" "content r = t # l # xs" "addr_size t l = Some n"
    "n \<le> length (content r)"
  obtains b' r' where
    "ReadAddrBuffer r b = Returns (Inr \<lparr>addr_data = take n (content r)\<rparr>, b', r')"
    "content r' = drop n (content r)" "is_err r' = is_err r" "length b' = length b"
    "take n b' = take n (content r)" "drop n b' = drop n b"
proof -
  have n: "4 \<le> n" "n \<le> length b" using addr_size_bounds [OF assms(3)] assms(1) by auto
  have two: "2 \<le> length b" using n by simp
  obtain b1 r1 where h: "length b1 = length b" "take 2 b1 = [t, l]" "content r1 = xs"
    "is_err r1 = is_err r" "drop 2 b1 = drop 2 b" "ReadAddrBuffer r b = ReadAddrRest r1 b1 n"
    using ReadAddrBuffer_head [OF two assms(2)] assms(3) by (metis option.simps(5))
  have prem: "2 \<le> n" "n \<le> length b1" "n - 2 \<le> length (content r1)"
    using n h assms by auto
  have tk: "[t, l] @ take (n - 2) xs = take n (content r)"
    "drop (n - 2) xs = drop n (content r)"
    using n assms(2) by (auto simp: take_Cons' drop_Cons' numeral_2_eq_2)
  have dr: "drop n b1 = drop n b"
  proof -
    have sum: "n - 2 + 2 = n" using n by simp
    show ?thesis using arg_cong [OF h(5), of "drop (n - 2)"] unfolding drop_drop sum .
  qed
  show thesis
    using ReadAddrRest_enough [OF prem] h tk dr that by metis
qed

lemma ReadAddrBuffer_short:
  assumes "MaxAddrLen \<le> length b" "content r = t # l # xs" "addr_size t l = Some n"
    "length (content r) < n"
  shows "\<exists>e b' r'. ReadAddrBuffer r b = Returns (Inl e, b', r') \<and> content r' = []
    \<and> length b' = length b"
proof -
  have n: "4 \<le> n" "n \<le> length b" using addr_size_bounds [OF assms(3)] assms(1) by auto
  have two: "2 \<le> length b" using n by simp
  obtain b1 r1 where h: "length b1 = length b" "content r1 = xs"
    "ReadAddrBuffer r b = ReadAddrRest r1 b1 n"
    using ReadAddrBuffer_head [OF two assms(2)] assms(3) by (metis option.simps(5))
  have prem: "2 \<le> n" "n \<le> length b1" "length (content r1) < n - 2"
    using n h assms by auto
  show ?thesis using ReadAddrRest_short [OF prem] h by metis
qed

lemma ReadAddrBuffer_bad_type:
  assumes "2 \<le> length b" "content r = t # l # xs" "addr_size t l = None"
  shows "\<exists>b' r'. ReadAddrBuffer r b = Returns (Inl ErrInvalidAddrType, b', r') \<and> content r' = xs
    \<and> length b' = length b"
  using ReadAddrBuffer_head [OF assms(1,2)] assms(3) by (metis option.simps(4))

lemma ReadAddrBuffer_no_head:
  assumes "2 \<le> length b" "length (content r) < 2"
  shows "\<exists>b' r'. ReadAddrBuffer r b = Returns (Inl (read_full_error r), b', r') \<and> content r' = []
    \<and> length b' = length b"
proof -
  have short: "length (content r) < 2 - 0" using assms(2) by simp
  show ?thesis
    using ReadFullInto_short [OF _ assms(1) short] assms
    by (fastforce simp: ReadAddrBuffer_def)
qed

text \<open>
  The four ways a read can end, for a buffer of the size every caller passes: it consumes
  exactly one well-formed address, or reports an error.
\<close>

lemma ReadAddrBuffer_cases:
  assumes "MaxAddrLen \<le> length b"
  obtains (ok) a b' r' where "ReadAddrBuffer r b = Returns (Inr a, b', r')"
      "wf_addr (addr_data a)" "content r = addr_data a @ content r'" "is_err r' = is_err r"
      "length b' = length b"
  | (error) e b' r' where "ReadAddrBuffer r b = Returns (Inl e, b', r')" "length b' = length b"
proof (cases "length (content r) < 2")
  case True
  have "2 \<le> length b" using assms by (simp add: MaxAddrLen_def)
  from ReadAddrBuffer_no_head [OF this True] error show thesis by blast
next
  case False
  then obtain t l xs where c: "content r = t # l # xs"
    by (cases "content r"; cases "tl (content r)") auto
  have two: "2 \<le> length b" using assms by (simp add: MaxAddrLen_def)
  show thesis
  proof (cases "addr_size t l")
    case None
    from ReadAddrBuffer_bad_type [OF two c None] error show thesis by blast
  next
    case (Some n)
    show thesis
    proof (cases "n \<le> length (content r)")
      case True
      obtain b' r' where r: "ReadAddrBuffer r b = Returns (Inr \<lparr>addr_data = take n (content r)\<rparr>, b', r')"
        "content r' = drop n (content r)" "is_err r' = is_err r" "length b' = length b"
        using ReadAddrBuffer_enough [OF assms c Some True] by metis
      have "take n (content r) = t # l # take (n - 2) xs"
        using addr_size_bounds [OF Some] c by (auto simp: take_Cons' numeral_2_eq_2)
      then have "wf_addr (take n (content r))"
        using Some addr_size_bounds [OF Some] True c by auto
      then show thesis using ok [OF r(1)] r(2,3,4) by simp
    next
      case False
      then have "length (content r) < n" by simp
      from ReadAddrBuffer_short [OF assms c Some this] error show thesis by blast
    qed
  qed
qed

section \<open>Hosts, ports and their encoding\<close>

datatype host = HostIPv4 bytes | HostDomain bytes | HostIPv6 bytes

primrec wf_host :: "host \<Rightarrow> bool" where
  "wf_host (HostIPv4 ip) \<longleftrightarrow> length ip = IPv4len"
| "wf_host (HostDomain d) \<longleftrightarrow> length d \<le> 255"
| "wf_host (HostIPv6 ip) \<longleftrightarrow> length ip = IPv6len"

primrec encode_host :: "host \<Rightarrow> bytes" where
  "encode_host (HostIPv4 ip) = AddrTypeIPv4 # ip"
| "encode_host (HostDomain d) = AddrTypeDomain # word_of_nat (length d) # d"
| "encode_host (HostIPv6 ip) = AddrTypeIPv6 # ip"

definition encode_addr :: "host \<Rightarrow> int \<Rightarrow> bytes" where
  "encode_addr h p = encode_host h @ [byte_hi p, byte_lo p]"

lemma unat_length_byte: "n \<le> 255 \<Longrightarrow> unat (word_of_nat n :: byte) = n"
  by (simp add: unat_of_nat)

lemma wf_encode_addr [simp]: "wf_host h \<Longrightarrow> wf_addr (encode_addr h p)"
proof (cases h)
  case (HostDomain d)
  assume "wf_host h"
  with HostDomain show ?thesis
    by (simp add: encode_addr_def addr_size_def addr_types unat_length_byte)
next
  case (HostIPv4 ip)
  assume "wf_host h"
  with HostIPv4 show ?thesis
    by (cases ip) (auto simp: encode_addr_def addr_size_def addr_types)
next
  case (HostIPv6 ip)
  assume "wf_host h"
  with HostIPv6 show ?thesis
    by (cases ip) (auto simp: encode_addr_def addr_size_def addr_types)
qed

lemma encode_addr_length: "wf_host h \<Longrightarrow> length (encode_addr h p) \<le> MaxAddrLen"
  by (cases h) (auto simp: encode_addr_def MaxAddrLen_def)

primrec host_text :: "host \<Rightarrow> string" where
  "host_text (HostIPv4 ip) = IP_String ip"
| "host_text (HostDomain d) = string_of_bytes d"
| "host_text (HostIPv6 ip) = IP_String ip"

lemma be16_port: "0 \<le> p \<Longrightarrow> p < 65536 \<Longrightarrow> be16 (byte_hi p) (byte_lo p) = nat p"
  using be16_byte_hi_lo [of p] by simp

lemma prefix_addr_size:
  assumes "content r = a @ rest" "wf_addr a"
  obtains t l xs n where "content r = t # l # xs" "addr_size t l = Some n"
    "n \<le> length (content r)" "take n (content r) = a" "drop n (content r) = rest"
  using assms by (cases a rule: wf_addr.cases) auto

lemma ReadAddrBuffer_prefix:
  assumes "MaxAddrLen \<le> length b" "content r = a @ rest" "wf_addr a"
  obtains b' r' where "ReadAddrBuffer r b = Returns (Inr \<lparr>addr_data = a\<rparr>, b', r')"
    "content r' = rest" "is_err r' = is_err r" "length b' = length b"
    "take (length a) b' = a" "drop (length a) b' = drop (length a) b"
proof -
  obtain t l xs n where c: "content r = t # l # xs" "addr_size t l = Some n"
    "n \<le> length (content r)" "take n (content r) = a" "drop n (content r) = rest"
    using prefix_addr_size [OF assms(2,3)] .
  have len: "length a = n" using c(3,4) by auto
  show thesis
    using ReadAddrBuffer_enough [OF assms(1) c(1-3)] c(4,5) len that by metis
qed

lemma wf_addr_prefix_unique:
  assumes "a @ x = b @ y" "wf_addr a" "wf_addr b"
  shows "a = b"
proof -
  have "length a = length b"
    using assms by (cases a rule: wf_addr.cases; cases b rule: wf_addr.cases) auto
  with assms(1) show ?thesis by simp
qed

lemma port_of_bytes: "\<exists>p. 0 \<le> p \<and> p < 65536 \<and> byte_hi p = hi \<and> byte_lo p = lo"
  using byte_hi_be16 byte_lo_be16 be16_less [of hi lo]
  by (intro exI [of _ "int (be16 hi lo)"]) simp

lemma last_two: "2 \<le> length xs \<Longrightarrow> \<exists>ys x y. xs = ys @ [x, y]"
proof (cases xs rule: rev_cases)
  case (snoc ys y)
  assume "2 \<le> length xs"
  with snoc show ?thesis by (cases ys rule: rev_cases) auto
qed simp

text \<open>Every well-formed address is an encoding.\<close>

lemma wf_addr_decode:
  assumes "wf_addr a"
  obtains h p where "wf_host h" "0 \<le> p" "p < 65536" "a = encode_addr h p"
proof -
  from assms obtain t l xs where a: "a = t # l # xs" "addr_size t l = Some (length xs + 2)"
    by (cases a rule: wf_addr.cases) auto
  then have "2 \<le> length xs" using addr_size_bounds [OF a(2)] by simp
  then obtain ys hi lo where xs: "xs = ys @ [hi, lo]" using last_two by blast
  obtain p where p: "0 \<le> p" "p < 65536" "byte_hi p = hi" "byte_lo p = lo"
    using port_of_bytes by blast
  from a(2) consider "t = AddrTypeIPv4" "length ys = 3" | "t = AddrTypeDomain" "length ys = unat l"
    | "t = AddrTypeIPv6" "length ys = 15"
    by (auto simp: addr_size_def xs split: if_splits)
  then show thesis
  proof cases
    case 1
    then show ?thesis using that [of "HostIPv4 (l # ys)" p] p a xs by (simp add: encode_addr_def)
  next
    case 2
    then show ?thesis using that [of "HostDomain ys" p] p a xs by (simp add: encode_addr_def)
  next
    case 3
    then show ?thesis using that [of "HostIPv6 (l # ys)" p] p a xs by (simp add: encode_addr_def)
  qed
qed

section \<open>Properties of the codec\<close>

text \<open>
  An encoded address, followed by anything and split into chunks in any way, is read
  back as itself, and exactly its bytes are consumed: the rest of the connection is left
  for the next read.
\<close>

theorem read_addr_roundtrip:
  assumes "wf_host h" "content r = encode_addr h p @ rest"
  shows "\<exists>b' r'. ReadAddr r = Returns (Inr \<lparr>addr_data = encode_addr h p\<rparr>, b', r')
    \<and> content r' = rest \<and> is_err r' = is_err r"
proof -
  have "MaxAddrLen \<le> length (replicate MaxAddrLen (0 :: byte))" by simp
  from ReadAddrBuffer_prefix [OF this assms(2) wf_encode_addr [OF assms(1)]]
  show ?thesis unfolding ReadAddr_def by blast
qed

theorem read_addr_roundtrip_witness:
  "\<exists>b' r'. ReadAddr \<lparr>is_chunks = [[3, 2, 104], [], [105, 0, 80, 7]], is_last = [8], is_err = EOF\<rparr>
     = Returns (Inr \<lparr>addr_data = encode_addr (HostDomain [104, 105]) 80\<rparr>, b', r')
    \<and> content r' = [7, 8] \<and> is_err r' = EOF"
  using read_addr_roundtrip [of "HostDomain [104, 105]"
      "\<lparr>is_chunks = [[3, 2, 104], [], [105, 0, 80, 7]], is_last = [8], is_err = EOF\<rparr>" 80 "[7, 8]"]
  by (simp add: content_def encode_addr_def AddrTypeDomain_def byte_hi_def byte_lo_def)

text \<open>
  C20: with a buffer of at least \<open>MaxAddrLen\<close> bytes the read never panics, and it succeeds
  exactly when the connection starts with a well-formed address; what it then returns is
  that address, and the connection continues right behind it.
\<close>

theorem read_addr_complete:
  assumes "MaxAddrLen \<le> length b"
  shows "case ReadAddrBuffer r b of
      Returns (Inr a, _, r') \<Rightarrow> wf_addr (addr_data a) \<and> content r = addr_data a @ content r'
    | Returns (Inl _, _, _) \<Rightarrow> \<not> (\<exists>a rest. wf_addr a \<and> content r = a @ rest)
    | Panics _ \<Rightarrow> False"
  using assms
proof (cases rule: ReadAddrBuffer_cases [of b r])
  case (error e b' r')
  have "\<not> (wf_addr a \<and> content r = a @ rest)" for a rest
    using error ReadAddrBuffer_prefix [OF assms, of r a rest] by fastforce
  with error show ?thesis by simp
qed simp_all

theorem read_addr_complete_witness:
  "MaxAddrLen \<le> length (replicate 262 (0 :: byte)) \<and>
    (case ReadAddrBuffer \<lparr>is_chunks = [[3, 2, 104]], is_last = [], is_err = EOF\<rparr> (replicate 262 0) of
      Returns (Inr a, _, r') \<Rightarrow>
        wf_addr (addr_data a) \<and>
        content \<lparr>is_chunks = [[3, 2, 104]], is_last = [], is_err = EOF\<rparr> = addr_data a @ content r'
    | Returns (Inl _, _, _) \<Rightarrow>
        \<not> (\<exists>a rest. wf_addr a \<and>
             content \<lparr>is_chunks = [[3, 2, 104]], is_last = [], is_err = EOF\<rparr> = a @ rest)
    | Panics _ \<Rightarrow> False)"
proof -
  have h: "MaxAddrLen \<le> length (replicate 262 (0 :: byte))" by (simp add: MaxAddrLen_def)
  show ?thesis
    using h read_addr_complete [OF h, of "\<lparr>is_chunks = [[3, 2, 104]], is_last = [], is_err = EOF\<rparr>"]
    by blast
qed

text \<open>
  Parsing an address from a slice accepts what reading it from a connection accepts,
  except that a slice of fewer than five bytes is refused before its type is looked at:
  the four-byte encoding of the empty domain can be read but not parsed on its own.
\<close>

theorem parse_addr_agrees_with_read:
  "ParseAddr bs = Inr a \<longleftrightarrow>
    5 \<le> length bs \<and> wf_addr (addr_data a) \<and> (\<exists>rest. bs = addr_data a @ rest)"
proof (cases "5 \<le> length bs")
  case False
  then show ?thesis by (simp add: ParseAddr_def)
next
  case True
  then obtain t l xs where bs: "bs = t # l # xs" by (cases bs; cases "tl bs") auto
  have parse: "ParseAddr bs =
      (case addr_size t l of
         None \<Rightarrow> Inl ErrInvalidAddrType
       | Some n \<Rightarrow> if length bs < n then Inl ErrInvalidAddrLen else Inr \<lparr>addr_data = take n bs\<rparr>)"
    using True by (auto simp: ParseAddr_def addr_size_def addr_types bs Let_def eval_nat_numeral)
  have size: "wf_addr (addr_data a) \<and> bs = addr_data a @ rest \<longleftrightarrow>
      addr_size t l = Some (length (addr_data a)) \<and> length (addr_data a) \<le> length bs
      \<and> addr_data a = take (length (addr_data a)) bs \<and> rest = drop (length (addr_data a)) bs" for rest
    using addr_size_bounds [of t l]
    by (cases "addr_data a" rule: wf_addr.cases)
      (auto simp: bs take_Cons' split: if_splits, metis append_take_drop_id)
  have "wf_addr (addr_data a) \<and> (\<exists>rest. bs = addr_data a @ rest) \<longleftrightarrow>
      addr_size t l = Some (length (addr_data a)) \<and> length (addr_data a) \<le> length bs
      \<and> addr_data a = take (length (addr_data a)) bs"
    using size by blast
  moreover have "ParseAddr bs = Inr a \<longleftrightarrow>
      addr_size t l = Some (length (addr_data a)) \<and> length (addr_data a) \<le> length bs
      \<and> addr_data a = take (length (addr_data a)) bs"
    by (cases a) (auto simp: parse split: option.splits if_splits)
  ultimately show ?thesis using True by blast
qed

lemma Addr_String_short:
  assumes "wf_host h" "0 \<le> p" "p < 65536" "\<forall>d. h = HostDomain d \<longrightarrow> length d \<le> 252"
  shows "Addr_String \<lparr>addr_data = encode_addr h p\<rparr> =
    Returns (JoinHostPort (host_text h) (itoa (nat p)))"
proof (cases h)
  case (HostDomain d)
  let ?l = "word_of_nat (length d) :: byte"
  have l: "unat (2 + ?l) = 2 + length d" "unat (3 + ?l) = 3 + length d"
    using assms HostDomain by (simp_all add: unat_word_ariths unat_of_nat)
  show ?thesis
    using assms HostDomain be16_port [OF assms(2,3)]
    by (simp add: Addr_String_def encode_addr_def addr_types l slice_def port_at_def index_def
        nth_append)
qed (use assms be16_port [OF assms(2,3)] in
    \<open>auto simp: Addr_String_def encode_addr_def addr_types slice_def port_at_def index_def
        nth_append\<close>)

text \<open>
  The text of an address is its host and its port in decimal, for every IP address and
  every domain of at most 252 bytes.
\<close>

theorem addr_string_correct:
  assumes "wf_host h" "0 \<le> p" "p < 65536" "\<forall>d. h = HostDomain d \<longrightarrow> length d \<le> 252"
  shows "Addr_String \<lparr>addr_data = encode_addr h p\<rparr> =
    Returns (JoinHostPort (host_text h) (itoa (nat p)))"
  by (rule Addr_String_short [OF assms])

theorem addr_string_correct_witness:
  "Addr_String \<lparr>addr_data = encode_addr (HostDomain [104, 105]) 80\<rparr> =
    Returns (JoinHostPort (host_text (HostDomain [104, 105])) (itoa (nat 80)))"
  by (rule addr_string_correct) simp_all

lemma Addr_String_long:
  assumes "253 \<le> length d" "length d \<le> 255"
  shows "Addr_String \<lparr>addr_data = encode_addr (HostDomain d) p\<rparr> =
    (if length d = 253
     then Returns (JoinHostPort (string_of_bytes d) (itoa (be16 (byte_hi p) AddrTypeDomain)))
     else Panics SliceBounds)"
proof -
  let ?l = "word_of_nat (length d) :: byte"
  have l: "unat (2 + ?l) = (2 + length d) mod 256" "unat (2 + ?l + 1) = (3 + length d) mod 256"
    using assms by (simp_all add: unat_word_ariths unat_of_nat mod_simps)
  have "length d = 253 \<or> length d = 254 \<or> length d = 255" using assms by linarith
  then show ?thesis
    by (elim disjE)
      (simp_all add: Addr_String_def encode_addr_def addr_types l slice_def port_at_def index_def
        nth_append)
qed

text \<open>
  For longer domains the indices of \<open>Addr.String\<close> wrap around at 256. A domain of 254
  or 255 bytes, which every reader of addresses accepts, makes it panic; with 253 bytes the
  low byte of the port is read from the type byte, so that the port is wrong unless it
  happens to end in 3.
\<close>

theorem addr_string_long_domain:
  assumes "253 \<le> length d" "length d \<le> 255"
  shows "Addr_String \<lparr>addr_data = encode_addr (HostDomain d) p\<rparr> =
    (if length d = 253
     then Returns (JoinHostPort (string_of_bytes d) (itoa (be16 (byte_hi p) AddrTypeDomain)))
     else Panics SliceBounds)"
  by (rule Addr_String_long [OF assms])

theorem addr_string_long_domain_witness:
  "Addr_String \<lparr>addr_data = encode_addr (HostDomain (replicate 254 97)) 443\<rparr> = Panics SliceBounds"
  using addr_string_long_domain [of "replicate 254 97" 443] by simp

text \<open>Encoding a network address into a buffer that is long enough.\<close>

lemma put_addr_encode:
  assumes "length ip = n" "n + 3 \<le> length b"
  shows "put_addr b t ip n port =
    Returns \<lparr>addr_data = t # ip @ [byte_hi port, byte_lo port]\<rparr>"
proof -
  obtain x ys r0 r1 rs where b: "b = x # ys @ r0 # r1 # rs" "length ys = n"
  proof -
    obtain x zs where zs: "b = x # zs" using assms(2) by (cases b) auto
    then have "2 \<le> length (drop n zs)" using assms(2) by simp
    then obtain r0 r1 rs where "drop n zs = r0 # r1 # rs"
      by (cases "drop n zs"; cases "tl (drop n zs)") auto
    then have "b = x # take n zs @ r0 # r1 # rs" by (metis append_take_drop_id zs)
    moreover have "length (take n zs) = n" using zs assms(2) by simp
    ultimately show thesis by (rule that)
  qed
  then show ?thesis
    using assms(1)
    by (simp add: put_addr_def set_byte_def copy_at_def slice_def list_update_append)
qed

definition host_of_ip :: "bytes \<Rightarrow> host" where
  "host_of_ip ip = (case To4 ip of Some ip4 \<Rightarrow> HostIPv4 ip4 | None \<Rightarrow> HostIPv6 ip)"

definition canonical_ip :: "bytes \<Rightarrow> bytes" where
  "canonical_ip ip = (case To4 ip of Some ip4 \<Rightarrow> ip4 | None \<Rightarrow> ip)"

lemma To4_length: "To4 ip = Some x \<Longrightarrow> length x = IPv4len"
  by (auto simp: To4_def split: if_splits)

lemma To4_None: "length ip = IPv4len \<or> length ip = IPv6len \<Longrightarrow> To4 ip = None \<Longrightarrow> length ip = IPv6len"
  by (auto simp: To4_def split: if_splits)

lemma put_ip_port_encode:
  assumes "length ip = IPv4len \<or> length ip = IPv6len" "MaxAddrLen \<le> length b"
  shows "put_ip_port b ip port = Returns \<lparr>addr_data = encode_addr (host_of_ip ip) port\<rparr>"
proof (cases "To4 ip")
  case None
  then have "length ip = IPv6len" using assms(1) by (rule_tac To4_None) auto
  with None assms(2) put_addr_encode [of ip IPv6len b AddrTypeIPv6 port] show ?thesis
    by (simp add: put_ip_port_def host_of_ip_def encode_addr_def To16_def MaxAddrLen_def)
next
  case (Some x)
  with assms(2) To4_length [OF Some] put_addr_encode [of x IPv4len b AddrTypeIPv4 port]
  show ?thesis
    by (simp add: put_ip_port_def host_of_ip_def encode_addr_def MaxAddrLen_def)
qed

lemma wf_host_of_ip: "length ip = IPv4len \<or> length ip = IPv6len \<Longrightarrow> wf_host (host_of_ip ip)"
  using To4_length To4_None by (fastforce simp: host_of_ip_def split: option.splits)

lemma resolve_encoded_ip:
  assumes "length ip = IPv4len \<or> length ip = IPv6len"
  shows "resolve_with dns \<lparr>addr_data = encode_addr (host_of_ip ip) port\<rparr> =
    Returns (Inr (canonical_ip ip, port mod 65536))"
proof (cases "To4 ip")
  case None
  with To4_None [OF assms None] be16_byte_hi_lo [of port] show ?thesis
    by (simp add: resolve_with_def host_of_ip_def canonical_ip_def encode_addr_def addr_types
        fixed_ip_port_def slice_def port_at_def index_def nth_append)
next
  case (Some x)
  with To4_length [OF Some] be16_byte_hi_lo [of port] show ?thesis
    by (simp add: resolve_with_def host_of_ip_def canonical_ip_def encode_addr_def addr_types
        fixed_ip_port_def slice_def port_at_def index_def nth_append)
qed

text \<open>
  The address the code makes of a network address with an IPv4 or IPv6 host is
  well-formed and resolves to the same endpoint without name resolution: the same IP, with
  an IPv4-mapped IPv6 address in its four-byte form, and the port modulo 65536.
\<close>

theorem resolve_addr_roundtrip:
  assumes "length ip = IPv4len \<or> length ip = IPv6len"
  shows "\<exists>a. ResolveAddr (UDPAddr ip port) = Returns (Inr a) \<and> wf_addr (addr_data a) \<and>
    ResolveUDPAddr dns a = Returns (Inr (UDPAddr (canonical_ip ip) (port mod 65536)))"
  using put_ip_port_encode [OF assms, of "replicate MaxAddrLen 0" port]
    resolve_encoded_ip [OF assms, of dns port] wf_host_of_ip [OF assms]
  by (simp add: ResolveAddr_def ResolveAddrBuffer_def ResolveUDPAddr_def)

theorem resolve_addr_roundtrip_witness:
  "\<exists>a. ResolveAddr (UDPAddr [127, 0, 0, 1] 65616) = Returns (Inr a) \<and> wf_addr (addr_data a) \<and>
    ResolveUDPAddr (\<lambda>_. Inl EOF) a = Returns (Inr (UDPAddr [127, 0, 0, 1] 80))"
  using resolve_addr_roundtrip [of "[127, 0, 0, 1]" 65616 "\<lambda>_. Inl EOF"]
  by (simp add: canonical_ip_def To4_def)

end
