(* ===== verification/Trojan_Tcp.thy ===== *)
theory Trojan_Tcp
  imports Socks_Addr
begin

text \<open>
  The TCP tunnel of \<open>pkgs/trojan/trojan_tcp.go\<close> and the deadline helpers of
  \<open>pkgs/trojan/wakeable.go\<close>. A writer is a script too: the results its \<open>Write\<close> calls
  return, and the bytes it accepted. \<open>copyBuffer\<close> is the copy loop of either direction.
  \<open>HandleTCP\<close> runs one goroutine per direction; what each of them sees of the two
  connections is the input of the model, what it does to them (half-closes, deadlines, the
  receive from the result channel) is recorded in order, and the value is what
  \<open>HandleTCP\<close> returns.
\<close>

section \<open>Writers\<close>

record ostream =
  os_script :: "(int \<times> go_error option) list"
  os_data :: bytes

text \<open>When the script is used up every \<open>Write\<close> accepts all its bytes.\<close>

definition os_write :: "ostream \<Rightarrow> bytes \<Rightarrow> (int \<times> go_error option) \<times> ostream" where
  "os_write w bs =
     (case os_script w of
        [] \<Rightarrow> ((int (length bs), None), w\<lparr>os_data := os_data w @ bs\<rparr>)
      | (n, e) # sc \<Rightarrow>
          ((n, e), w\<lparr>os_script := sc, os_data := os_data w @ take (nat n) bs\<rparr>))"

section \<open>The copy loop\<close>

definition tcpBufSize :: nat where "tcpBufSize = 32 * 1024"

definition ErrInvalidWrite :: go_error where "ErrInvalidWrite = Msg ''invalid write result''"

text \<open>
  The part of the loop body after a \<open>Read\<close> that returned bytes: \<open>Inl\<close> leaves the loop
  with an error, \<open>Inr\<close> goes on. The first component is the count added to \<open>n\<close>.
\<close>

definition write_chunk :: "ostream \<Rightarrow> bytes \<Rightarrow> int \<times> go_error option \<times> ostream" where
  "write_chunk w bs =
     (let ((nw, ew), w') = os_write w bs;
          bad = (nw < 0 \<or> int (length bs) < nw);
          nw = (if bad then 0 else nw);
          ew = (if bad \<and> ew = None then Some ErrInvalidWrite else ew)
      in (nw,
          if ew \<noteq> None then ew
          else if int (length bs) \<noteq> nw then Some ErrShortWrite
          else None,
          w'))"

function copyBuffer ::
  "ostream \<Rightarrow> istream \<Rightarrow> int \<Rightarrow> int \<times> go_error option \<times> istream \<times> ostream" where
  "copyBuffer w r n =
     (case is_read r tcpBufSize of
        ((bs, er), r') \<Rightarrow>
          (let (nw, ew, w') = (if bs \<noteq> [] then write_chunk w bs else (0, None, w))
           in if ew \<noteq> None then (n + nw, ew, r', w')
              else (case er of
                      Some e \<Rightarrow> (n + nw, if \<not> errors_Is e EOF then Some e else None, r', w')
                    | None \<Rightarrow> copyBuffer w' r' (n + nw))))"
  by pat_completeness auto
termination
  by (relation "measure (\<lambda>(w, r, n). length (is_chunks r) + length (content r))")
    (auto dest!: is_read_decreases [OF sym] simp: tcpBufSize_def)

declare copyBuffer.simps [simp del]

section \<open>Deadlines\<close>

text \<open>\<open>isTimeoutError\<close> of \<open>wakeable.go\<close>.\<close>

definition isTimeoutError :: "go_error option \<Rightarrow> bool" where
  "isTimeoutError err =
     (case err of
        None \<Rightarrow> False
      | Some e \<Rightarrow> if errors_Is e ErrDeadlineExceeded then True else is_net_timeout e)"

datatype deadline = Now | AfterNanos int

definition wakeGrace :: int where "wakeGrace = 2 * second"
definition minute :: int where "minute = 60 * second"

datatype tcp_act =
    RcCloseWrite
  | RcReadDeadline deadline
  | RcWriteDeadline deadline
  | WCloseWrite
  | WReadDeadline deadline
  | RecvResult
  | RcClose

section \<open>HandleTCP\<close>

text \<open>
  What the environment decides in one run: whether the allocation is short-circuited by a
  test and whether it fails, the result of \<open>Dial\<close> (an error, or a connection), what the
  two directions read and how their writes end, which of the optional interfaces the two
  connections implement, and whether the client-side goroutine reports within the minute
  that the select statement waits. \<open>down_src\<close> is what the first copy reads from the
  remote, \<open>drains\<close> what each of the later ones reads.
\<close>

record tcp_env =
  alloc_byte_err :: "go_error option"
  dial :: "string \<Rightarrow> go_error option"
  alloc_a :: "go_error option"
  alloc_b :: "go_error option"
  up_src :: istream
  up_dst :: ostream
  down_src :: istream
  drains :: "istream list"
  down_dst :: ostream
  up_in_time :: bool
  rc_half_close :: bool
  w_half_close :: bool
  w_wakeable :: bool

record tcp_run =
  tcp_nr :: int
  tcp_nw :: int
  tcp_err :: "go_error option"
  up_acts :: "tcp_act list"
  main_acts :: "tcp_act list"
  to_remote :: bytes
  to_client :: bytes

definition opt_act :: "bool \<Rightarrow> tcp_act \<Rightarrow> tcp_act list" where
  "opt_act b a = (if b then [a] else [])"

definition allocShortCircuit :: "go_error option \<Rightarrow> go_error option" where
  "allocShortCircuit e = map_option (Wrap ''memory alloc error'') e"

text \<open>
  The goroutine that copies from the client to the remote: its result, its actions and the
  bytes the remote accepted. A timeout counts as a clean end. Both branches half-close the
  remote and expire its read deadline before the result is sent.
\<close>

definition tcp_uplink :: "tcp_env \<Rightarrow> (int \<times> go_error option) \<times> tcp_act list \<times> bytes" where
  "tcp_uplink env =
     (case copyBuffer (up_dst env) (up_src env) 0 of
        (nr, err, _, rc) \<Rightarrow>
          (let isClean = (err = None);
               isClean = (if \<not> isClean then (case err of None \<Rightarrow> False | Some e \<Rightarrow> is_net_timeout e)
                          else isClean);
               acts = opt_act (rc_half_close env) RcCloseWrite @ [RcReadDeadline Now]
           in (if isClean then (nr, None) else (nr, err), acts, os_data rc)))"

text \<open>
  The loop that drains the remote after the client has finished: it goes on while the remote
  delivers something and then times out. A remote that delivers nothing more is \<open>[]\<close>.
\<close>

fun tcp_drain :: "ostream \<Rightarrow> istream list \<Rightarrow> int \<Rightarrow> int \<times> tcp_act list \<times> ostream" where
  "tcp_drain w [] nw = (nw, [RcReadDeadline (AfterNanos minute)], w)"
| "tcp_drain w (rc # rcs) nw =
     (case copyBuffer w rc 0 of
        (n, err, _, w') \<Rightarrow>
          if n = 0 \<or> \<not> (case err of None \<Rightarrow> False | Some e \<Rightarrow> errors_Is e ErrDeadlineExceeded)
          then (nw + n, [RcReadDeadline (AfterNanos minute)], w')
          else (case tcp_drain w' rcs (nw + n) of
                  (m, acts, w'') \<Rightarrow> (m, RcReadDeadline (AfterNanos minute) # acts, w'')))"

definition wakeReader :: "tcp_env \<Rightarrow> tcp_act list" where
  "wakeReader env = opt_act (w_wakeable env) (WReadDeadline Now)"

definition tcp_downlink ::
  "tcp_env \<Rightarrow> int \<times> go_error option
    \<Rightarrow> (int \<times> int \<times> go_error option) \<times> tcp_act list \<times> ostream" where
  "tcp_downlink env r =
     (let (num, rerr) = r;
          (nw, err, _, w) = copyBuffer (down_dst env) (down_src env) 0
      in case err of
          None \<Rightarrow>
            ((num, nw, rerr),
             opt_act (w_half_close env) WCloseWrite
               @ opt_act (w_wakeable env) (WReadDeadline (AfterNanos wakeGrace)) @ [RecvResult], w)
        | Some e \<Rightarrow>
            if errors_Is e ErrDeadlineExceeded then
              if up_in_time env then
                (case rerr of
                   None \<Rightarrow>
                     (case tcp_drain w (drains env) nw of
                        (nw', acts, w') \<Rightarrow> ((num, nw', rerr), RecvResult # acts, w'))
                 | Some _ \<Rightarrow>
                     ((num, nw, rerr), RecvResult # opt_act (w_half_close env) WCloseWrite, w))
              else
                ((num, nw, rerr),
                 opt_act (w_half_close env) WCloseWrite @ wakeReader env @ [RecvResult], w)
            else
              ((if rerr = None \<and> isTimeoutError (Some e) then (num, nw, None)
                else (num, nw, Some e)),
               [RcWriteDeadline (AfterNanos wakeGrace)] @ opt_act (rc_half_close env) RcCloseWrite
                 @ wakeReader env @ [RecvResult], w))"

definition failed_run :: "go_error \<Rightarrow> tcp_act list \<Rightarrow> tcp_env \<Rightarrow> tcp_run" where
  "failed_run e acts env =
     \<lparr>tcp_nr = 0, tcp_nw = 0, tcp_err = Some e, up_acts = [], main_acts = acts,
      to_remote = os_data (up_dst env), to_client = os_data (down_dst env)\<rparr>"

definition HandleTCP :: "tcp_env \<Rightarrow> Addr \<Rightarrow> tcp_run outcome" where
  "HandleTCP env addr =
     (case allocShortCircuit (alloc_byte_err env) of
        Some e \<Rightarrow> Returns (failed_run e [] env)
      | None \<Rightarrow>
          and_then (Addr_String addr) (\<lambda>s.
            case dial env s of
              Some e \<Rightarrow> Returns (failed_run e [] env)
            | None \<Rightarrow>
                (case alloc_a env of
                   Some e \<Rightarrow> Returns (failed_run (Wrap ''memory alloc error'' e) [RcClose] env)
                 | None \<Rightarrow>
                     (case alloc_b env of
                        Some e \<Rightarrow> Returns (failed_run (Wrap ''memory alloc error'' e) [RcClose] env)
                      | None \<Rightarrow>
                          (let (res, ua, rc) = tcp_uplink env;
                               ((nr, nw, err), ma, w) = tcp_downlink env res
                           in Returns \<lparr>tcp_nr = nr, tcp_nw = nw, tcp_err = err, up_acts = ua,
                                main_acts = ma @ [RcClose], to_remote = rc,
                                to_client = os_data w\<rparr>)))))"

section \<open>Correctness of the copy loop\<close>

lemma write_chunk_accepts:
  "write_chunk w bs = (nw, ew, w') \<Longrightarrow>
    os_script w = [] \<Longrightarrow> nw = int (length bs) \<and> ew = None \<and> os_script w' = []
      \<and> os_data w' = os_data w @ bs"
  by (auto simp: write_chunk_def os_write_def Let_def)

lemma copyBuffer_spec:
  assumes "copyBuffer w r n = (m, e, r', w')" "os_script w = []"
  shows "m = n + int (length (content r)) \<and> os_data w' = os_data w @ content r \<and>
    os_script w' = [] \<and> e = (if errors_Is (is_err r) EOF then None else Some (is_err r))"
  using assms
proof (induction w r n arbitrary: m e r' w' rule: copyBuffer.induct)
  case (1 w r n)
  obtain bs er t where rd: "is_read r tcpBufSize = ((bs, er), t)" by (metis prod.exhaust)
  obtain nw ew v where wr: "(if bs \<noteq> [] then write_chunk w bs else (0, None, w)) = (nw, ew, v)"
    by (metis prod.exhaust)
  have v: "nw = int (length bs)" "ew = None" "os_script v = []" "os_data v = os_data w @ bs"
    using wr "1.prems"(2) write_chunk_accepts [of w bs] by (auto split: if_splits)
  note spec = is_read_spec [OF rd]
  show ?case
  proof (cases er)
    case None
    with "1.prems"(1) rd wr v have "copyBuffer v t (n + nw) = (m, e, r', w')"
      by (simp add: copyBuffer.simps [of w r n])
    from "1.IH" [OF rd [symmetric] refl wr [symmetric] refl refl _ None this v(3)]
    show ?thesis using v spec by auto
  next
    case (Some x)
    with "1.prems"(1) rd wr v have "m = n + nw" "w' = v" "e = (if errors_Is x EOF then None else Some x)"
      by (auto simp: copyBuffer.simps [of w r n])
    with v spec Some show ?thesis by auto
  qed
qed

lemma write_chunk_prefix:
  assumes "write_chunk w bs = (nw, ew, w')"
  obtains k where "k \<le> length bs" "os_data w' = os_data w @ take k bs" "0 \<le> nw" "nw \<le> int k"
    "ew = None \<longrightarrow> k = length bs \<and> nw = int k"
proof -
  obtain a b v where wr: "os_write w bs = ((a, b), v)" by (metis prod.exhaust)
  let ?k = "min (nat a) (length bs)"
  have data: "os_data v = os_data w @ take ?k bs"
    using wr by (auto simp: os_write_def min_def split: list.splits)
  show thesis
    by (rule that [of ?k]) (use assms wr data in \<open>auto simp: write_chunk_def Let_def split: if_splits\<close>)
qed

section \<open>Properties of the tunnel\<close>

text \<open>
  However a writer behaves, what the destination accepted is a prefix of what the source
  delivered, in order; the count returned never exceeds it, and a nil error means that
  everything the source had was accepted and counted.
\<close>

theorem copy_buffer_prefix:
  assumes "copyBuffer w r n = (m, e, r', w')"
  shows "\<exists>k \<le> length (content r). os_data w' = os_data w @ take k (content r) \<and>
    n \<le> m \<and> m \<le> n + int k \<and> (e = None \<longrightarrow> k = length (content r) \<and> m = n + int k)"
  using assms
proof (induction w r n arbitrary: m e r' w' rule: copyBuffer.induct)
  case (1 w r n)
  obtain bs er t where rd: "is_read r tcpBufSize = ((bs, er), t)" by (metis prod.exhaust)
  note spec = is_read_spec [OF rd]
  obtain nw ew v where wr: "(if bs \<noteq> [] then write_chunk w bs else (0, None, w)) = (nw, ew, v)"
    by (metis prod.exhaust)
  obtain j where j: "j \<le> length bs" "os_data v = os_data w @ take j bs" "0 \<le> nw" "nw \<le> int j"
    "ew = None \<longrightarrow> j = length bs \<and> nw = int j"
    using wr by (cases "bs = []") (auto elim: write_chunk_prefix)
  show ?case
  proof (cases "ew = None \<and> er = None")
    case False
    with "1.prems" rd wr have "m = n + nw" "w' = v" "e = None \<longrightarrow> ew = None \<and> er \<noteq> None"
      by (auto simp: copyBuffer.simps [of w r n] split: option.splits if_splits)
    then show ?thesis
      using j spec by (intro exI [of _ j]) auto
  next
    case True
    with "1.prems" rd wr have "copyBuffer v t (n + nw) = (m, e, r', w')"
      by (simp add: copyBuffer.simps [of w r n])
    then obtain k where k: "k \<le> length (content t)" "os_data w' = os_data v @ take k (content t)"
      "n + nw \<le> m" "m \<le> n + nw + int k" "e = None \<longrightarrow> k = length (content t) \<and> m = n + nw + int k"
      using "1.IH" [OF rd [symmetric] refl wr [symmetric] refl] True by blast
    then show ?thesis
      using j spec True by (intro exI [of _ "j + k"]) auto
  qed
qed

theorem copy_buffer_prefix_witness:
  "\<exists>m e r' w'. copyBuffer \<lparr>os_script = [(1, None)], os_data = []\<rparr>
      \<lparr>is_chunks = [[7, 8]], is_last = [], is_err = EOF\<rparr> 0 = (m, e, r', w') \<and>
    (\<exists>k \<le> length [7, 8 :: byte]. os_data w' = take k [7, 8] \<and> 0 \<le> m \<and> m \<le> int k \<and> e \<noteq> None)"
proof -
  let ?w = "\<lparr>os_script = [(1, None)], os_data = []\<rparr>"
  let ?r = "\<lparr>is_chunks = [[7, 8]], is_last = [], is_err = EOF\<rparr>"
  have run: "copyBuffer ?w ?r 0 = (1, Some ErrShortWrite, \<lparr>is_chunks = [], is_last = [], is_err = EOF\<rparr>,
      \<lparr>os_script = [], os_data = [7]\<rparr>)"
    by (simp add: copyBuffer.simps is_read_def write_chunk_def os_write_def tcpBufSize_def)
  from copy_buffer_prefix [OF run] obtain k where "k \<le> length [7, 8 :: byte]"
    "[7] = take k [7, 8 :: byte]" "1 \<le> int k"
    by (auto simp: content_def)
  then show ?thesis unfolding run by fastforce
qed

text \<open>A run that gets as far as the two copies.\<close>

definition tcp_connected :: "tcp_env \<Rightarrow> string \<Rightarrow> bool" where
  "tcp_connected env s \<longleftrightarrow>
     alloc_byte_err env = None \<and> dial env s = None \<and> alloc_a env = None \<and> alloc_b env = None"

lemma HandleTCP_connected:
  assumes "Addr_String addr = Returns s" "tcp_connected env s"
    "tcp_uplink env = (res, ua, rc)" "tcp_downlink env res = ((nr, nw, err), ma, w)"
  shows "HandleTCP env addr = Returns \<lparr>tcp_nr = nr, tcp_nw = nw, tcp_err = err, up_acts = ua,
    main_acts = ma @ [RcClose], to_remote = rc, to_client = os_data w\<rparr>"
  using assms by (simp add: HandleTCP_def tcp_connected_def allocShortCircuit_def)

definition good_writers :: "tcp_env \<Rightarrow> bool" where
  "good_writers env \<longleftrightarrow> os_script (up_dst env) = [] \<and> os_script (down_dst env) = []
     \<and> os_data (up_dst env) = [] \<and> os_data (down_dst env) = []"

lemma tcp_uplink_good:
  assumes "good_writers env" "tcp_uplink env = ((nr, e), ua, rc)"
  shows "nr = int (length (content (up_src env)))" "rc = content (up_src env)"
    "e = (if errors_Is (is_err (up_src env)) EOF \<or> is_net_timeout (is_err (up_src env)) then None
          else Some (is_err (up_src env)))"
proof -
  obtain m x r w where c: "copyBuffer (up_dst env) (up_src env) 0 = (m, x, r, w)"
    by (metis prod.exhaust)
  have "os_script (up_dst env) = []" using assms(1) by (simp add: good_writers_def)
  from copyBuffer_spec [OF c this] c assms
  show "nr = int (length (content (up_src env)))" "rc = content (up_src env)"
    "e = (if errors_Is (is_err (up_src env)) EOF \<or> is_net_timeout (is_err (up_src env)) then None
          else Some (is_err (up_src env)))"
    by (auto simp: tcp_uplink_def good_writers_def split: if_splits)
qed

lemma tcp_drain_counts:
  "tcp_drain w rcs nw = (m, acts, w') \<Longrightarrow> os_script w = [] \<Longrightarrow>
    os_script w' = [] \<and> m - nw = int (length (os_data w')) - int (length (os_data w))"
proof (induction w rcs nw arbitrary: m acts w' rule: tcp_drain.induct)
  case (2 w rc rcs nw)
  obtain n e r v where c: "copyBuffer w rc 0 = (n, e, r, v)" by (metis prod.exhaust)
  obtain m' acts' v' where d: "tcp_drain v rcs (nw + n) = (m', acts', v')" by (metis prod.exhaust)
  from copyBuffer_spec [OF c "2.prems"(2)]
  have v: "n = int (length (content rc))" "os_data v = os_data w @ content rc" "os_script v = []"
    by auto
  from "2.IH" [OF c [symmetric] refl refl _ d v(3)] "2.prems"(1) c d v
  show ?case by (auto split: if_splits)
qed simp

lemma HandleTCP_accounting:
  assumes "Addr_String addr = Returns s" "tcp_connected env s" "good_writers env"
  shows "\<exists>run. HandleTCP env addr = Returns run \<and> to_remote run = content (up_src env) \<and>
    tcp_nr run = int (length (to_remote run)) \<and> tcp_nw run = int (length (to_client run))"
proof -
  obtain nr e ua rc where up: "tcp_uplink env = ((nr, e), ua, rc)" by (metis prod.exhaust)
  obtain a nw err ma w where down: "tcp_downlink env (nr, e) = ((a, nw, err), ma, w)"
    by (metis prod.exhaust)
  obtain m x r v where c: "copyBuffer (down_dst env) (down_src env) 0 = (m, x, r, v)"
    by (metis prod.exhaust)
  have script: "os_script (down_dst env) = []" "os_data (down_dst env) = []"
    using assms(3) by (simp_all add: good_writers_def)
  from copyBuffer_spec [OF c script(1)] script(2)
  have v: "m = int (length (os_data v))" "os_script v = []" by auto
  have "a = nr \<and> nw = int (length (os_data w))"
    using down c v
    by (auto simp: tcp_downlink_def split: option.splits if_splits prod.splits
        dest!: tcp_drain_counts)
  then show ?thesis
    using HandleTCP_connected [OF assms(1,2) up down] tcp_uplink_good [OF assms(3) up] by simp
qed


definition demo_env :: tcp_env where
  "demo_env =
     \<lparr>alloc_byte_err = None, dial = (\<lambda>_. None), alloc_a = None, alloc_b = None,
      up_src = \<lparr>is_chunks = [[1, 2], [3]], is_last = [], is_err = EOF\<rparr>,
      up_dst = \<lparr>os_script = [], os_data = []\<rparr>,
      down_src = \<lparr>is_chunks = [[4]], is_last = [5], is_err = EOF\<rparr>,
      drains = [], down_dst = \<lparr>os_script = [], os_data = []\<rparr>,
      up_in_time = True, rc_half_close = True, w_half_close = False, w_wakeable = True\<rparr>"

lemma demo_addr:
  "Addr_String \<lparr>addr_data = encode_addr (HostDomain [104]) 80\<rparr> =
    Returns (JoinHostPort (host_text (HostDomain [104])) (itoa 80))"
  by (simp add: Addr_String_def encode_addr_def addr_types slice_def port_at_def index_def be16_port)

lemma demo_connected: "tcp_connected demo_env s" and demo_good: "good_writers demo_env"
  by (simp_all add: tcp_connected_def demo_env_def good_writers_def)


text \<open>
  The tunnel is transparent when both sides end cleanly: each side receives the bytes of
  the other, complete and in order, and there is no error. A client that merely times out is
  a clean end as well.
\<close>

lemma HandleTCP_transparent:
  assumes "Addr_String addr = Returns s" "tcp_connected env s" "good_writers env"
    "is_err (up_src env) = EOF \<or> is_net_timeout (is_err (up_src env))"
    "is_err (down_src env) = EOF"
  shows "\<exists>run. HandleTCP env addr = Returns run \<and> tcp_err run = None \<and>
    to_remote run = content (up_src env) \<and> to_client run = content (down_src env) \<and>
    RcClose \<in> set (main_acts run)"
proof -
  obtain nr e ua rc where up: "tcp_uplink env = ((nr, e), ua, rc)" by (metis prod.exhaust)
  obtain a nw err ma w where down: "tcp_downlink env (nr, e) = ((a, nw, err), ma, w)"
    by (metis prod.exhaust)
  obtain m x r v where c: "copyBuffer (down_dst env) (down_src env) 0 = (m, x, r, v)"
    by (metis prod.exhaust)
  have script: "os_script (down_dst env) = []" "os_data (down_dst env) = []"
    using assms(3) by (simp_all add: good_writers_def)
  from copyBuffer_spec [OF c script(1)] script(2) assms(5)
  have v: "os_data v = content (down_src env)" "x = None" by auto
  have "e = None" using tcp_uplink_good(3) [OF assms(3) up] assms(4) by auto
  then have "err = None \<and> os_data w = content (down_src env)"
    using down c v by (auto simp: tcp_downlink_def)
  then show ?thesis
    using HandleTCP_connected [OF assms(1,2) up down] tcp_uplink_good [OF assms(3) up] by simp
qed

text \<open>Behind a successful dial the remote connection is closed, also when there is no memory.\<close>

lemma HandleTCP_closes:
  assumes "HandleTCP env addr = Returns run" "alloc_byte_err env = None" "\<And>s. dial env s = None"
  shows "RcClose \<in> set (main_acts run)"
  using assms
  by (auto simp: HandleTCP_def allocShortCircuit_def and_then_eq_Returns failed_run_def Let_def
      split: option.splits prod.splits)

text \<open>
  The two goroutines meet exactly once and nothing is left open. On every path behind a
  successful dial the result channel is received from once, the remote connection is closed
  last, and the client-side goroutine has expired the remote's read deadline before it sends
  its result, so that neither copy can stay blocked on a peer that has gone silent.
\<close>

theorem tcp_synchronises:
  assumes "Addr_String addr = Returns s" "tcp_connected env s"
  shows "\<exists>run. HandleTCP env addr = Returns run \<and>
    count_list (main_acts run) RecvResult = 1 \<and> last (main_acts run) = RcClose \<and>
    count_list (main_acts run) RcClose = 1 \<and> last (up_acts run) = RcReadDeadline Now \<and>
    (rc_half_close env \<longrightarrow> RcCloseWrite \<in> set (up_acts run))"
proof -
  obtain res ua rc where up: "tcp_uplink env = (res, ua, rc)" by (metis prod.exhaust)
  obtain a nw err ma w where down: "tcp_downlink env res = ((a, nw, err), ma, w)"
    by (metis prod.exhaust)
  have drain: "count_list acts RecvResult = 0 \<and> count_list acts RcClose = 0"
    if "tcp_drain v rcs n = (m, acts, v')" for v rcs n m acts v'
    using that
    by (induction v rcs n arbitrary: m acts v' rule: tcp_drain.induct)
      (auto split: prod.splits if_splits)
  have "count_list ma RecvResult = 1 \<and> count_list ma RcClose = 0"
    using down
    by (auto simp: tcp_downlink_def opt_act_def wakeReader_def Let_def
        split: option.splits if_splits prod.splits dest!: drain)
  moreover have "last ua = RcReadDeadline Now \<and> (rc_half_close env \<longrightarrow> RcCloseWrite \<in> set ua)"
    using up by (auto simp: tcp_uplink_def opt_act_def Let_def split: prod.splits if_splits)
  ultimately show ?thesis
    using HandleTCP_connected [OF assms up down] by simp
qed

theorem tcp_synchronises_witness:
  "\<exists>run. HandleTCP demo_env \<lparr>addr_data = encode_addr (HostDomain [104]) 80\<rparr> = Returns run \<and>
    count_list (main_acts run) RecvResult = 1 \<and> last (main_acts run) = RcClose"
  using tcp_synchronises [OF demo_addr demo_connected] by blast

end
