(* ===== verification/Tcp_Interleaved.thy ===== *)
theory Tcp_Interleaved
  imports Trojan_Tcp
begin

text \<open>
  \<open>HandleTCP\<close> of \<open>pkgs/trojan/trojan_tcp.go\<close> as it runs: two goroutines whose steps interleave,
  a channel without a buffer between them, and the deadlines through which one of them wakes
  the other. A copy loop is a machine that reads or writes; a peer can fall silent (a read
  then blocks until its deadline) or stop reading (a write then blocks until its deadline).
  The lemmas relate the runs of this machine to the sequential \<open>HandleTCP\<close> of \<open>Trojan_Tcp\<close>,
  whose inputs are what each goroutine saw, and show which sessions come to an end.
\<close>

section \<open>A copy loop\<close>

text \<open>One iteration: what \<open>Read\<close> returned, and what \<open>Write\<close> returned if it was called.\<close>

type_synonym iteration = "(bytes \<times> go_error option) \<times> (int \<times> go_error option)"

datatype copy_phase = Reading | Writing bytes "go_error option" | Ended "go_error option"

record copier =
  cp_in :: istream
  cp_phase :: copy_phase
  cp_n :: int
  cp_out :: bytes
  cp_start :: bytes
  cp_trace :: "iteration list"

text \<open>
  A copy loop that starts on the bytes \<open>d\<close> its destination has accepted before; they and the
  trace are there for the proofs only.
\<close>

definition new_copy :: "istream \<Rightarrow> bytes \<Rightarrow> copier" where
  "new_copy s d =
     \<lparr>cp_in = s, cp_phase = Reading, cp_n = 0, cp_out = d, cp_start = d, cp_trace = []\<rparr>"

text \<open>The end of an iteration of \<open>copyBuffer\<close>.\<close>

definition copied :: "bytes \<Rightarrow> go_error option \<Rightarrow> int \<times> go_error option \<Rightarrow> copier \<Rightarrow> copier" where
  "copied bs er res c =
     (let (nw, ew, w) = (if bs \<noteq> [] then write_chunk \<lparr>os_script = [res], os_data = cp_out c\<rparr> bs
                         else (0, None, \<lparr>os_script = [], os_data = cp_out c\<rparr>))
      in c\<lparr>cp_n := cp_n c + nw, cp_out := os_data w, cp_trace := cp_trace c @ [((bs, er), res)],
           cp_phase :=
             (if ew \<noteq> None then Ended ew
              else case er of
                     Some e \<Rightarrow> Ended (if \<not> errors_Is e EOF then Some e else None)
                   | None \<Rightarrow> Reading)\<rparr>)"

definition after_read :: "bytes \<Rightarrow> go_error option \<Rightarrow> copier \<Rightarrow> copier" where
  "after_read bs er c =
     (if bs \<noteq> [] then c\<lparr>cp_phase := Writing bs er\<rparr> else copied [] er (0, None) c)"

text \<open>
  What a loop meets: whether the peer it reads from is silent once its script is over, whether
  the peer it writes to has stopped reading, the error of an expired read deadline, and which
  deadlines are set. A write to a peer that reads may fail at any time.
\<close>

record surroundings =
  sr_silent :: bool
  sr_stalled :: bool
  sr_timeout :: go_error
  sr_read_dl :: bool
  sr_write_dl :: bool

inductive write_result :: "surroundings \<Rightarrow> bytes \<Rightarrow> int \<times> go_error option \<Rightarrow> bool" for sr bs where
  accepted: "\<not> sr_stalled sr \<Longrightarrow> write_result sr bs (int (length bs), None)"
| reset: "\<not> sr_stalled sr \<Longrightarrow> write_result sr bs (k, Some e)"
| expired: "sr_write_dl sr \<Longrightarrow> write_result sr bs (0, Some ErrDeadlineExceeded)"

inductive copy_step :: "surroundings \<Rightarrow> copier \<Rightarrow> copier \<Rightarrow> bool" for sr c where
  read: "cp_phase c = Reading \<Longrightarrow> is_read (cp_in c) tcpBufSize = ((bs, er), s) \<Longrightarrow>
     sr_silent sr \<longrightarrow> er = None \<Longrightarrow> copy_step sr c (after_read bs er (c\<lparr>cp_in := s\<rparr>))"
| timeout: "cp_phase c = Reading \<Longrightarrow> sr_read_dl sr \<Longrightarrow>
     copy_step sr c (after_read [] (Some (sr_timeout sr)) c)"
| written: "cp_phase c = Writing bs er \<Longrightarrow> write_result sr bs res \<Longrightarrow>
     copy_step sr c (copied bs er res c)"

inductive_cases copy_stepE: "copy_step sr c c'"

section \<open>The two goroutines\<close>

datatype client_phase = Copying | Sending | Sent

text \<open>\<open>MWait\<close> holds the error the copy ended with, when it is one that is not a deadline.\<close>

datatype main_phase =
    MCopy
  | MSelect
  | MWait "go_error option"
  | MDrain int int
  | MReturned int int "go_error option"

record tcp_setup =
  su_client :: istream
  su_remote :: istream
  su_client_silent :: bool
  su_remote_silent :: bool
  su_client_stalled :: bool
  su_remote_stalled :: bool
  su_timeout :: go_error
  su_wakeable :: bool

record tcp_state =
  ts_client :: client_phase
  ts_up :: copier
  ts_main :: main_phase
  ts_down :: copier
  ts_past :: "iteration list list"
  ts_client_dl :: bool
  ts_remote_dl :: bool
  ts_remote_wdl :: bool
  ts_late :: bool

definition tcp_start :: "tcp_setup \<Rightarrow> tcp_state" where
  "tcp_start g =
     \<lparr>ts_client = Copying, ts_up = new_copy (su_client g) [], ts_main = MCopy,
      ts_down = new_copy (su_remote g) [], ts_past = [], ts_client_dl = False,
      ts_remote_dl = False, ts_remote_wdl = False, ts_late = False\<rparr>"

definition up_around :: "tcp_setup \<Rightarrow> tcp_state \<Rightarrow> surroundings" where
  "up_around g s =
     \<lparr>sr_silent = su_client_silent g, sr_stalled = su_remote_stalled g,
      sr_timeout = su_timeout g, sr_read_dl = ts_client_dl s, sr_write_dl = ts_remote_wdl s\<rparr>"

definition down_around :: "tcp_setup \<Rightarrow> tcp_state \<Rightarrow> surroundings" where
  "down_around g s =
     \<lparr>sr_silent = su_remote_silent g, sr_stalled = su_client_stalled g,
      sr_timeout = ErrDeadlineExceeded, sr_read_dl = ts_remote_dl s, sr_write_dl = False\<rparr>"

text \<open>What the client goroutine sends: a timeout counts as a clean end.\<close>

definition client_result :: "copier \<Rightarrow> int \<times> go_error option" where
  "client_result c =
     (cp_n c, case cp_phase c of
                Ended (Some e) \<Rightarrow> if is_net_timeout e then None else Some e | _ \<Rightarrow> None)"

definition deadline_error :: "go_error option \<Rightarrow> bool" where
  "deadline_error err = (case err of None \<Rightarrow> False | Some e \<Rightarrow> errors_Is e ErrDeadlineExceeded)"

text \<open>The next copy of the drain loop: the destination keeps what it has.\<close>

definition next_copy :: "tcp_state \<Rightarrow> tcp_state" where
  "next_copy s =
     s\<lparr>ts_past := ts_past s @ [cp_trace (ts_down s)],
       ts_down := new_copy (cp_in (ts_down s)) (cp_out (ts_down s)), ts_remote_dl := True\<rparr>"

definition final_error :: "go_error option \<Rightarrow> go_error option \<Rightarrow> go_error option" where
  "final_error err rerr =
     (case err of
        None \<Rightarrow> rerr
      | Some e \<Rightarrow> if rerr = None \<and> isTimeoutError (Some e) then None else Some e)"

inductive tcp_step :: "tcp_setup \<Rightarrow> tcp_state \<Rightarrow> tcp_state \<Rightarrow> bool" for g s where
  up_copy: "ts_client s = Copying \<Longrightarrow> copy_step (up_around g s) (ts_up s) c \<Longrightarrow>
     tcp_step g s (s\<lparr>ts_up := c\<rparr>)"
| up_end: "ts_client s = Copying \<Longrightarrow> cp_phase (ts_up s) = Ended e \<Longrightarrow>
     tcp_step g s (s\<lparr>ts_client := Sending, ts_remote_dl := True\<rparr>)"
| down_copy: "ts_main s = MCopy \<or> (\<exists>a b. ts_main s = MDrain a b) \<Longrightarrow>
     copy_step (down_around g s) (ts_down s) c \<Longrightarrow> tcp_step g s (s\<lparr>ts_down := c\<rparr>)"
| down_eof: "ts_main s = MCopy \<Longrightarrow> cp_phase (ts_down s) = Ended None \<Longrightarrow>
     tcp_step g s (s\<lparr>ts_main := MWait None, ts_client_dl := ts_client_dl s \<or> su_wakeable g\<rparr>)"
| down_deadline: "ts_main s = MCopy \<Longrightarrow> cp_phase (ts_down s) = Ended (Some e) \<Longrightarrow>
     errors_Is e ErrDeadlineExceeded \<Longrightarrow> tcp_step g s (s\<lparr>ts_main := MSelect\<rparr>)"
| down_error: "ts_main s = MCopy \<Longrightarrow> cp_phase (ts_down s) = Ended (Some e) \<Longrightarrow>
     \<not> errors_Is e ErrDeadlineExceeded \<Longrightarrow>
     tcp_step g s (s\<lparr>ts_main := MWait (Some e), ts_remote_wdl := True,
       ts_client_dl := ts_client_dl s \<or> su_wakeable g\<rparr>)"
| receive: "ts_main s = MWait err \<Longrightarrow> ts_client s = Sending \<Longrightarrow>
     client_result (ts_up s) = (nr, rerr) \<Longrightarrow>
     tcp_step g s (s\<lparr>ts_client := Sent,
       ts_main := MReturned nr (cp_n (ts_down s)) (final_error err rerr)\<rparr>)"
| receive_clean: "ts_main s = MSelect \<Longrightarrow> ts_client s = Sending \<Longrightarrow>
     client_result (ts_up s) = (nr, None) \<Longrightarrow>
     tcp_step g s (next_copy (s\<lparr>ts_client := Sent, ts_main := MDrain nr (cp_n (ts_down s))\<rparr>))"
| receive_error: "ts_main s = MSelect \<Longrightarrow> ts_client s = Sending \<Longrightarrow>
     client_result (ts_up s) = (nr, Some e) \<Longrightarrow>
     tcp_step g s (s\<lparr>ts_client := Sent, ts_main := MReturned nr (cp_n (ts_down s)) (Some e)\<rparr>)"
| timer: "ts_main s = MSelect \<Longrightarrow>
     tcp_step g s (s\<lparr>ts_main := MWait None, ts_late := True,
       ts_client_dl := ts_client_dl s \<or> su_wakeable g\<rparr>)"
| drain_again: "ts_main s = MDrain nr nw \<Longrightarrow> cp_phase (ts_down s) = Ended err \<Longrightarrow>
     cp_n (ts_down s) \<noteq> 0 \<Longrightarrow> deadline_error err \<Longrightarrow>
     tcp_step g s (next_copy (s\<lparr>ts_main := MDrain nr (nw + cp_n (ts_down s))\<rparr>))"
| drain_end: "ts_main s = MDrain nr nw \<Longrightarrow> cp_phase (ts_down s) = Ended err \<Longrightarrow>
     cp_n (ts_down s) = 0 \<or> \<not> deadline_error err \<Longrightarrow>
     tcp_step g s (s\<lparr>ts_main := MReturned nr (nw + cp_n (ts_down s)) None\<rparr>)"

inductive_cases tcp_stepE: "tcp_step g s s'"

inductive tcp_reachable :: "tcp_setup \<Rightarrow> tcp_state \<Rightarrow> bool" for g where
  start: "tcp_reachable g (tcp_start g)"
| step: "tcp_reachable g s \<Longrightarrow> tcp_step g s s' \<Longrightarrow> tcp_reachable g s'"

definition returned :: "tcp_state \<Rightarrow> bool" where
  "returned s \<longleftrightarrow> (\<exists>nr nw err. ts_main s = MReturned nr nw err)"

section \<open>What a loop saw\<close>

text \<open>The reader and the results of the writer that a trace shows.\<close>

definition behind :: "iteration list \<Rightarrow> istream \<Rightarrow> istream" where
  "behind t s = s\<lparr>is_chunks := map (\<lambda>x. fst (fst x)) t @ is_chunks s\<rparr>"

definition writes :: "iteration list \<Rightarrow> (int \<times> go_error option) list" where
  "writes t = map snd (filter (\<lambda>x. fst (fst x) \<noteq> []) t)"

definition last_read :: "bytes \<Rightarrow> go_error option \<Rightarrow> istream" where
  "last_read bs er =
     (case er of Some e \<Rightarrow> \<lparr>is_chunks = [], is_last = bs, is_err = e\<rparr>
      | None \<Rightarrow> \<lparr>is_chunks = [bs], is_last = [], is_err = EOF\<rparr>)"

definition stream_of :: "iteration list \<Rightarrow> istream" where
  "stream_of t =
     (if t = [] then \<lparr>is_chunks = [], is_last = [], is_err = EOF\<rparr>
      else behind (butlast t) (last_read (fst (fst (last t))) (snd (fst (last t)))))"

lemma writes_snoc: "writes (t @ [((bs, er), res)]) = writes t @ (if bs \<noteq> [] then [res] else [])"
  by (simp add: writes_def)

lemma behind_snoc:
  "behind (t @ [((bs, er), res)]) s = behind t (s\<lparr>is_chunks := bs # is_chunks s\<rparr>)"
  by (simp add: behind_def)

lemma stream_of_snoc: "stream_of (t @ [((bs, er), res)]) = behind t (last_read bs er)"
  by (simp add: stream_of_def)

lemma write_chunk_script:
  "write_chunk \<lparr>os_script = [res], os_data = d\<rparr> bs = (nw, ew, w) \<Longrightarrow>
    write_chunk \<lparr>os_script = res # sc, os_data = d\<rparr> bs = (nw, ew, \<lparr>os_script = sc, os_data = os_data w\<rparr>)"
  by (cases res) (auto simp: write_chunk_def os_write_def Let_def)

text \<open>
  While a loop goes on, the sequential \<open>copyBuffer\<close> over what it saw is where the loop is,
  whatever comes next; once it has ended, \<open>copyBuffer\<close> returns what the loop ended with.
\<close>

definition copy_going :: "copier \<Rightarrow> bool" where
  "copy_going c \<longleftrightarrow>
     (\<forall>s sc. copyBuffer \<lparr>os_script = writes (cp_trace c) @ sc, os_data = cp_start c\<rparr>
               (behind (cp_trace c) s) 0 =
             copyBuffer \<lparr>os_script = sc, os_data = cp_out c\<rparr> s (cp_n c))"

definition copier_ok :: "copier \<Rightarrow> bool" where
  "copier_ok c \<longleftrightarrow>
     (case cp_phase c of
        Reading \<Rightarrow> copy_going c
      | Writing bs er \<Rightarrow> copy_going c \<and> bs \<noteq> [] \<and> length bs \<le> tcpBufSize
      | Ended e \<Rightarrow>
          (\<forall>sc. \<exists>r. copyBuffer \<lparr>os_script = writes (cp_trace c) @ sc, os_data = cp_start c\<rparr>
              (stream_of (cp_trace c)) 0 = (cp_n c, e, r, \<lparr>os_script = sc, os_data = cp_out c\<rparr>)))"

lemma new_copy_ok: "copier_ok (new_copy s d)"
  by (simp add: copier_ok_def copy_going_def new_copy_def writes_def behind_def)

lemma is_read_last_read:
  "length bs \<le> tcpBufSize \<Longrightarrow> \<exists>s. is_read (last_read bs er) tcpBufSize = ((bs, er), s)"
  by (cases er) (simp_all add: last_read_def is_read_def)

lemma copied_ok:
  assumes "copy_going c" "length bs \<le> tcpBufSize"
  shows "copier_ok (copied bs er res c)"
proof -
  obtain nw ew w where wr: "(if bs \<noteq> [] then write_chunk \<lparr>os_script = [res], os_data = cp_out c\<rparr> bs
      else (0, None, \<lparr>os_script = [], os_data = cp_out c\<rparr>)) = (nw, ew, w)" by (metis prod.exhaust)
  let ?sc = "\<lambda>sc. (if bs \<noteq> [] then [res] else []) @ sc"
  have step: "(if bs \<noteq> [] then write_chunk \<lparr>os_script = ?sc sc, os_data = cp_out c\<rparr> bs
      else (0, None, \<lparr>os_script = ?sc sc, os_data = cp_out c\<rparr>)) =
      (nw, ew, \<lparr>os_script = sc, os_data = os_data w\<rparr>)" for sc
    using wr write_chunk_script [of res "cp_out c" bs nw ew w sc] by (auto split: if_splits)
  have c': "copied bs er res c = c\<lparr>cp_n := cp_n c + nw, cp_out := os_data w,
      cp_trace := cp_trace c @ [((bs, er), res)],
      cp_phase := (if ew \<noteq> None then Ended ew
        else case er of Some e \<Rightarrow> Ended (if \<not> errors_Is e EOF then Some e else None) | None \<Rightarrow> Reading)\<rparr>"
    unfolding copied_def wr by simp
  have run: "copyBuffer \<lparr>os_script = writes (cp_trace c) @ sc, os_data = cp_start c\<rparr>
      (behind (cp_trace c) s) 0 =
    copyBuffer \<lparr>os_script = sc, os_data = cp_out c\<rparr> s (cp_n c)" for s sc
    using assms(1) by (simp add: copy_going_def)
  show ?thesis
  proof (cases "ew = None \<and> er = None")
    case True
    have "copyBuffer \<lparr>os_script = ?sc sc, os_data = cp_out c\<rparr> (s\<lparr>is_chunks := bs # is_chunks s\<rparr>) (cp_n c) =
        copyBuffer \<lparr>os_script = sc, os_data = os_data w\<rparr> s (cp_n c + nw)" for s sc
    proof -
      have rd: "is_read (s\<lparr>is_chunks := bs # is_chunks s\<rparr>) tcpBufSize = ((bs, None), s)"
        using assms(2) by (simp add: is_read_def)
      then show ?thesis
        unfolding copyBuffer.simps [of "\<lparr>os_script = ?sc sc, os_data = cp_out c\<rparr>"] rd prod.case step
        using True by simp
    qed
    with True show ?thesis
      unfolding c' by (simp add: copier_ok_def copy_going_def writes_snoc behind_snoc run)
  next
    case False
    have "\<exists>r. copyBuffer \<lparr>os_script = ?sc sc, os_data = cp_out c\<rparr> (last_read bs er) (cp_n c) =
        (cp_n c + nw, if ew \<noteq> None then ew else case er of Some e \<Rightarrow> if \<not> errors_Is e EOF then Some e else None
           | None \<Rightarrow> None, r, \<lparr>os_script = sc, os_data = os_data w\<rparr>)" for sc
    proof -
      obtain s where s: "is_read (last_read bs er) tcpBufSize = ((bs, er), s)"
        using is_read_last_read [OF assms(2)] by blast
      show ?thesis
        unfolding copyBuffer.simps [of "\<lparr>os_script = ?sc sc, os_data = cp_out c\<rparr>"] s prod.case step
        using False by (auto split: option.splits)
    qed
    with False show ?thesis
      unfolding c' by (auto simp: copier_ok_def writes_snoc stream_of_snoc run split: option.splits)
  qed
qed

lemma after_read_ok:
  assumes "copy_going c" "length bs \<le> tcpBufSize"
  shows "copier_ok (after_read bs er c)"
  using assms copied_ok [OF assms(1), of "[]" er "(0, None)"]
  by (auto simp: after_read_def copier_ok_def copy_going_def)

lemma copy_step_ok: "copy_step sr c c' \<Longrightarrow> copier_ok c \<Longrightarrow> copier_ok c'"
  by (erule copy_stepE)
    (auto simp: copier_ok_def [of c] copy_going_def intro!: after_read_ok copied_ok
      dest: is_read_spec(2))

section \<open>Every interleaving is a run of HandleTCP\<close>

text \<open>The inputs of the sequential \<open>HandleTCP\<close>: what the two goroutines have seen.\<close>

definition traces :: "tcp_state \<Rightarrow> iteration list list" where
  "traces s = ts_past s @ [cp_trace (ts_down s)]"

definition seen :: "tcp_setup \<Rightarrow> tcp_state \<Rightarrow> tcp_env" where
  "seen g s =
     \<lparr>alloc_byte_err = None, dial = (\<lambda>_. None), alloc_a = None, alloc_b = None,
      up_src = stream_of (cp_trace (ts_up s)),
      up_dst = \<lparr>os_script = writes (cp_trace (ts_up s)), os_data = []\<rparr>,
      down_src = stream_of (hd (traces s)), drains = map stream_of (tl (traces s)),
      down_dst = \<lparr>os_script = concat (map writes (traces s)), os_data = []\<rparr>,
      up_in_time = (\<not> ts_late s), rc_half_close = True, w_half_close = True,
      w_wakeable = su_wakeable g\<rparr>"

definition matches :: "tcp_setup \<Rightarrow> tcp_state \<Rightarrow> int \<Rightarrow> int \<Rightarrow> go_error option \<Rightarrow> bool" where
  "matches g s nr nw err \<longleftrightarrow>
     (\<forall>addr t. Addr_String addr = Returns t \<longrightarrow>
        (\<exists>run. HandleTCP (seen g s) addr = Returns run \<and> tcp_nr run = nr \<and> tcp_nw run = nw \<and>
           tcp_err run = err \<and> to_remote run = cp_out (ts_up s) \<and> to_client run = cp_out (ts_down s)))"

text \<open>The state of the drain loop, without the deadlines it has set.\<close>

definition drained :: "int \<times> tcp_act list \<times> ostream \<Rightarrow> int \<times> ostream" where
  "drained x = (fst x, snd (snd x))"

definition drain_at ::
  "tcp_state \<Rightarrow> int \<Rightarrow> iteration list \<Rightarrow> iteration list list \<Rightarrow> int \<Rightarrow> bytes \<Rightarrow> go_error \<Rightarrow> bool" where
  "drain_at s nw t ts m d e \<longleftrightarrow>
     ts_past s = t # ts \<and> errors_Is e ErrDeadlineExceeded \<and>
     (\<forall>sc. \<exists>r. copyBuffer \<lparr>os_script = writes t @ sc, os_data = []\<rparr> (stream_of t) 0 =
        (m, Some e, r, \<lparr>os_script = sc, os_data = d\<rparr>)) \<and>
     (\<forall>sc rest. drained (tcp_drain \<lparr>os_script = concat (map writes ts) @ sc, os_data = d\<rparr>
          (map stream_of ts @ rest) m) =
        drained (tcp_drain \<lparr>os_script = sc, os_data = cp_start (ts_down s)\<rparr> rest nw))"

definition in_drain :: "tcp_state \<Rightarrow> int \<Rightarrow> bool" where
  "in_drain s nw \<longleftrightarrow> (\<exists>t ts m d e. drain_at s nw t ts m d e)"

lemma uplink_seen:
  assumes "copier_ok (ts_up s)" "cp_start (ts_up s) = []" "cp_phase (ts_up s) = Ended e"
  obtains ua where "tcp_uplink (seen g s) = (client_result (ts_up s), ua, cp_out (ts_up s))"
proof -
  obtain r where "copyBuffer \<lparr>os_script = writes (cp_trace (ts_up s)), os_data = []\<rparr>
      (stream_of (cp_trace (ts_up s))) 0 = (cp_n (ts_up s), e, r, \<lparr>os_script = [], os_data = cp_out (ts_up s)\<rparr>)"
    using assms by (auto simp: copier_ok_def dest: spec [of _ "[]"])
  then show thesis
    using that by (cases e) (auto simp: tcp_uplink_def seen_def client_result_def assms(3))
qed

lemma matchesI:
  assumes "copier_ok (ts_up s)" "cp_start (ts_up s) = []" "cp_phase (ts_up s) = Ended e"
    "client_result (ts_up s) = (nr, rerr)"
    "tcp_downlink (seen g s) (nr, rerr) = ((nr, nw, err), ma, w)" "os_data w = cp_out (ts_down s)"
  shows "matches g s nr nw err"
proof -
  obtain ua where "tcp_uplink (seen g s) = ((nr, rerr), ua, cp_out (ts_up s))"
    using uplink_seen [OF assms(1-3)] assms(4) by metis
  moreover have "tcp_connected (seen g s) t" for t by (simp add: tcp_connected_def seen_def)
  ultimately show ?thesis
    unfolding matches_def using HandleTCP_connected [of _ _ "seen g s"] assms(5,6) by auto
qed

text \<open>The copy of the main goroutine, before the drain loop.\<close>

lemma downlink_seen:
  assumes "copier_ok (ts_down s)" "cp_start (ts_down s) = []" "ts_past s = []"
    "cp_phase (ts_down s) = Ended e"
  obtains r where "copyBuffer (down_dst (seen g s)) (down_src (seen g s)) 0 =
    (cp_n (ts_down s), e, r, \<lparr>os_script = [], os_data = cp_out (ts_down s)\<rparr>)"
  using assms by (auto simp: copier_ok_def seen_def traces_def dest: spec [of _ "[]"])

lemma drain_one:
  assumes "copier_ok c" "cp_phase c = Ended err"
  shows "drained (tcp_drain \<lparr>os_script = writes (cp_trace c) @ sc, os_data = cp_start c\<rparr>
      (stream_of (cp_trace c) # rest) nw) =
    (if cp_n c = 0 \<or> \<not> deadline_error err then (nw + cp_n c, \<lparr>os_script = sc, os_data = cp_out c\<rparr>)
     else drained (tcp_drain \<lparr>os_script = sc, os_data = cp_out c\<rparr> rest (nw + cp_n c)))"
proof -
  obtain r where "copyBuffer \<lparr>os_script = writes (cp_trace c) @ sc, os_data = cp_start c\<rparr>
      (stream_of (cp_trace c)) 0 = (cp_n c, err, r, \<lparr>os_script = sc, os_data = cp_out c\<rparr>)"
    using assms by (auto simp: copier_ok_def)
  then show ?thesis by (auto simp: drained_def deadline_error_def split: prod.splits)
qed

definition tcp_inv :: "tcp_setup \<Rightarrow> tcp_state \<Rightarrow> bool" where
  "tcp_inv g s \<longleftrightarrow>
     copier_ok (ts_up s) \<and> cp_start (ts_up s) = [] \<and> copier_ok (ts_down s) \<and>
     (ts_client s \<noteq> Copying \<longrightarrow> (\<exists>e. cp_phase (ts_up s) = Ended e)) \<and>
     (case ts_main s of
        MReturned nr nw err \<Rightarrow> ts_client s = Sent \<and> matches g s nr nw err
      | MDrain nr nw \<Rightarrow>
          ts_client s = Sent \<and> \<not> ts_late s \<and> client_result (ts_up s) = (nr, None) \<and> in_drain s nw
      | MCopy \<Rightarrow> ts_client s \<noteq> Sent \<and> ts_past s = [] \<and> cp_start (ts_down s) = [] \<and> \<not> ts_late s
      | MSelect \<Rightarrow> ts_client s \<noteq> Sent \<and> ts_past s = [] \<and> cp_start (ts_down s) = [] \<and> \<not> ts_late s \<and>
          (\<exists>e. cp_phase (ts_down s) = Ended e \<and> deadline_error e)
      | MWait err \<Rightarrow> ts_client s \<noteq> Sent \<and> ts_past s = [] \<and> cp_start (ts_down s) = [] \<and>
          (\<exists>e. cp_phase (ts_down s) = Ended e \<and>
             (if ts_late s then err = None \<and> deadline_error e else err = e \<and> \<not> deadline_error e)))"

lemma tcp_inv_start: "tcp_inv g (tcp_start g)"
  using new_copy_ok by (simp add: tcp_inv_def tcp_start_def, simp add: new_copy_def)

lemma downlink_wait:
  assumes "tcp_inv g s" "ts_main s = MWait err"
  obtains ma w where "tcp_downlink (seen g s) (nr, rerr) =
    ((nr, cp_n (ts_down s), final_error err rerr), ma, w)" "os_data w = cp_out (ts_down s)"
proof -
  from assms obtain e where e: "cp_phase (ts_down s) = Ended e"
    "if ts_late s then err = None \<and> deadline_error e else err = e \<and> \<not> deadline_error e"
    and down: "copier_ok (ts_down s)" "cp_start (ts_down s) = []" "ts_past s = []"
    by (auto simp: tcp_inv_def)
  obtain r where "copyBuffer (down_dst (seen g s)) (down_src (seen g s)) 0 =
      (cp_n (ts_down s), e, r, \<lparr>os_script = [], os_data = cp_out (ts_down s)\<rparr>)"
    using downlink_seen [OF down e(1)] by blast
  moreover have "up_in_time (seen g s) = (\<not> ts_late s)" by (simp add: seen_def)
  ultimately show thesis
    using e(2) that
    by (auto simp: tcp_downlink_def final_error_def deadline_error_def split: if_splits option.splits)
qed

lemma downlink_select:
  assumes "tcp_inv g s" "ts_main s = MSelect"
  obtains ma w where "tcp_downlink (seen g s) (nr, Some e) = ((nr, cp_n (ts_down s), Some e), ma, w)"
    "os_data w = cp_out (ts_down s)"
proof -
  from assms obtain x where x: "cp_phase (ts_down s) = Ended x" "deadline_error x" "\<not> ts_late s"
    and down: "copier_ok (ts_down s)" "cp_start (ts_down s) = []" "ts_past s = []"
    by (auto simp: tcp_inv_def)
  obtain r where "copyBuffer (down_dst (seen g s)) (down_src (seen g s)) 0 =
      (cp_n (ts_down s), x, r, \<lparr>os_script = [], os_data = cp_out (ts_down s)\<rparr>)"
    using downlink_seen [OF down x(1)] by blast
  moreover have "up_in_time (seen g s)" using x(3) by (simp add: seen_def)
  ultimately show thesis
    using x(2) that by (auto simp: tcp_downlink_def deadline_error_def split: option.splits)
qed

lemma downlink_drain:
  assumes "tcp_inv g s" "ts_main s = MDrain nr nw" "cp_phase (ts_down s) = Ended err"
    "cp_n (ts_down s) = 0 \<or> \<not> deadline_error err"
  obtains ma w where "tcp_downlink (seen g s) (nr, None) =
    ((nr, nw + cp_n (ts_down s), None), ma, w)" "os_data w = cp_out (ts_down s)"
proof -
  let ?c = "ts_down s"
  from assms(1,2) have c: "copier_ok ?c" "in_drain s nw" "\<not> ts_late s" by (simp_all add: tcp_inv_def)
  then obtain t ts m d e where at: "drain_at s nw t ts m d e" by (auto simp: in_drain_def)
  then have past: "ts_past s = t # ts" "errors_Is e ErrDeadlineExceeded"
    and first: "\<And>sc. \<exists>r. copyBuffer \<lparr>os_script = writes t @ sc, os_data = []\<rparr> (stream_of t) 0 =
      (m, Some e, r, \<lparr>os_script = sc, os_data = d\<rparr>)"
    and rest: "\<And>sc rest. drained (tcp_drain \<lparr>os_script = concat (map writes ts) @ sc, os_data = d\<rparr>
      (map stream_of ts @ rest) m) = drained (tcp_drain \<lparr>os_script = sc, os_data = cp_start ?c\<rparr> rest nw)"
    unfolding drain_at_def by blast+
  let ?sc = "concat (map writes (ts @ [cp_trace ?c]))"
  obtain r where r: "copyBuffer (down_dst (seen g s)) (down_src (seen g s)) 0 =
      (m, Some e, r, \<lparr>os_script = ?sc, os_data = d\<rparr>)"
    using first [of ?sc] past(1) by (auto simp: seen_def traces_def)
  have "drained (tcp_drain \<lparr>os_script = ?sc, os_data = d\<rparr> (drains (seen g s)) m) =
      (nw + cp_n ?c, \<lparr>os_script = [], os_data = cp_out ?c\<rparr>)"
    using rest [of "writes (cp_trace ?c)" "[stream_of (cp_trace ?c)]"]
      drain_one [OF c(1) assms(3), of "[]" "[]" nw] assms(4) past(1)
    by (simp add: seen_def traces_def)
  then obtain acts where "tcp_drain \<lparr>os_script = ?sc, os_data = d\<rparr> (drains (seen g s)) m =
      (nw + cp_n ?c, acts, \<lparr>os_script = [], os_data = cp_out ?c\<rparr>)"
    by (metis drained_def prod.collapse fst_conv snd_conv)
  moreover have "up_in_time (seen g s)" using c(3) by (simp add: seen_def)
  ultimately show thesis
    using that r past(2) by (simp add: tcp_downlink_def)
qed

lemma in_drain_first:
  assumes "tcp_inv g s" "ts_main s = MSelect" "ts_past s' = [cp_trace (ts_down s)]"
    "cp_start (ts_down s') = cp_out (ts_down s)"
  shows "in_drain s' (cp_n (ts_down s))"
proof -
  from assms(1,2) obtain e where "cp_phase (ts_down s) = Ended (Some e)" "errors_Is e ErrDeadlineExceeded"
    "copier_ok (ts_down s)" "cp_start (ts_down s) = []"
    by (auto simp: tcp_inv_def deadline_error_def split: option.splits)
  then show ?thesis
    unfolding in_drain_def drain_at_def assms(3,4)
    by (intro exI [of _ "cp_trace (ts_down s)"] exI [of _ "[]"] exI [of _ "cp_n (ts_down s)"]
        exI [of _ "cp_out (ts_down s)"] exI [of _ e]) (simp add: copier_ok_def)
qed

lemma in_drain_next:
  assumes "in_drain s nw" "copier_ok (ts_down s)" "cp_phase (ts_down s) = Ended err"
    "cp_n (ts_down s) \<noteq> 0" "deadline_error err"
    "ts_past s' = ts_past s @ [cp_trace (ts_down s)]" "cp_start (ts_down s') = cp_out (ts_down s)"
  shows "in_drain s' (nw + cp_n (ts_down s))"
proof -
  obtain t ts m d e where at: "drain_at s nw t ts m d e" using assms(1) by (auto simp: in_drain_def)
  have "drain_at s' (nw + cp_n (ts_down s)) t (ts @ [cp_trace (ts_down s)]) m d e"
    unfolding drain_at_def assms(6,7)
  proof (intro conjI allI)
    fix sc rest
    have "drained (tcp_drain \<lparr>os_script = concat (map writes ts) @ writes (cp_trace (ts_down s)) @ sc, os_data = d\<rparr>
        (map stream_of ts @ stream_of (cp_trace (ts_down s)) # rest) m) =
      drained (tcp_drain \<lparr>os_script = writes (cp_trace (ts_down s)) @ sc, os_data = cp_start (ts_down s)\<rparr>
        (stream_of (cp_trace (ts_down s)) # rest) nw)"
      using at unfolding drain_at_def by blast
    then show "drained (tcp_drain \<lparr>os_script = concat (map writes (ts @ [cp_trace (ts_down s)])) @ sc, os_data = d\<rparr>
        (map stream_of (ts @ [cp_trace (ts_down s)]) @ rest) m) =
      drained (tcp_drain \<lparr>os_script = sc, os_data = cp_out (ts_down s)\<rparr> rest (nw + cp_n (ts_down s)))"
      using drain_one [OF assms(2,3)] assms(4,5) by simp
  qed (use at in \<open>auto simp: drain_at_def\<close>)
  then show ?thesis unfolding in_drain_def by blast
qed

lemma tcp_inv_step:
  assumes "tcp_inv g s" "tcp_step g s s'"
  shows "tcp_inv g s'"
  using assms(2)
proof cases
  case (up_copy c)
  have "cp_start c = cp_start (ts_up s)"
    using up_copy(3) by (auto elim!: copy_stepE simp: after_read_def copied_def Let_def split: prod.splits)
  with up_copy assms(1) copy_step_ok [OF up_copy(3)] show ?thesis
    by (auto simp: tcp_inv_def in_drain_def drain_at_def split: main_phase.splits)
next
  case (down_copy c)
  have "cp_start c = cp_start (ts_down s)"
    using down_copy(3) by (auto elim!: copy_stepE simp: after_read_def copied_def Let_def split: prod.splits)
  with down_copy assms(1) copy_step_ok [OF down_copy(3)] show ?thesis
    by (auto simp: tcp_inv_def in_drain_def drain_at_def split: main_phase.splits)
next
  case (receive err nr rerr)
  from assms(1) receive obtain e where up: "copier_ok (ts_up s)" "cp_start (ts_up s) = []"
    "cp_phase (ts_up s) = Ended e" by (auto simp: tcp_inv_def)
  obtain ma w where "tcp_downlink (seen g s) (nr, rerr) =
      ((nr, cp_n (ts_down s), final_error err rerr), ma, w)" "os_data w = cp_out (ts_down s)"
    by (rule downlink_wait [OF assms(1) receive(2)])
  from matchesI [OF up receive(4) this] show ?thesis
    using assms(1) receive by (auto simp: tcp_inv_def matches_def seen_def traces_def)
next
  case (receive_error nr e)
  from assms(1) receive_error obtain x where up: "copier_ok (ts_up s)" "cp_start (ts_up s) = []"
    "cp_phase (ts_up s) = Ended x" by (auto simp: tcp_inv_def)
  obtain ma w where "tcp_downlink (seen g s) (nr, Some e) =
      ((nr, cp_n (ts_down s), Some e), ma, w)" "os_data w = cp_out (ts_down s)"
    by (rule downlink_select [OF assms(1) receive_error(2)])
  from matchesI [OF up receive_error(4) this] show ?thesis
    using assms(1) receive_error by (auto simp: tcp_inv_def matches_def seen_def traces_def)
next
  case (drain_end nr nw err)
  from assms(1) drain_end obtain x where up: "copier_ok (ts_up s)" "cp_start (ts_up s) = []"
    "cp_phase (ts_up s) = Ended x" "client_result (ts_up s) = (nr, None)" by (auto simp: tcp_inv_def)
  obtain ma w where "tcp_downlink (seen g s) (nr, None) =
      ((nr, nw + cp_n (ts_down s), None), ma, w)" "os_data w = cp_out (ts_down s)"
    by (rule downlink_drain [OF assms(1) drain_end(2-4)])
  from matchesI [OF up this] show ?thesis
    using assms(1) drain_end by (auto simp: tcp_inv_def matches_def seen_def traces_def)
next
  case (receive_clean nr)
  then show ?thesis
    using assms(1) in_drain_first [OF assms(1) receive_clean(2), of s'] new_copy_ok
    by (auto simp: tcp_inv_def next_copy_def new_copy_def)
next
  case (drain_again nr nw err)
  have "copier_ok (ts_down s)" "in_drain s nw" using assms(1) drain_again(2) by (simp_all add: tcp_inv_def)
  with in_drain_next [OF this(2,1) drain_again(3-5), of s'] assms(1) drain_again new_copy_ok show ?thesis
    by (auto simp: tcp_inv_def next_copy_def new_copy_def client_result_def)
qed (use assms(1) in \<open>auto simp: tcp_inv_def deadline_error_def in_drain_def drain_at_def split: main_phase.splits\<close>)

lemma tcp_reachable_inv: "tcp_reachable g s \<Longrightarrow> tcp_inv g s"
  by (induction rule: tcp_reachable.induct) (auto intro: tcp_inv_start tcp_inv_step)

text \<open>
  C10: the sequential \<open>HandleTCP\<close> is what every interleaving does. However the two goroutines
  run, fall asleep and wake each other, whatever fails in between and however often the drain
  loop goes round: when the function returns, its counts, its error and the bytes each side has
  received are those of \<open>HandleTCP\<close> on what the two goroutines have read and the results of
  their writes.
\<close>

theorem interleavings_are_HandleTCP:
  assumes "tcp_reachable g s" "ts_main s = MReturned nr nw err" "Addr_String addr = Returns t"
  shows "\<exists>run. HandleTCP (seen g s) addr = Returns run \<and> tcp_nr run = nr \<and> tcp_nw run = nw \<and>
    tcp_err run = err \<and> to_remote run = cp_out (ts_up s) \<and> to_client run = cp_out (ts_down s)"
  using tcp_reachable_inv [OF assms(1)] assms(2,3) by (simp add: tcp_inv_def matches_def)

section \<open>Sessions end\<close>

definition copy_weight :: "copier \<Rightarrow> nat" where
  "copy_weight c =
     8 * (length (is_chunks (cp_in c)) + length (content (cp_in c)))
     + (case cp_phase c of Reading \<Rightarrow> 2 | Writing _ er \<Rightarrow> (if er = None then 6 else 5) | Ended _ \<Rightarrow> 0)"

definition drain_weight :: "copier \<Rightarrow> nat" where
  "drain_weight c = copy_weight c + (if cp_n c \<noteq> 0 then 3 else 0)"

definition tcp_weight :: "tcp_state \<Rightarrow> nat" where
  "tcp_weight s =
     copy_weight (ts_up s) + (case ts_client s of Copying \<Rightarrow> 2 | Sending \<Rightarrow> 1 | Sent \<Rightarrow> 0)
     + (case ts_main s of
          MCopy \<Rightarrow> 6 + copy_weight (ts_down s) | MSelect \<Rightarrow> 5 + copy_weight (ts_down s)
        | MWait _ \<Rightarrow> 1 | MDrain _ _ \<Rightarrow> 1 + drain_weight (ts_down s) | MReturned _ _ _ \<Rightarrow> 0)"

lemma is_read_shrinks:
  assumes "is_read s tcpBufSize = ((bs, er), s')" "er = None \<or> bs \<noteq> []"
  shows "length (is_chunks s') + length (content s') < length (is_chunks s) + length (content s)"
  using assms
  by (auto simp: is_read_def content_def tcpBufSize_def split: list.splits if_splits)

lemma is_read_no_growth:
  assumes "is_read s tcpBufSize = ((bs, er), s')"
  shows "length (is_chunks s') + length (content s') \<le> length (is_chunks s) + length (content s)"
  using assms by (auto simp: is_read_def content_def split: list.splits if_splits)

lemma copied_in: "cp_in (copied bs er res c) = cp_in c"
  by (simp add: copied_def Let_def split: prod.splits)

lemma copied_phase:
  "cp_phase (copied bs er res c) = Reading \<and> er = None \<or> (\<exists>e. cp_phase (copied bs er res c) = Ended e)"
  by (auto simp: copied_def Let_def split: prod.splits option.splits)

lemma copied_nothing: "cp_n (copied [] er res c) = cp_n c"
  by (simp add: copied_def)

lemma copied_weight:
  "copy_weight (copied bs er res c) + (if er = None then 0 else 2) \<le>
    8 * (length (is_chunks (cp_in c)) + length (content (cp_in c))) + 2"
  using copied_phase [of bs er res c] by (auto simp: copy_weight_def copied_in)

lemma copy_step_weights:
  assumes "copy_step sr c c'"
  shows "copy_weight c' < copy_weight c" "drain_weight c' < drain_weight c"
proof -
  have "copy_weight c' < copy_weight c \<and> drain_weight c' < drain_weight c"
    using assms
  proof cases
    case (read bs er s)
    note no = is_read_no_growth [OF read(3)]
    show ?thesis
    proof (cases "bs = []")
      case True
      have "copy_weight c' + (if er = None then 0 else 2) \<le> 8 * (length (is_chunks s) + length (content s)) + 2"
        "cp_n c' = cp_n c"
        using copied_weight [of "[]" er "(0, None)" "c\<lparr>cp_in := s\<rparr>"] True read(1)
        by (simp_all add: after_read_def copied_nothing)
      with is_read_shrinks [OF read(3)] no read(2) show ?thesis
        by (cases er) (auto simp: drain_weight_def copy_weight_def [of c])
    next
      case False
      with is_read_shrinks [OF read(3)] read(1,2) show ?thesis
        by (auto simp: after_read_def drain_weight_def copy_weight_def)
    qed
  next
    case timeout
    then show ?thesis
      using copied_weight [of "[]" "Some (sr_timeout sr)" "(0, None)" c]
      by (simp add: after_read_def drain_weight_def copied_nothing copy_weight_def [of c])
  next
    case (written bs er res)
    then show ?thesis
      using copied_weight [of bs er res c]
      by (auto simp: drain_weight_def copy_weight_def [of c] split: if_splits)
  qed
  then show "copy_weight c' < copy_weight c" "drain_weight c' < drain_weight c" by simp_all
qed

lemma new_copy_weight:
  "cp_phase c = Ended e \<Longrightarrow> copy_weight (new_copy (cp_in c) d) = copy_weight c + 2"
  "cp_phase c = Ended e \<Longrightarrow> drain_weight (new_copy (cp_in c) d) = copy_weight c + 2"
  by (simp_all add: copy_weight_def drain_weight_def new_copy_def)

lemma tcp_step_weight:
  assumes "tcp_step g s s'" "tcp_inv g s"
  shows "tcp_weight s' < tcp_weight s"
  using assms(1)
proof cases
  case (up_copy c)
  then show ?thesis
    using copy_step_weights(1) [OF up_copy(3)] by (simp add: tcp_weight_def split: main_phase.splits)
next
  case (down_copy c)
  then show ?thesis using copy_step_weights [OF down_copy(3)] by (auto simp: tcp_weight_def)
next
  case (receive_clean nr)
  with assms(2) obtain e where "cp_phase (ts_down s) = Ended e" by (auto simp: tcp_inv_def)
  with receive_clean show ?thesis by (simp add: tcp_weight_def next_copy_def new_copy_weight)
next
  case (drain_again nr nw err)
  then show ?thesis
    using new_copy_weight(2) [OF drain_again(3), of "cp_out (ts_down s)"]
    by (simp add: tcp_weight_def next_copy_def drain_weight_def)
qed (simp_all add: tcp_weight_def split: main_phase.splits)

text \<open>The deadlines that are set.\<close>

definition armed :: "tcp_setup \<Rightarrow> tcp_state \<Rightarrow> bool" where
  "armed g s \<longleftrightarrow>
     (ts_client s \<noteq> Copying \<longrightarrow> ts_remote_dl s) \<and>
     (\<forall>err. ts_main s = MWait err \<longrightarrow> su_wakeable g \<longrightarrow> ts_client_dl s)"

lemma tcp_reachable_armed: "tcp_reachable g s \<Longrightarrow> armed g s"
proof (induction rule: tcp_reachable.induct)
  case start
  then show ?case by (simp add: armed_def tcp_start_def)
next
  case (step s s')
  from step.hyps(2) step.IH show ?case by cases (auto simp: armed_def next_copy_def)
qed

lemma copy_can_step:
  assumes "\<forall>e. cp_phase c \<noteq> Ended e" "sr_read_dl sr \<or> \<not> sr_silent sr" "\<not> sr_stalled sr"
  shows "\<exists>c'. copy_step sr c c'"
proof (cases "cp_phase c")
  case Reading
  obtain bs er s where rd: "is_read (cp_in c) tcpBufSize = ((bs, er), s)" by (metis prod.exhaust)
  from Reading rd assms(2) show ?thesis using copy_step.read copy_step.timeout by metis
next
  case (Writing bs er)
  with assms(3) show ?thesis using copy_step.written write_result.accepted by metis
qed (use assms(1) in simp)

lemma up_can_step:
  assumes "ts_client s = Copying" "ts_client_dl s \<or> \<not> su_client_silent g" "\<not> su_remote_stalled g"
  shows "\<exists>s'. tcp_step g s s'"
proof (cases "\<exists>e. cp_phase (ts_up s) = Ended e")
  case True
  then show ?thesis using up_end [OF assms(1)] by blast
next
  case False
  then have "\<exists>c. copy_step (up_around g s) (ts_up s) c"
    using assms(2,3) by (intro copy_can_step) (simp_all add: up_around_def)
  then show ?thesis using up_copy [OF assms(1)] by blast
qed

lemma down_can_step:
  assumes "ts_main s = MCopy \<or> (\<exists>a b. ts_main s = MDrain a b)"
    "ts_remote_dl s \<or> \<not> su_remote_silent g" "\<not> su_client_stalled g"
  shows "\<exists>s'. tcp_step g s s'"
proof (cases "\<exists>e. cp_phase (ts_down s) = Ended e")
  case True
  then obtain e where e: "cp_phase (ts_down s) = Ended e" by blast
  from assms(1) show ?thesis
  proof
    assume "ts_main s = MCopy"
    with e show ?thesis by (cases e) (metis down_eof down_deadline down_error)+
  next
    assume "\<exists>a b. ts_main s = MDrain a b"
    with e show ?thesis by (metis drain_again drain_end)
  qed
next
  case False
  then have "\<exists>c. copy_step (down_around g s) (ts_down s) c"
    using assms(2,3) by (intro copy_can_step) (simp_all add: down_around_def)
  then show ?thesis using down_copy [OF assms(1)] by blast
qed

text \<open>At least one peer ends, or one of the two copies has ended already.\<close>

definition someone_ends :: "tcp_setup \<Rightarrow> tcp_state \<Rightarrow> bool" where
  "someone_ends g s \<longleftrightarrow>
     ts_client s \<noteq> Copying \<or> ts_main s \<noteq> MCopy \<or> \<not> su_client_silent g \<or> \<not> su_remote_silent g"

lemma someone_ends_step: "tcp_step g s s' \<Longrightarrow> someone_ends g s \<Longrightarrow> someone_ends g s'"
  by (erule tcp_stepE) (auto simp: someone_ends_def next_copy_def)

lemma tcp_progress:
  assumes "tcp_reachable g s" "someone_ends g s" "\<not> returned s"
    "su_wakeable g" "\<not> su_client_stalled g" "\<not> su_remote_stalled g"
  shows "\<exists>s'. tcp_step g s s'"
proof -
  note inv = tcp_reachable_inv [OF assms(1)] and arm = tcp_reachable_armed [OF assms(1)]
  show ?thesis
  proof (cases "ts_main s")
    case MCopy
    then consider "ts_client s = Sending" | "ts_client s = Copying" "\<not> su_client_silent g"
      | "ts_client s = Copying" "\<not> su_remote_silent g"
      using assms(2) inv by (cases "ts_client s") (auto simp: someone_ends_def tcp_inv_def)
    then show ?thesis
      using MCopy arm assms(5,6) up_can_step down_can_step by cases (auto simp: armed_def)
  next
    case MSelect
    then show ?thesis using timer by blast
  next
    case (MWait err)
    show ?thesis
    proof (cases "ts_client s")
      case Copying
      with MWait arm assms(4,6) show ?thesis by (intro up_can_step) (auto simp: armed_def)
    next
      case Sending
      with MWait show ?thesis using receive by (metis prod.exhaust)
    qed (use MWait inv in \<open>simp add: tcp_inv_def\<close>)
  next
    case (MDrain nr nw)
    with inv arm have "ts_remote_dl s" by (simp add: tcp_inv_def armed_def)
    with MDrain assms(5) show ?thesis by (intro down_can_step) auto
  next
    case (MReturned nr nw err)
    with assms(3) show ?thesis by (simp add: returned_def)
  qed
qed

text \<open>On every way from a state the session returns; none is stuck and none goes on for ever.\<close>

inductive surely_returns :: "tcp_setup \<Rightarrow> tcp_state \<Rightarrow> bool" for g where
  over: "returned s \<Longrightarrow> surely_returns g s"
| on: "tcp_step g s s1 \<Longrightarrow> (\<And>s'. tcp_step g s s' \<Longrightarrow> surely_returns g s') \<Longrightarrow> surely_returns g s"

lemma someone_ends_returns:
  assumes "tcp_reachable g s" "someone_ends g s" "su_wakeable g"
    "\<not> su_client_stalled g" "\<not> su_remote_stalled g"
  shows "surely_returns g s"
  using assms(1,2)
proof (induction "tcp_weight s" arbitrary: s rule: less_induct)
  case less
  show ?case
  proof (cases "returned s")
    case False
    then obtain s1 where "tcp_step g s s1"
      using tcp_progress [OF less.prems False assms(3-5)] by blast
    then show ?thesis
    proof (rule surely_returns.on)
      fix s' assume st: "tcp_step g s s'"
      show "surely_returns g s'"
        by (rule less.hyps [OF tcp_step_weight [OF st tcp_reachable_inv [OF less.prems(1)]]
              tcp_reachable.step [OF less.prems(1) st] someone_ends_step [OF st less.prems(2)]])
    qed
  qed (rule surely_returns.over)
qed

text \<open>
  C11: a session ends as soon as one of its peers does. When the peers take what is written to
  them and the client's side can be woken through its read deadline, then, as soon as one of
  the peers closes or fails or one of the two copies has ended, every continuation reaches the
  return of \<open>HandleTCP\<close>: whatever the order of the steps, the other goroutine is woken from a
  read of a silent peer, both meet at the channel, and the drain loop stops.
\<close>

theorem sessions_end:
  assumes "tcp_reachable g s" "someone_ends g s" "su_wakeable g"
    "\<not> su_client_stalled g" "\<not> su_remote_stalled g"
  shows "surely_returns g s"
  by (rule someone_ends_returns [OF assms])

text \<open>A client that sends two bytes and ends, and a remote that answers and then is silent.\<close>

definition demo_setup :: tcp_setup where
  "demo_setup =
     \<lparr>su_client = \<lparr>is_chunks = [[1, 2]], is_last = [], is_err = EOF\<rparr>,
      su_remote = \<lparr>is_chunks = [[3]], is_last = [], is_err = EOF\<rparr>,
      su_client_silent = False, su_remote_silent = True, su_client_stalled = False,
      su_remote_stalled = False, su_timeout = NetTimeout, su_wakeable = True\<rparr>"

lemma demo_setup_ends:
  "tcp_reachable demo_setup (tcp_start demo_setup)" "someone_ends demo_setup (tcp_start demo_setup)"
  "su_wakeable demo_setup" "\<not> su_client_stalled demo_setup" "\<not> su_remote_stalled demo_setup"
  by (rule tcp_reachable.start) (simp_all add: someone_ends_def demo_setup_def)

theorem sessions_end_witness: "surely_returns demo_setup (tcp_start demo_setup)"
  by (rule sessions_end [OF demo_setup_ends])

lemma surely_returns_reaches:
  "surely_returns g s \<Longrightarrow> tcp_reachable g s \<Longrightarrow> \<exists>s'. tcp_reachable g s' \<and> returned s'"
  by (induction rule: surely_returns.induct) (auto intro: tcp_reachable.step)

theorem interleavings_are_HandleTCP_witness:
  "\<exists>s nr nw err. ts_main s = MReturned nr nw err \<and> tcp_reachable demo_setup s \<and>
    (\<exists>run. HandleTCP (seen demo_setup s) \<lparr>addr_data = encode_addr (HostDomain [104]) 80\<rparr> = Returns run \<and>
      tcp_nr run = nr \<and> tcp_nw run = nw \<and> tcp_err run = err)"
proof -
  obtain s nr nw err where s: "tcp_reachable demo_setup s" "ts_main s = MReturned nr nw err"
    using surely_returns_reaches [OF someone_ends_returns [OF demo_setup_ends] demo_setup_ends(1)]
    by (auto simp: returned_def)
  with interleavings_are_HandleTCP [OF s demo_addr] show ?thesis by blast
qed

text \<open>
  C31: the end of a remote does not bound a write to it. When the remote has closed its side and
  reads no more, and the client sends data, the session is stuck: the client's goroutine is in
  a \<open>Write\<close> for which no deadline is set, the main one waits for its result, and the read
  deadline that was set for this case does not reach it. Only the branch for other errors of
  the remote sets a write deadline.
\<close>

theorem stalled_remote_hangs:
  assumes "bs \<noteq> []" "length bs \<le> tcpBufSize"
    "su_client g = \<lparr>is_chunks = [bs], is_last = [], is_err = EOF\<rparr>"
    "su_remote g = \<lparr>is_chunks = [], is_last = [], is_err = EOF\<rparr>"
    "su_remote_stalled g" "\<not> su_remote_silent g"
  shows "\<exists>s. tcp_reachable g s \<and> ts_main s = MWait None \<and> (su_wakeable g \<longrightarrow> ts_client_dl s) \<and>
    (\<forall>s'. \<not> tcp_step g s s')"
proof -
  let ?s0 = "tcp_start g"
  let ?up = "(ts_up ?s0)\<lparr>cp_in := \<lparr>is_chunks = [], is_last = [], is_err = EOF\<rparr>, cp_phase := Writing bs None\<rparr>"
  let ?s1 = "?s0\<lparr>ts_up := ?up\<rparr>"
  have "is_read (cp_in (ts_up ?s0)) tcpBufSize = ((bs, None), \<lparr>is_chunks = [], is_last = [], is_err = EOF\<rparr>)"
    using assms(2,3) by (simp add: tcp_start_def new_copy_def is_read_def)
  moreover have "cp_phase (ts_up ?s0) = Reading" "ts_client ?s0 = Copying"
    by (simp_all add: tcp_start_def new_copy_def)
  ultimately have 1: "tcp_step g ?s0 ?s1"
    using tcp_step.up_copy [OF _ copy_step.read] assms(1) by (fastforce simp: after_read_def)
  let ?down = "copied [] (Some EOF) (0, None) (ts_down ?s0)"
  let ?s2 = "?s1\<lparr>ts_down := ?down\<rparr>"
  have "is_read (cp_in (ts_down ?s1)) tcpBufSize = (([], Some EOF), cp_in (ts_down ?s1))"
    using assms(4) by (simp add: tcp_start_def new_copy_def is_read_def)
  moreover have "cp_phase (ts_down ?s1) = Reading" "ts_main ?s1 = MCopy"
    "(ts_down ?s1)\<lparr>cp_in := cp_in (ts_down ?s1)\<rparr> = ts_down ?s0"
    by (simp_all add: tcp_start_def new_copy_def)
  ultimately have "copy_step (down_around g ?s1) (ts_down ?s1) ?down"
    using copy_step.read [of "ts_down ?s1" "[]" "Some EOF" "cp_in (ts_down ?s1)" "down_around g ?s1"] assms(6)
    by (simp add: after_read_def down_around_def)
  then have 2: "tcp_step g ?s1 ?s2"
    by (intro tcp_step.down_copy) (simp_all add: tcp_start_def)
  let ?s3 = "?s2\<lparr>ts_main := MWait None, ts_client_dl := ts_client_dl ?s2 \<or> su_wakeable g\<rparr>"
  have "cp_phase (ts_down ?s2) = Ended None" by (simp add: copied_def)
  then have 3: "tcp_step g ?s2 ?s3"
    by (intro tcp_step.down_eof) (simp_all add: tcp_start_def)
  have "\<not> tcp_step g ?s3 s'" for s'
    using assms(5)
    by (auto simp: tcp_start_def up_around_def elim!: tcp_stepE copy_stepE write_result.cases)
  moreover have "tcp_reachable g ?s3"
    by (rule tcp_reachable.step [OF tcp_reachable.step [OF tcp_reachable.step [OF tcp_reachable.start 1] 2] 3])
  ultimately show ?thesis by (intro exI [of _ ?s3]) simp
qed

theorem stalled_remote_hangs_witness:
  "\<exists>s. tcp_reachable (demo_setup\<lparr>su_remote := \<lparr>is_chunks = [], is_last = [], is_err = EOF\<rparr>,
      su_remote_silent := False, su_remote_stalled := True\<rparr>) s \<and> ts_main s = MWait None \<and> ts_client_dl s"
  using stalled_remote_hangs [of "[1, 2]" "demo_setup\<lparr>su_remote := \<lparr>is_chunks = [], is_last = [], is_err = EOF\<rparr>,
      su_remote_silent := False, su_remote_stalled := True\<rparr>"]
  by (auto simp: demo_setup_def tcpBufSize_def)

end
