(* ===== verification/Trojan_Udp.thy ===== *)
theory Trojan_Udp
  imports Trojan_Tcp
begin

text \<open>
  The UDP tunnel of \<open>pkgs/trojan/trojan_udp.go\<close>. One goroutine reads frames
  (address, length, CRLF, payload) from the client and sends each payload to the address of
  its frame; the other turns every datagram received into a frame for the client. The
  buffers of the code are lists of bytes here, read and written through bounds-checked
  slices at the code's own offsets.
\<close>

section \<open>From the client to the network\<close>

definition errInvalidCRLF :: go_error where
  "errInvalidCRLF = Msg ''invalid CRLF terminator''"

text \<open>The packet connection as the sender sees it: the results of \<open>WriteTo\<close>, and what was sent.\<close>

record packet_conn =
  pc_script :: "go_error option list"
  pc_sent :: "(bytes \<times> net_addr option) list"

definition WriteTo :: "packet_conn \<Rightarrow> bytes \<Rightarrow> net_addr option \<Rightarrow> go_error option \<times> packet_conn" where
  "WriteTo pc buf addr =
     (case pc_script pc of
        [] \<Rightarrow> (None, pc\<lparr>pc_sent := pc_sent pc @ [(buf, addr)]\<rparr>)
      | None # sc \<Rightarrow> (None, pc\<lparr>pc_script := sc, pc_sent := pc_sent pc @ [(buf, addr)]\<rparr>)
      | Some e # sc \<Rightarrow> (Some e, pc\<lparr>pc_script := sc\<rparr>))"

text \<open>
  The variables of the loop: the client, the read buffer \<open>b\<close>, the address \<open>bb\<close> of the last
  frame, its resolution \<open>tt\<close> (nil at first), the byte count and the packet connection.
\<close>

record udp_up =
  uu_r :: istream
  uu_b :: bytes
  uu_bb :: bytes
  uu_tt :: "net_addr option"
  uu_nr :: int
  uu_rc :: packet_conn

type_synonym resolver = "string \<Rightarrow> go_error + bytes \<times> int"

definition udp_target :: "resolver \<Rightarrow> Addr \<Rightarrow> udp_up \<Rightarrow> (go_error + udp_up) outcome" where
  "udp_target dns raddr s =
     (if uu_bb s \<noteq> addr_data raddr then
        and_then (ResolveUDPAddr dns raddr) (\<lambda>x.
          case x of
            Inl e \<Rightarrow> Returns (Inl e)
          | Inr addr \<Rightarrow> Returns (Inr (s\<lparr>uu_bb := AppendTo raddr [], uu_tt := Some addr\<rparr>)))
      else Returns (Inr s))"

definition udp_send :: "udp_up \<Rightarrow> bytes \<Rightarrow> go_error \<times> udp_up + udp_up" where
  "udp_send s buf =
     (case WriteTo (uu_rc s) buf (uu_tt s) of
        (Some e, pc) \<Rightarrow> Inl (e, s\<lparr>uu_rc := pc\<rparr>)
      | (None, pc) \<Rightarrow> Inr (s\<lparr>uu_rc := pc\<rparr>))"

definition udp_payload :: "Addr \<Rightarrow> udp_up \<Rightarrow> (go_error \<times> udp_up + udp_up) outcome" where
  "udp_payload raddr s =
     (let l = Addr_Len raddr in
      and_then (ReadFullInto (uu_r s) (uu_b s) l (l + 4)) (\<lambda>(e, b, r).
        let s = s\<lparr>uu_b := b, uu_r := r\<rparr> in
        case e of
          Some e \<Rightarrow> Returns (Inl (e, s))
        | None \<Rightarrow>
            if b ! (l + 2) \<noteq> 0x0d \<or> b ! (l + 3) \<noteq> 0x0a then Returns (Inl (errInvalidCRLF, s))
            else
              let l' = l + be16 (b ! l) (b ! (l + 1));
                  s = s\<lparr>uu_nr := uu_nr s + (int l' + 4)\<rparr>
              in and_then (ReadFullInto r b (Addr_Len raddr) l') (\<lambda>(e, b, r).
                   let s = s\<lparr>uu_b := b, uu_r := r\<rparr> in
                   case e of
                     Some e \<Rightarrow> Returns (Inl (e, s))
                   | None \<Rightarrow>
                       and_then (slice b (Addr_Len raddr) l') (\<lambda>buf. Returns (udp_send s buf)))))"

text \<open>One round of the loop: \<open>Inl\<close> leaves it with the error that ended it.\<close>

definition udp_up_step :: "resolver \<Rightarrow> udp_up \<Rightarrow> (go_error \<times> udp_up + udp_up) outcome" where
  "udp_up_step dns s =
     and_then (ReadAddrBuffer (uu_r s) (uu_b s)) (\<lambda>(x, b, r).
       let s = s\<lparr>uu_b := b, uu_r := r\<rparr> in
       case x of
         Inl e \<Rightarrow> Returns (Inl (e, s))
       | Inr raddr \<Rightarrow>
           and_then (udp_target dns raddr s) (\<lambda>y.
             case y of
               Inl e \<Rightarrow> Returns (Inl (e, s))
             | Inr s \<Rightarrow> udp_payload raddr s))"

lemma ReadFullInto_content:
  assumes "ReadFullInto r b lo hi = Returns (e, b', r')"
  shows "content r' = drop (hi - lo) (content r)" "length b' = length b"
    "e = None \<longleftrightarrow> hi - lo \<le> length (content r)"
  using assms ReadFull_spec [of r "hi - lo"]
  by (auto simp: ReadFullInto_def split: if_splits)

lemma ReadAddrRest_content:
  assumes "ReadAddrRest r b n = Returns (x, b', r')"
  shows "content r' = drop (n - 2) (content r)" "length b' = length b"
proof -
  from assms obtain e b1 r1 where rd: "ReadFullInto r b 2 n = Returns (e, b1, r1)"
    and eq: "(case e of
        Some e \<Rightarrow> Returns (Inl e, b1, r1)
      | None \<Rightarrow> and_then (slice b1 0 n) (\<lambda>d. Returns (Inr \<lparr>addr_data = d\<rparr>, b1, r1))) = Returns (x, b', r')"
    unfolding ReadAddrRest_def by (auto elim!: and_then_ReturnsE)
  from eq have "b' = b1" "r' = r1" by (cases e; auto elim!: and_then_ReturnsE)+
  with ReadFullInto_content [OF rd]
  show "content r' = drop (n - 2) (content r)" "length b' = length b" by simp_all
qed

lemma ReadAddrBuffer_shrinks:
  assumes "ReadAddrBuffer r b = Returns (Inr a, b', r')"
  shows "length (content r') < length (content r)"
proof -
  from assms obtain b1 r1 where rd: "ReadFullInto r b 0 2 = Returns (None, b1, r1)"
    and n: "\<exists>n. ReadAddrRest r1 b1 n = Returns (Inr a, b', r')"
    unfolding ReadAddrBuffer_def
    by (auto elim!: and_then_ReturnsE split: option.splits if_splits; blast)
  from ReadFullInto_content [OF rd] have "length (content r1) < length (content r)" by auto
  with n show ?thesis by (auto dest: ReadAddrRest_content(1))
qed

lemma udp_target_reader: "udp_target dns raddr s = Returns (Inr s') \<Longrightarrow> uu_r s' = uu_r s"
  by (auto simp: udp_target_def elim!: and_then_ReturnsE split: if_splits sum.splits)

lemma udp_send_reader: "udp_send s buf = Inr s' \<Longrightarrow> uu_r s' = uu_r s"
  by (auto simp: udp_send_def split: prod.splits option.splits)

lemma udp_payload_suffix:
  assumes "udp_payload raddr s = Returns (Inr s')"
  shows "\<exists>m. content (uu_r s') = drop m (content (uu_r s))"
proof -
  let ?l = "Addr_Len raddr"
  from assms obtain b1 r1 where 1: "ReadFullInto (uu_r s) (uu_b s) ?l (?l + 4) = Returns (None, b1, r1)"
    and 2: "\<exists>l b2 r2. ReadFullInto r1 b1 ?l l = Returns (None, b2, r2) \<and> uu_r s' = r2"
    unfolding udp_payload_def Let_def
    by (auto elim!: and_then_ReturnsE split: option.splits if_splits dest!: udp_send_reader; blast)
  show ?thesis using 2 ReadFullInto_content(1) [OF 1] by (auto dest!: ReadFullInto_content(1))
qed

lemma udp_payload_shrinks:
  "udp_payload raddr s = Returns (Inr s') \<Longrightarrow>
    length (content (uu_r s')) \<le> length (content (uu_r s))"
  by (auto dest!: udp_payload_suffix)

lemma udp_up_step_shrinks:
  assumes "udp_up_step dns s = Returns (Inr s')"
  shows "length (content (uu_r s')) < length (content (uu_r s))"
proof -
  from assms obtain raddr b r t where
    1: "ReadAddrBuffer (uu_r s) (uu_b s) = Returns (Inr raddr, b, r)"
    and 2: "udp_target dns raddr (s\<lparr>uu_b := b, uu_r := r\<rparr>) = Returns (Inr t)"
    and 3: "udp_payload raddr t = Returns (Inr s')"
    unfolding udp_up_step_def Let_def
    by (auto elim!: and_then_ReturnsE split: sum.splits)
  from ReadAddrBuffer_shrinks [OF 1] udp_target_reader [OF 2] udp_payload_shrinks [OF 3]
  show ?thesis by simp
qed

function udp_up_loop :: "resolver \<Rightarrow> udp_up \<Rightarrow> (go_error \<times> udp_up) outcome" where
  "udp_up_loop dns s =
     (case udp_up_step dns s of
        Panics p \<Rightarrow> Panics p
      | Returns (Inl x) \<Rightarrow> Returns x
      | Returns (Inr s') \<Rightarrow> udp_up_loop dns s')"
  by pat_completeness auto
termination
  by (relation "measure (\<lambda>(dns, s). length (content (uu_r s)))") (auto intro: udp_up_step_shrinks)

declare udp_up_loop.simps [simp del]

definition udp_init :: "istream \<Rightarrow> packet_conn \<Rightarrow> udp_up" where
  "udp_init r pc =
     \<lparr>uu_r = r, uu_b = replicate (64 * 1024 + MaxAddrLen) 0, uu_bb = replicate MaxAddrLen 0,
      uu_tt = None, uu_nr = 0, uu_rc = pc\<rparr>"

text \<open>The deferred function: clean ends become nil.\<close>

definition udp_uplink ::
  "resolver \<Rightarrow> istream \<Rightarrow> packet_conn \<Rightarrow> (int \<times> go_error option \<times> packet_conn) outcome" where
  "udp_uplink dns r pc =
     and_then (udp_up_loop dns (udp_init r pc)) (\<lambda>(err, s).
       Returns (uu_nr s,
         if errors_Is err EOF \<or> errors_Is err ErrClosedPipe \<or> isTimeoutError (Some err) then None
         else Some err,
         uu_rc s))"

section \<open>From the network to the client\<close>

abbreviation udp_buf_len :: nat where "udp_buf_len \<equiv> 64 * 1024 + MaxAddrLen + 4"

text \<open>
  The header in front of the payload: the address ends at \<open>MaxAddrLen\<close>, so that address,
  length, CRLF and payload are contiguous. The result is the length of the address.
\<close>

definition put_udp_addr :: "bytes \<Rightarrow> bytes \<Rightarrow> int \<Rightarrow> nat \<times> bytes" where
  "put_udp_addr bb ip port =
     (case To4 ip of
        Some ipv4 \<Rightarrow>
          (let offset = MaxAddrLen - (1 + IPv4len + 2);
               bb = bb[offset := AddrTypeIPv4];
               bb = copy_at bb (offset + 1) ipv4;
               bb = bb[offset + 1 + IPv4len := byte_hi port, offset + 1 + IPv4len + 1 := byte_lo port]
           in (1 + IPv4len + 2, bb))
      | None \<Rightarrow>
          (let offset = MaxAddrLen - (1 + IPv6len + 2);
               bb = bb[offset := AddrTypeIPv6];
               bb = copy_at bb (offset + 1) (case To16 ip of Some ipv6 \<Rightarrow> ipv6 | None \<Rightarrow> []);
               bb = bb[offset + 1 + IPv6len := byte_hi port, offset + 1 + IPv6len + 1 := byte_lo port]
           in (1 + IPv6len + 2, bb)))"

text \<open>
  One datagram: \<open>ReadFrom\<close> into the tail of the buffer, which cuts it to the room there is,
  the length, the address, and the slice written to the client.
\<close>

definition udp_frame :: "bytes \<Rightarrow> bytes \<Rightarrow> bytes \<Rightarrow> int \<Rightarrow> (bytes \<times> bytes) outcome" where
  "udp_frame buf pkt ip port =
     (let n = min (length pkt) (length buf - (MaxAddrLen + 4));
          buf = copy_at buf (MaxAddrLen + 4) pkt;
          buf = buf[MaxAddrLen := byte_hi (int n), MaxAddrLen + 1 := byte_lo (int n)];
          (l, hdr) = put_udp_addr (take MaxAddrLen buf) ip port;
          buf = hdr @ drop MaxAddrLen buf
      in and_then (slice buf (MaxAddrLen - l) (MaxAddrLen + 4 + n)) (\<lambda>f. Returns (f, buf)))"

datatype udp_act = ClientReadDeadline deadline | WriterReadDeadline deadline | RcWriteDeadlineNow

text \<open>
  The loop over the datagrams the socket delivers, which ends with the error of \<open>ReadFrom\<close>,
  of \<open>Write\<close>, or with an address that is not a \<open>*net.UDPAddr\<close>. The count \<open>nw\<close> is passed
  along as the code passes it: no statement changes it.
\<close>

fun udp_downlink ::
  "bool \<Rightarrow> ostream \<Rightarrow> bytes \<Rightarrow> (bytes \<times> net_addr) list \<Rightarrow> go_error \<Rightarrow> int
    \<Rightarrow> (int \<times> go_error \<times> udp_act list \<times> ostream) outcome" where
  "udp_downlink wk w buf [] err nw = Returns (nw, err, [], w)"
| "udp_downlink wk w buf ((pkt, UDPAddr ip port) # ps) err nw =
     and_then (udp_frame buf pkt ip port) (\<lambda>(f, buf').
       case os_write w f of
         ((_, Some ew), w') \<Rightarrow> Returns (nw, ew, [], w')
       | ((_, None), w') \<Rightarrow> udp_downlink wk w' buf' ps err nw)"
| "udp_downlink wk w buf ((pkt, TCPAddr ip port) # ps) err nw =
     Returns (nw, Msg ''handle udp error: unsupported packet address type *net.TCPAddr'',
       if wk then [ClientReadDeadline Now] else [], w)"
| "udp_downlink wk w buf ((pkt, SocksAddr a) # ps) err nw =
     Returns (nw, Msg ''handle udp error: unsupported packet address type *socks.Addr'',
       if wk then [ClientReadDeadline Now] else [], w)"
| "udp_downlink wk w buf ((pkt, OtherAddr t) # ps) err nw =
     Returns (nw, Msg (''handle udp error: unsupported packet address type '' @ t),
       if wk then [ClientReadDeadline Now] else [], w)"

definition udp_write_buf :: bytes where
  "udp_write_buf = (replicate udp_buf_len 0)[MaxAddrLen + 2 := 0x0d, MaxAddrLen + 3 := 0x0a]"

section \<open>HandleUDP\<close>

record udp_env =
  udp_alloc_byte_err :: "go_error option"
  listen_packet :: "go_error option"
  alloc_prev :: "go_error option"
  alloc_read :: "go_error option"
  alloc_write :: "go_error option"
  udp_dns :: resolver
  client :: istream
  sock :: packet_conn
  packets :: "(bytes \<times> net_addr) list"
  packets_end :: go_error
  client_writer :: ostream
  client_wakeable :: bool
  writer_wakeable :: bool

record udp_run =
  udp_nr :: int
  udp_nw :: int
  udp_err :: "go_error option"
  udp_acts :: "udp_act list"
  udp_sent :: "(bytes \<times> net_addr option) list"
  udp_to_client :: bytes

definition udp_failed :: "go_error \<Rightarrow> udp_env \<Rightarrow> udp_run" where
  "udp_failed e env =
     \<lparr>udp_nr = 0, udp_nw = 0, udp_err = Some e, udp_acts = [], udp_sent = pc_sent (sock env),
      udp_to_client = os_data (client_writer env)\<rparr>"

definition first_error :: "go_error option list \<Rightarrow> go_error option" where
  "first_error es = (case filter (\<lambda>e. e \<noteq> None) es of [] \<Rightarrow> None | e # _ \<Rightarrow> e)"

definition HandleUDP :: "udp_env \<Rightarrow> udp_run outcome" where
  "HandleUDP env =
     (case allocShortCircuit (udp_alloc_byte_err env) of
        Some e \<Rightarrow> Returns (udp_failed e env)
      | None \<Rightarrow>
     (case listen_packet env of
        Some e \<Rightarrow> Returns (udp_failed e env)
      | None \<Rightarrow>
     (case first_error [alloc_prev env, alloc_read env, alloc_write env] of
        Some e \<Rightarrow> Returns (udp_failed (Wrap ''memory alloc error'' e) env)
      | None \<Rightarrow>
          and_then (udp_uplink (udp_dns env) (client env) (sock env)) (\<lambda>(num, rerr, pc).
          and_then (udp_downlink (client_wakeable env) (client_writer env) udp_write_buf
                      (packets env) (packets_end env) 0) (\<lambda>(nw, err, acts, w).
            Returns
              \<lparr>udp_nr = num, udp_nw = nw,
               udp_err = (if rerr \<noteq> None then rerr
                          else if isTimeoutError (Some err) then None else Some err),
               udp_acts = acts @ [RcWriteDeadlineNow]
                 @ (if writer_wakeable env then [WriterReadDeadline Now] else []),
               udp_sent = pc_sent pc, udp_to_client = os_data w\<rparr>)))))"

section \<open>Frames\<close>

definition encode_frame :: "host \<Rightarrow> int \<Rightarrow> bytes \<Rightarrow> bytes" where
  "encode_frame h p d =
     encode_addr h p @ [byte_hi (int (length d)), byte_lo (int (length d)), 0x0d, 0x0a] @ d"

definition resolved :: "resolver \<Rightarrow> host \<Rightarrow> int \<Rightarrow> net_addr option" where
  "resolved dns h p =
     (case resolve_with dns \<lparr>addr_data = encode_addr h p\<rparr> of
        Returns (Inr (ip, q)) \<Rightarrow> Some (UDPAddr ip q)
      | _ \<Rightarrow> None)"

lemma resolved_Some:
  "resolved dns h p = Some t \<Longrightarrow>
    ResolveUDPAddr dns \<lparr>addr_data = encode_addr h p\<rparr> = Returns (Inr t)"
  by (auto simp: resolved_def ResolveUDPAddr_def split: outcome.splits sum.splits)

text \<open>The cached resolution belongs to the cached address, once there is one.\<close>

definition cache_ok :: "resolver \<Rightarrow> udp_up \<Rightarrow> bool" where
  "cache_ok dns s \<longleftrightarrow>
     (\<forall>h p t. uu_bb s = encode_addr h p \<longrightarrow> wf_host h \<longrightarrow> resolved dns h p = Some t \<longrightarrow> uu_tt s = Some t)"

lemma udp_target_resolved:
  assumes "cache_ok dns s" "wf_host h" "resolved dns h p = Some t"
  shows "\<exists>s'. udp_target dns \<lparr>addr_data = encode_addr h p\<rparr> s = Returns (Inr s') \<and>
    s' = s\<lparr>uu_bb := encode_addr h p, uu_tt := Some t\<rparr>"
proof (cases "uu_bb s = encode_addr h p")
  case True
  with assms have "uu_tt s = Some t" by (auto simp: cache_ok_def)
  with True show ?thesis by (simp add: udp_target_def)
next
  case False
  with resolved_Some [OF assms(3)] show ?thesis by (simp add: udp_target_def AppendTo_def)
qed

lemma udp_payload_frame:
  assumes "content (uu_r s) = [byte_hi (int (length d)), byte_lo (int (length d)), 0x0d, 0x0a] @ d @ rest"
    "length d < 65536" "length a + 65536 \<le> length (uu_b s)" "pc_script (uu_rc s) = []"
  shows "\<exists>s'. udp_payload \<lparr>addr_data = a\<rparr> s = Returns (Inr s') \<and> content (uu_r s') = rest \<and>
    is_err (uu_r s') = is_err (uu_r s) \<and> length (uu_b s') = length (uu_b s) \<and>
    uu_bb s' = uu_bb s \<and> uu_tt s' = uu_tt s \<and>
    uu_nr s' = uu_nr s + int (length a + length d + 4) \<and>
    uu_rc s' = \<lparr>pc_script = [], pc_sent = pc_sent (uu_rc s) @ [(d, uu_tt s)]\<rparr>"
proof -
  let ?l = "length a"
  let ?h = "[byte_hi (int (length d)), byte_lo (int (length d)), 0x0d, 0x0a]"
  let ?b1 = "copy_at (uu_b s) ?l ?h"
  have "?l \<le> ?l + 4" "?l + 4 \<le> length (uu_b s)" "?l + 4 - ?l \<le> length (content (uu_r s))"
    using assms(1,3) by auto
  from ReadFullInto_enough [OF this] obtain r1
    where 1: "ReadFullInto (uu_r s) (uu_b s) ?l (?l + 4) = Returns (None, ?b1, r1)"
      "content r1 = d @ rest" "is_err r1 = is_err (uu_r s)"
    using assms(1) by (auto simp: eval_nat_numeral)
  have b1: "?b1 ! (?l + i) = ?h ! i" if "i < 4" for i
    using nth_copy_at [of ?l ?h "uu_b s" i] assms(3) that by simp
  have len: "be16 (?b1 ! ?l) (?b1 ! (?l + 1)) = length d"
    using b1 [of 0] b1 [of 1] be16_byte_hi_lo [of "int (length d)"] assms(2) by simp
  have "?l \<le> ?l + length d" "?l + length d \<le> length ?b1" "?l + length d - ?l \<le> length (content r1)"
    using assms(2,3) 1(2) by auto
  from ReadFullInto_enough [OF this] obtain r2
    where 2: "ReadFullInto r1 ?b1 ?l (?l + length d) = Returns (None, copy_at ?b1 ?l d, r2)"
      "content r2 = rest" "is_err r2 = is_err r1"
    using 1(2) by auto
  have sl: "slice (copy_at ?b1 ?l d) ?l (?l + length d) = Returns d"
    using assms(2,3) by (intro slice_copy_at) simp
  show ?thesis
    using 1 2 sl b1 [of 2] b1 [of 3] len assms(2,3,4)
    by (simp add: udp_payload_def udp_send_def WriteTo_def Addr_Len_def Let_def)
qed

lemma udp_step_frame:
  assumes "wf_host h" "length d < 65536" "content (uu_r s) = encode_frame h p d @ rest"
    "length (uu_b s) = 65536 + MaxAddrLen" "resolved dns h p = Some t" "cache_ok dns s"
    "pc_script (uu_rc s) = []"
  shows "\<exists>s'. udp_up_step dns s = Returns (Inr s') \<and> content (uu_r s') = rest \<and>
    is_err (uu_r s') = is_err (uu_r s) \<and> length (uu_b s') = length (uu_b s) \<and> cache_ok dns s' \<and>
    uu_nr s' = uu_nr s + int (length (encode_frame h p d)) \<and>
    uu_rc s' = \<lparr>pc_script = [], pc_sent = pc_sent (uu_rc s) @ [(d, Some t)]\<rparr>"
proof -
  let ?a = "encode_addr h p"
  let ?h = "[byte_hi (int (length d)), byte_lo (int (length d)), 0x0d, 0x0a]"
  have c: "content (uu_r s) = ?a @ (?h @ d @ rest)" using assms(3) by (simp add: encode_frame_def)
  have big: "MaxAddrLen \<le> length (uu_b s)" using assms(4) by simp
  obtain b r where 1: "ReadAddrBuffer (uu_r s) (uu_b s) = Returns (Inr \<lparr>addr_data = ?a\<rparr>, b, r)"
    "content r = ?h @ d @ rest" "is_err r = is_err (uu_r s)" "length b = length (uu_b s)"
    using ReadAddrBuffer_prefix [OF big c wf_encode_addr [OF assms(1)]] by metis
  let ?s1 = "s\<lparr>uu_b := b, uu_r := r\<rparr>"
  have "cache_ok dns ?s1" using assms(6) by (simp add: cache_ok_def)
  from udp_target_resolved [OF this assms(1,5)] obtain s2
    where 2: "udp_target dns \<lparr>addr_data = ?a\<rparr> ?s1 = Returns (Inr s2)"
      "s2 = ?s1\<lparr>uu_bb := ?a, uu_tt := Some t\<rparr>" by blast
  have pre: "content (uu_r s2) = ?h @ d @ rest" "length ?a + 65536 \<le> length (uu_b s2)"
    "pc_script (uu_rc s2) = []"
    using 1 2 assms(4,7) encode_addr_length [OF assms(1)] by simp_all
  from udp_payload_frame [OF pre(1) assms(2) pre(2,3)] obtain s3
    where 3: "udp_payload \<lparr>addr_data = ?a\<rparr> s2 = Returns (Inr s3)" "content (uu_r s3) = rest"
      "is_err (uu_r s3) = is_err (uu_r s2)" "length (uu_b s3) = length (uu_b s2)"
      "uu_bb s3 = ?a" "uu_tt s3 = Some t" "uu_nr s3 = uu_nr s2 + int (length ?a + length d + 4)"
      "uu_rc s3 = \<lparr>pc_script = [], pc_sent = pc_sent (uu_rc s2) @ [(d, Some t)]\<rparr>"
    using 2 by auto
  have "cache_ok dns s3"
    using 3(5,6) assms(5) by (auto simp: cache_ok_def resolved_def)
  then show ?thesis
    using 1 2 3 by (simp add: udp_up_step_def encode_frame_def)
qed

text \<open>A datagram as host, port and payload, and when the client may send it.\<close>

type_synonym datagram = "host \<times> int \<times> bytes"

definition frame_of :: "datagram \<Rightarrow> bytes" where
  "frame_of g = (case g of (h, p, d) \<Rightarrow> encode_frame h p d)"

definition datagram_ok :: "resolver \<Rightarrow> datagram \<Rightarrow> bool" where
  "datagram_ok dns g =
     (case g of (h, p, d) \<Rightarrow> wf_host h \<and> length d < 65536 \<and> resolved dns h p \<noteq> None)"

definition delivery :: "resolver \<Rightarrow> datagram \<Rightarrow> bytes \<times> net_addr option" where
  "delivery dns g = (case g of (h, p, d) \<Rightarrow> (d, resolved dns h p))"

lemma udp_up_loop_frames:
  assumes "\<forall>g \<in> set gs. datagram_ok dns g" "content (uu_r s) = concat (map frame_of gs)"
    "length (uu_b s) = 65536 + MaxAddrLen" "cache_ok dns s" "pc_script (uu_rc s) = []"
  shows "\<exists>s'. udp_up_loop dns s = Returns (is_err (uu_r s), s') \<and>
    uu_nr s' = uu_nr s + int (length (content (uu_r s))) \<and>
    uu_rc s' = \<lparr>pc_script = [], pc_sent = pc_sent (uu_rc s) @ map (delivery dns) gs\<rparr>"
  using assms
proof (induction gs arbitrary: s)
  case Nil
  have two: "2 \<le> length (uu_b s)" "length (content (uu_r s)) < 2" using Nil.prems by simp_all
  from ReadAddrBuffer_no_head [OF two] Nil.prems(2) obtain b r
    where "ReadAddrBuffer (uu_r s) (uu_b s) = Returns (Inl (is_err (uu_r s)), b, r)"
    by (auto simp: read_full_error_def)
  then show ?case
    using Nil.prems by (subst udp_up_loop.simps) (simp add: udp_up_step_def)
next
  case (Cons g gs)
  obtain h p d where g: "g = (h, p, d)" by (cases g)
  then obtain t where ok: "wf_host h" "length d < 65536" "resolved dns h p = Some t"
    using Cons.prems(1) by (auto simp: datagram_ok_def)
  have fr: "frame_of g = encode_frame h p d" using g by (simp add: frame_of_def)
  have c: "content (uu_r s) = encode_frame h p d @ concat (map frame_of gs)"
    using Cons.prems(2) fr by simp
  from udp_step_frame [OF ok(1,2) c Cons.prems(3) ok(3) Cons.prems(4,5)] obtain s1
    where s1: "udp_up_step dns s = Returns (Inr s1)" "content (uu_r s1) = concat (map frame_of gs)"
      "is_err (uu_r s1) = is_err (uu_r s)" "length (uu_b s1) = length (uu_b s)" "cache_ok dns s1"
      "uu_nr s1 = uu_nr s + int (length (encode_frame h p d))"
      "uu_rc s1 = \<lparr>pc_script = [], pc_sent = pc_sent (uu_rc s) @ [(d, Some t)]\<rparr>" by blast
  have "\<exists>s'. udp_up_loop dns s1 = Returns (is_err (uu_r s1), s') \<and>
    uu_nr s' = uu_nr s1 + int (length (content (uu_r s1))) \<and>
    uu_rc s' = \<lparr>pc_script = [], pc_sent = pc_sent (uu_rc s1) @ map (delivery dns) gs\<rparr>"
    by (rule Cons.IH) (use Cons.prems s1 in simp_all)
  then show ?case
    using s1 c ok(3) g by (subst udp_up_loop.simps) (auto simp: delivery_def)
qed

lemma not_wf_zeros: "\<not> wf_addr (replicate MaxAddrLen 0)"
  by (simp add: MaxAddrLen_def addr_size_def addr_types eval_nat_numeral)

lemma cache_ok_init: "cache_ok dns (udp_init r pc)"
  unfolding cache_ok_def udp_init_def
  by (metis udp_up.select_convs(3) wf_encode_addr not_wf_zeros)

lemma udp_uplink_run:
  assumes "\<forall>g \<in> set gs. datagram_ok dns g" "content r = concat (map frame_of gs)" "is_err r = EOF"
    "pc_script pc = []"
  shows "udp_uplink dns r pc =
    Returns (int (length (content r)), None,
      \<lparr>pc_script = [], pc_sent = pc_sent pc @ map (delivery dns) gs\<rparr>)"
proof -
  have "content (uu_r (udp_init r pc)) = concat (map frame_of gs)"
    "length (uu_b (udp_init r pc)) = 65536 + MaxAddrLen" "pc_script (uu_rc (udp_init r pc)) = []"
    using assms by (simp_all add: udp_init_def)
  from udp_up_loop_frames [OF assms(1) this(1,2) cache_ok_init this(3)]
  show ?thesis using assms(3) by (auto simp: udp_uplink_def udp_init_def)
qed

text \<open>
  The datagrams of a client are forwarded one by one, in order, each payload complete and
  to the address of its own frame, however the frames are split into chunks and although
  resolutions are cached from one frame to the next; the count is the number of bytes the
  client sent, and the end of the client's stream is not an error.
\<close>

theorem udp_uplink_forwards:
  assumes "\<forall>g \<in> set gs. datagram_ok dns g" "content r = concat (map frame_of gs)" "is_err r = EOF"
    "pc_script pc = []"
  shows "udp_uplink dns r pc =
    Returns (int (length (content r)), None,
      \<lparr>pc_script = [], pc_sent = pc_sent pc @ map (delivery dns) gs\<rparr>)"
  by (rule udp_uplink_run [OF assms])

definition demo_dns :: resolver where
  "demo_dns = (\<lambda>_. Inr ([9, 9, 9, 9], 53))"

lemma demo_datagrams:
  "\<forall>g \<in> set [(HostIPv4 [1, 2, 3, 4], 80, [7]), (HostDomain [104], 53, [8, 8])].
     datagram_ok demo_dns g"
  by (simp add: datagram_ok_def resolved_def resolve_with_def demo_dns_def encode_addr_def
      addr_types fixed_ip_port_def slice_def port_at_def index_def Addr_String_def)

theorem udp_uplink_forwards_witness:
  "udp_uplink demo_dns
     \<lparr>is_chunks = [frame_of (HostIPv4 [1, 2, 3, 4], 80, [7])],
      is_last = frame_of (HostDomain [104], 53, [8, 8]), is_err = EOF\<rparr>
     \<lparr>pc_script = [], pc_sent = []\<rparr> =
   Returns (int (length (content
     \<lparr>is_chunks = [frame_of (HostIPv4 [1, 2, 3, 4], 80, [7])],
      is_last = frame_of (HostDomain [104], 53, [8, 8]), is_err = EOF\<rparr>)), None,
     \<lparr>pc_script = [], pc_sent = map (delivery demo_dns)
        [(HostIPv4 [1, 2, 3, 4], 80, [7]), (HostDomain [104], 53, [8, 8])]\<rparr>)"
  using udp_uplink_forwards [OF demo_datagrams, of "\<lparr>is_chunks = [frame_of (HostIPv4 [1, 2, 3, 4], 80, [7])],
      is_last = frame_of (HostDomain [104], 53, [8, 8]), is_err = EOF\<rparr>" "\<lparr>pc_script = [], pc_sent = []\<rparr>"]
  by (simp add: content_def)

section \<open>Frames for the client\<close>

text \<open>The write buffer: its length, and the CRLF in front of the payload.\<close>

definition write_buf_ok :: "bytes \<Rightarrow> bool" where
  "write_buf_ok buf \<longleftrightarrow>
     length buf = udp_buf_len \<and> buf ! (MaxAddrLen + 2) = 0x0d \<and> buf ! (MaxAddrLen + 3) = 0x0a"

lemma write_buf_init: "write_buf_ok udp_write_buf"
  by (simp add: write_buf_ok_def udp_write_buf_def)

lemma take_4_drop:
  "k + 4 \<le> length xs \<Longrightarrow> take 4 (drop k xs) = [xs ! k, xs ! (k + 1), xs ! (k + 2), xs ! (k + 3)]"
  by (intro nth_equalityI) (auto simp: less_Suc_eq numeral_eq_Suc)

lemma tail_update:
  assumes "length pre = off" "length ys = n" "length ip = n"
  shows "(copy_at ((pre @ x # ys @ [r0, r1])[off := t]) (off + 1) ip)
      [off + 1 + n := a, off + 1 + n + 1 := b] = pre @ t # ip @ [a, b]"
  using assms by (simp add: copy_at_def list_update_append)

lemma split_at_tail:
  assumes "length bb = off + n + 3"
  obtains pre x ys r0 r1 where "bb = pre @ x # ys @ [r0, r1]" "length pre = off" "length ys = n"
proof -
  have "2 \<le> length (drop (off + 1) bb)" using assms by simp
  then obtain ys r0 r1 where d: "drop (off + 1) bb = ys @ [r0, r1]" using last_two by blast
  have "bb = take off bb @ bb ! off # ys @ [r0, r1]"
    using assms d by (metis Suc_eq_plus1 add_lessD1 append_take_drop_id Cons_nth_drop_Suc
        less_add_Suc1 numeral_3_eq_3 add_Suc_right)
  moreover have "length ys = n" using arg_cong [OF d, of length] assms by simp
  ultimately show thesis using that assms by (metis length_take min.absorb2 add.assoc le_add1)
qed

lemma put_udp_addr_encode:
  assumes "length ip = IPv4len \<or> length ip = IPv6len" "length bb = MaxAddrLen"
    "put_udp_addr bb ip port = (l, hdr)"
  shows "length hdr = MaxAddrLen \<and> l = length (encode_addr (host_of_ip ip) port) \<and>
    drop (MaxAddrLen - l) hdr = encode_addr (host_of_ip ip) port \<and> l \<le> MaxAddrLen"
proof (cases "To4 ip")
  case (Some x)
  have "length bb = 252 + 4 + 3" using assms(2) by (simp add: MaxAddrLen_def)
  then obtain pre y ys r0 r1 where bb: "bb = pre @ y # ys @ [r0, r1]" "length pre = 252"
    "length ys = 4" by (rule split_at_tail)
  have "hdr = pre @ AddrTypeIPv4 # x @ [byte_hi port, byte_lo port]" "l = 7"
    using assms(3) Some bb To4_length [OF Some]
      tail_update [of pre 252 ys 4 x y r0 r1 AddrTypeIPv4 "byte_hi port" "byte_lo port"]
    by (auto simp: put_udp_addr_def MaxAddrLen_def Let_def)
  then show ?thesis
    using Some bb To4_length [OF Some]
    by (simp add: MaxAddrLen_def host_of_ip_def encode_addr_def)
next
  case None
  then have len: "length ip = 16" using To4_None assms(1) by blast
  have "length bb = 240 + 16 + 3" using assms(2) by (simp add: MaxAddrLen_def)
  then obtain pre y ys r0 r1 where bb: "bb = pre @ y # ys @ [r0, r1]" "length pre = 240"
    "length ys = 16" by (rule split_at_tail)
  have "hdr = pre @ AddrTypeIPv6 # ip @ [byte_hi port, byte_lo port]" "l = 19"
    using assms(3) None bb len
      tail_update [of pre 240 ys 16 ip y r0 r1 AddrTypeIPv6 "byte_hi port" "byte_lo port"]
    by (auto simp: put_udp_addr_def MaxAddrLen_def Let_def To16_def)
  then show ?thesis
    using None bb len by (simp add: MaxAddrLen_def host_of_ip_def encode_addr_def)
qed

lemma udp_frame_encode:
  assumes "write_buf_ok buf" "length pkt < 65536" "length ip = IPv4len \<or> length ip = IPv6len"
  shows "\<exists>buf'. udp_frame buf pkt ip port = Returns (encode_frame (host_of_ip ip) port pkt, buf') \<and>
    write_buf_ok buf'"
proof -
  let ?n = "length pkt"
  let ?len = "[byte_hi (int ?n), byte_lo (int ?n)]"
  have len: "length buf = MaxAddrLen + 4 + 65536" using assms(1) by (simp add: write_buf_ok_def)
  have n: "min ?n (length buf - (MaxAddrLen + 4)) = ?n" using len assms(2) by simp
  define b2 where "b2 = (copy_at buf (MaxAddrLen + 4) pkt)
      [MaxAddrLen := byte_hi (int ?n), MaxAddrLen + 1 := byte_lo (int ?n)]"
  obtain l hdr where put: "put_udp_addr (take MaxAddrLen b2) ip port = (l, hdr)"
    by (metis prod.exhaust)
  have b2len: "length b2 = MaxAddrLen + 4 + 65536" using len by (simp add: b2_def)
  have tk: "length (take MaxAddrLen b2) = MaxAddrLen" using b2len by simp
  have hdr: "length hdr = MaxAddrLen" "l = length (encode_addr (host_of_ip ip) port)"
    "drop (MaxAddrLen - l) hdr = encode_addr (host_of_ip ip) port" "l \<le> MaxAddrLen"
    using put_udp_addr_encode [OF assms(3) tk put] by blast+
  have mid: "take 4 (drop MaxAddrLen b2) = ?len @ [0x0d, 0x0a]"
  proof -
    have "copy_at buf (MaxAddrLen + 4) pkt ! (MaxAddrLen + i) = buf ! (MaxAddrLen + i)" if "i < 4" for i
      using that len by (intro nth_copy_at_before) simp_all
    from this [of 2] this [of 3]
    have "b2 ! MaxAddrLen = byte_hi (int ?n)" "b2 ! (MaxAddrLen + 1) = byte_lo (int ?n)"
      "b2 ! (MaxAddrLen + 2) = 0x0d" "b2 ! (MaxAddrLen + 3) = 0x0a"
      using assms(1) len by (simp_all add: b2_def write_buf_ok_def)
    then show ?thesis using take_4_drop [of MaxAddrLen b2] b2len by simp
  qed
  have pay: "take ?n (drop (MaxAddrLen + 4) b2) = pkt"
    using len assms(2) by (simp add: b2_def copy_at_def)
  have tail: "take (4 + ?n) (drop MaxAddrLen b2) = ?len @ [0x0d, 0x0a] @ pkt"
    using take_add [of 4 ?n "drop MaxAddrLen b2"] mid pay by (simp add: add.commute)
  let ?buf = "hdr @ drop MaxAddrLen b2"
  have "slice ?buf (MaxAddrLen - l) (MaxAddrLen + 4 + ?n) =
      Returns (encode_frame (host_of_ip ip) port pkt)"
    using hdr tail b2len assms(2) by (simp add: slice_def encode_frame_def)
  then have "udp_frame buf pkt ip port = Returns (encode_frame (host_of_ip ip) port pkt, ?buf)"
    unfolding udp_frame_def Let_def n b2_def [symmetric] put by simp
  moreover have "write_buf_ok ?buf"
  proof -
    have "?buf ! (MaxAddrLen + i) = take 4 (drop MaxAddrLen b2) ! i" if "i < 4" for i
      using hdr(1) that by (simp add: nth_append)
    from this [of 2] this [of 3] show ?thesis
      unfolding mid using hdr(1) b2len by (simp add: write_buf_ok_def)
  qed
  ultimately show ?thesis by blast
qed

definition packet_ok :: "bytes \<times> net_addr \<Rightarrow> bool" where
  "packet_ok g = (case g of
     (pkt, UDPAddr ip port) \<Rightarrow> length pkt < 65536 \<and> (length ip = IPv4len \<or> length ip = IPv6len)
   | _ \<Rightarrow> False)"

definition packet_frame :: "bytes \<times> net_addr \<Rightarrow> bytes" where
  "packet_frame g = (case g of
     (pkt, UDPAddr ip port) \<Rightarrow> encode_frame (host_of_ip ip) port pkt
   | _ \<Rightarrow> [])"

lemma packet_okE:
  assumes "packet_ok g"
  obtains pkt ip port where "g = (pkt, UDPAddr ip port)" "length pkt < 65536"
    "length ip = IPv4len \<or> length ip = IPv6len"
  using assms by (auto simp: packet_ok_def split: prod.splits net_addr.splits)

lemma udp_downlink_run:
  assumes "write_buf_ok buf" "\<forall>g \<in> set ps. packet_ok g" "os_script w = []"
  shows "udp_downlink wk w buf ps err nw =
    Returns (nw, err, [], w\<lparr>os_data := os_data w @ concat (map packet_frame ps)\<rparr>)"
  using assms
proof (induction ps arbitrary: w buf)
  case (Cons g ps)
  then obtain pkt ip port where g: "g = (pkt, UDPAddr ip port)" "length pkt < 65536"
    "length ip = IPv4len \<or> length ip = IPv6len"
    by (auto elim: packet_okE)
  let ?f = "encode_frame (host_of_ip ip) port pkt"
  obtain buf' where f: "udp_frame buf pkt ip port = Returns (?f, buf')" "write_buf_ok buf'"
    using udp_frame_encode [OF Cons.prems(1) g(2,3)] by blast
  have w: "os_write w ?f = ((int (length ?f), None), w\<lparr>os_data := os_data w @ ?f\<rparr>)"
    using Cons.prems(3) by (simp add: os_write_def)
  have "packet_frame g = ?f" using g(1) by (simp add: packet_frame_def)
  then show ?case
    using Cons.IH [OF f(2), of "w\<lparr>os_data := os_data w @ ?f\<rparr>"] Cons.prems(2,3) g(1) f(1) w by simp
qed simp

text \<open>
  Every datagram the socket delivers reaches the client as one frame: the source address,
  the length, CRLF and the complete payload, in the order of arrival. The header of one
  frame never damages the next, although all of them are built in the same buffer.
\<close>

theorem udp_downlink_frames:
  assumes "write_buf_ok buf" "\<forall>g \<in> set ps. packet_ok g" "os_script w = []"
  shows "udp_downlink wk w buf ps err nw =
    Returns (nw, err, [], w\<lparr>os_data := os_data w @ concat (map packet_frame ps)\<rparr>)"
  by (rule udp_downlink_run [OF assms])

theorem udp_downlink_frames_witness:
  "udp_downlink True \<lparr>os_script = [], os_data = []\<rparr> udp_write_buf
     [([7, 8], UDPAddr [1, 2, 3, 4] 53)] ErrClosed 0 =
   Returns (0, ErrClosed, [], \<lparr>os_script = [], os_data = [1, 1, 2, 3, 4, 0, 53, 0, 2, 13, 10, 7, 8]\<rparr>)"
  using udp_downlink_frames [OF write_buf_init, of "[([7, 8], UDPAddr [1, 2, 3, 4] 53)]"
      "\<lparr>os_script = [], os_data = []\<rparr>" True ErrClosed 0]
  by (simp add: packet_ok_def packet_frame_def encode_frame_def host_of_ip_def To4_def
      encode_addr_def addr_types byte_hi_def byte_lo_def)

lemma resolved_ip:
  "length ip = IPv4len \<or> length ip = IPv6len \<Longrightarrow>
    resolved dns (host_of_ip ip) port = Some (UDPAddr (canonical_ip ip) (port mod 65536))"
  by (simp add: resolved_def resolve_encoded_ip)

definition packet_datagram :: "bytes \<times> net_addr \<Rightarrow> datagram" where
  "packet_datagram g = (case g of (pkt, UDPAddr ip port) \<Rightarrow> (host_of_ip ip, port, pkt)
     | (pkt, _) \<Rightarrow> (HostDomain [], 0, pkt))"

definition packet_delivery :: "bytes \<times> net_addr \<Rightarrow> bytes \<times> net_addr option" where
  "packet_delivery g = (case g of
     (pkt, UDPAddr ip port) \<Rightarrow> (pkt, Some (UDPAddr (canonical_ip ip) (port mod 65536)))
   | (pkt, _) \<Rightarrow> (pkt, None))"

lemma packet_datagram:
  assumes "packet_ok g"
  shows "datagram_ok dns (packet_datagram g)" "frame_of (packet_datagram g) = packet_frame g"
    "delivery dns (packet_datagram g) = packet_delivery g"
  using assms
  by (auto elim!: packet_okE simp: packet_datagram_def datagram_ok_def frame_of_def packet_frame_def
      delivery_def packet_delivery_def wf_host_of_ip resolved_ip)

text \<open>
  C26: the two directions speak the same format. What the downlink writes for a sequence of
  datagrams is read back by the uplink's parser, however it is split into chunks, as the
  same payloads with the same source addresses (an IPv4-mapped address in its short form and
  the port as 16 bits).
\<close>

theorem udp_frames_roundtrip:
  assumes "\<forall>g \<in> set ps. packet_ok g"
    "udp_downlink wk \<lparr>os_script = [], os_data = []\<rparr> udp_write_buf ps err 0 = Returns (nw, e, acts, w)"
    "content r = os_data w" "is_err r = EOF"
  shows "udp_uplink dns r \<lparr>pc_script = [], pc_sent = []\<rparr> =
    Returns (int (length (os_data w)), None,
      \<lparr>pc_script = [], pc_sent = map packet_delivery ps\<rparr>)"
proof -
  let ?gs = "map packet_datagram ps"
  have w: "os_data w = concat (map packet_frame ps)"
    using udp_downlink_run [OF write_buf_init assms(1), of "\<lparr>os_script = [], os_data = []\<rparr>"]
      assms(2) by auto
  have frames: "map frame_of ?gs = map packet_frame ps" "map (delivery dns) ?gs = map packet_delivery ps"
    using assms(1) packet_datagram by (simp_all add: comp_def)
  have "\<forall>g \<in> set ?gs. datagram_ok dns g" using assms(1) packet_datagram(1) by simp
  moreover have "content r = concat (map frame_of ?gs)" unfolding frames(1) using assms(3) w by simp
  ultimately show ?thesis
    using udp_uplink_run [of ?gs dns r "\<lparr>pc_script = [], pc_sent = []\<rparr>"] assms(3,4) frames(2) by simp
qed

theorem udp_frames_roundtrip_witness:
  "\<exists>nw e acts w. udp_downlink True \<lparr>os_script = [], os_data = []\<rparr> udp_write_buf
      [([7, 8], UDPAddr [1, 2, 3, 4] 53)] ErrClosed 0 = Returns (nw, e, acts, w) \<and>
    udp_uplink demo_dns \<lparr>is_chunks = [], is_last = os_data w, is_err = EOF\<rparr>
      \<lparr>pc_script = [], pc_sent = []\<rparr> =
    Returns (int (length (os_data w)), None,
      \<lparr>pc_script = [], pc_sent = [([7, 8], Some (UDPAddr [1, 2, 3, 4] 53))]\<rparr>)"
proof -
  let ?ps = "[([7, 8], UDPAddr [1, 2, 3, 4] 53)]"
  have ok: "\<forall>g \<in> set ?ps. packet_ok g" by (simp add: packet_ok_def)
  obtain w where run: "udp_downlink True \<lparr>os_script = [], os_data = []\<rparr> udp_write_buf ?ps ErrClosed 0 =
      Returns (0, ErrClosed, [], w)"
    using udp_downlink_run [OF write_buf_init ok, of "\<lparr>os_script = [], os_data = []\<rparr>"] by simp
  have "content \<lparr>is_chunks = [], is_last = os_data w, is_err = EOF\<rparr> = os_data w"
    by (simp add: content_def)
  from udp_frames_roundtrip [OF ok run this, of demo_dns] run show ?thesis
    by (auto simp: packet_delivery_def canonical_ip_def To4_def)
qed

section \<open>Sessions\<close>

definition udp_opened :: "udp_env \<Rightarrow> bool" where
  "udp_opened env \<longleftrightarrow>
     udp_alloc_byte_err env = None \<and> listen_packet env = None \<and> alloc_prev env = None \<and>
     alloc_read env = None \<and> alloc_write env = None"

lemma HandleUDP_session:
  assumes "udp_opened env" "\<forall>g \<in> set gs. datagram_ok (udp_dns env) g"
    "content (client env) = concat (map frame_of gs)" "is_err (client env) = EOF"
    "sock env = \<lparr>pc_script = [], pc_sent = []\<rparr>"
    "\<forall>g \<in> set (packets env). packet_ok g"
    "client_writer env = \<lparr>os_script = [], os_data = []\<rparr>"
    "isTimeoutError (Some (packets_end env))"
  shows "\<exists>run. HandleUDP env = Returns run \<and> udp_err run = None \<and>
    udp_sent run = map (delivery (udp_dns env)) gs \<and>
    udp_to_client run = concat (map packet_frame (packets env)) \<and>
    udp_nr run = int (length (content (client env))) \<and> udp_nw run = 0"
proof -
  have up: "udp_uplink (udp_dns env) (client env) (sock env) =
      Returns (int (length (content (client env))), None,
        \<lparr>pc_script = [], pc_sent = map (delivery (udp_dns env)) gs\<rparr>)"
    using udp_uplink_run [OF assms(2,3,4), of "sock env"] assms(5) by simp
  have down: "udp_downlink (client_wakeable env) (client_writer env) udp_write_buf (packets env)
      (packets_end env) 0 =
      Returns (0, packets_end env, [], \<lparr>os_script = [], os_data = concat (map packet_frame (packets env))\<rparr>)"
    using udp_downlink_run [OF write_buf_init assms(6)] assms(7) by simp
  show ?thesis
    using assms(1,8) up down
    by (simp add: HandleUDP_def udp_opened_def allocShortCircuit_def first_error_def)
qed

text \<open>
  A whole UDP session whose peers keep to the format: every datagram of the client is
  sent on, every datagram of the network is framed for the client, and the bytes of the client
  are counted. The bytes for the client are not: the second number is 0 whatever was delivered.
\<close>

theorem handle_udp_session:
  assumes "udp_opened env" "\<forall>g \<in> set gs. datagram_ok (udp_dns env) g"
    "content (client env) = concat (map frame_of gs)" "is_err (client env) = EOF"
    "sock env = \<lparr>pc_script = [], pc_sent = []\<rparr>"
    "\<forall>g \<in> set (packets env). packet_ok g"
    "client_writer env = \<lparr>os_script = [], os_data = []\<rparr>"
    "isTimeoutError (Some (packets_end env))"
  shows "\<exists>run. HandleUDP env = Returns run \<and> udp_err run = None \<and>
    udp_sent run = map (delivery (udp_dns env)) gs \<and>
    udp_to_client run = concat (map packet_frame (packets env)) \<and>
    udp_nr run = int (length (content (client env))) \<and> udp_nw run = 0"
  by (rule HandleUDP_session [OF assms])

definition demo_udp_env :: udp_env where
  "demo_udp_env =
     \<lparr>udp_alloc_byte_err = None, listen_packet = None, alloc_prev = None, alloc_read = None,
      alloc_write = None, udp_dns = demo_dns,
      client = \<lparr>is_chunks = [], is_last = frame_of (HostIPv4 [1, 2, 3, 4], 80, [7]), is_err = EOF\<rparr>,
      sock = \<lparr>pc_script = [], pc_sent = []\<rparr>, packets = [([7, 8], UDPAddr [1, 2, 3, 4] 53)],
      packets_end = ErrDeadlineExceeded, client_writer = \<lparr>os_script = [], os_data = []\<rparr>,
      client_wakeable = True, writer_wakeable = True\<rparr>"

theorem handle_udp_session_witness:
  "\<exists>run. HandleUDP demo_udp_env = Returns run \<and> udp_err run = None \<and>
    udp_to_client run = [1, 1, 2, 3, 4, 0, 53, 0, 2, 13, 10, 7, 8] \<and> udp_nw run = 0"
proof -
  have "udp_opened demo_udp_env"
    "\<forall>g \<in> set [(HostIPv4 [1, 2, 3, 4], 80, [7])]. datagram_ok (udp_dns demo_udp_env) g"
    "content (client demo_udp_env) = concat (map frame_of [(HostIPv4 [1, 2, 3, 4], 80, [7])])"
    "is_err (client demo_udp_env) = EOF" "sock demo_udp_env = \<lparr>pc_script = [], pc_sent = []\<rparr>"
    "\<forall>g \<in> set (packets demo_udp_env). packet_ok g"
    "client_writer demo_udp_env = \<lparr>os_script = [], os_data = []\<rparr>"
    "isTimeoutError (Some (packets_end demo_udp_env))"
    using demo_datagrams
    by (simp_all add: demo_udp_env_def udp_opened_def content_def packet_ok_def isTimeoutError_def)
  from handle_udp_session [OF this] show ?thesis
    by (auto simp: demo_udp_env_def packet_frame_def encode_frame_def host_of_ip_def To4_def
        encode_addr_def addr_types byte_hi_def byte_lo_def)
qed

text \<open>No slice of the loop leaves its buffer.\<close>

lemma udp_payload_bounds:
  assumes "length a \<le> MaxAddrLen" "length (uu_b s) = 65536 + MaxAddrLen"
  shows "\<exists>x. udp_payload \<lparr>addr_data = a\<rparr> s = Returns x \<and>
    (\<forall>s'. x = Inr s' \<longrightarrow> length (uu_b s') = length (uu_b s))"
proof -
  let ?l = "length a"
  have "?l \<le> ?l + 4" "?l + 4 \<le> length (uu_b s)" using assms by simp_all
  from ReadFullInto_no_panic [OF this] obtain e b r
    where 1: "ReadFullInto (uu_r s) (uu_b s) ?l (?l + 4) = Returns (e, b, r)"
    by (metis prod.exhaust)
  have b: "length b = length (uu_b s)" using ReadFullInto_content(2) [OF 1] .
  let ?n = "?l + be16 (b ! ?l) (b ! (?l + 1))"
  have bound: "?l \<le> ?n" "?n \<le> length b"
    using be16_less [of "b ! ?l" "b ! (?l + 1)"] assms b by simp_all
  from ReadFullInto_no_panic [OF this] obtain e' b' r'
    where 2: "ReadFullInto r b ?l ?n = Returns (e', b', r')" by (metis prod.exhaust)
  have b': "length b' = length b" using ReadFullInto_content(2) [OF 2] .
  have send: "udp_send t buf = Inr s' \<Longrightarrow> uu_b s' = uu_b t" for t buf s'
    by (auto simp: udp_send_def split: prod.splits option.splits)
  show ?thesis
    using 1 2 b b' bound
    by (auto simp: udp_payload_def Addr_Len_def slice_def Let_def dest!: send split: option.splits)
qed

lemma resolve_with_no_panic_ip:
  assumes "wf_addr a" "resolve_with dns \<lparr>addr_data = a\<rparr> = Panics p"
  shows "Addr_String \<lparr>addr_data = a\<rparr> = Panics p"
proof -
  obtain h q where a: "wf_host h" "a = encode_addr h q" using wf_addr_decode [OF assms(1)] by metis
  show ?thesis
    using a assms(2)
    by (cases h) (auto simp: resolve_with_def encode_addr_def addr_types fixed_ip_port_def slice_def
        port_at_def index_def nth_append outcome_simps split: if_splits)
qed

lemma Addr_String_panic:
  assumes "wf_addr a" "Addr_String \<lparr>addr_data = a\<rparr> = Panics p"
  obtains d q where "a = encode_addr (HostDomain d) q" "254 \<le> length d" "length d \<le> 255"
    "p = SliceBounds"
proof -
  obtain h q where a: "wf_host h" "0 \<le> q" "q < 65536" "a = encode_addr h q"
    using wf_addr_decode [OF assms(1)] by metis
  show thesis
  proof (cases "\<exists>d. h = HostDomain d \<and> 253 \<le> length d")
    case True
    then obtain d where d: "h = HostDomain d" "253 \<le> length d" "length d \<le> 255" using a(1) by auto
    from Addr_String_long [OF d(2,3), of q] assms(2) a(4) d that show thesis
      by (auto split: if_splits)
  next
    case False
    then have "\<forall>d. h = HostDomain d \<longrightarrow> length d \<le> 252" by auto
    from Addr_String_short [OF a(1,2,3) this] assms(2) a(4) show thesis by simp
  qed
qed

lemma udp_step_bounds:
  assumes "length (uu_b s) = 65536 + MaxAddrLen"
  shows "case udp_up_step dns s of
      Panics p \<Rightarrow> \<exists>a. wf_addr a \<and> Addr_String \<lparr>addr_data = a\<rparr> = Panics p \<and>
        (\<exists>rest. content (uu_r s) = a @ rest)
    | Returns (Inr s') \<Rightarrow> length (uu_b s') = length (uu_b s)
    | Returns (Inl x) \<Rightarrow> True"
proof -
  have big: "MaxAddrLen \<le> length (uu_b s)" using assms by simp
  from big show ?thesis
  proof (cases rule: ReadAddrBuffer_cases [of "uu_b s" "uu_r s"])
    case (ok raddr b r)
    obtain a where a: "raddr = \<lparr>addr_data = a\<rparr>" by (cases raddr)
    let ?s = "s\<lparr>uu_b := b, uu_r := r\<rparr>"
    have len: "length a \<le> MaxAddrLen"
      using ok(2) a by (metis wf_addr_decode encode_addr_length Addr.select_convs(1))
    have pay: "\<exists>x. udp_payload raddr t = Returns x \<and>
        (\<forall>s'. x = Inr s' \<longrightarrow> length (uu_b s') = length (uu_b t))" if "uu_b t = b" for t
      using udp_payload_bounds [OF len, of t] ok(5) assms that a by simp
    show ?thesis
    proof (cases "udp_target dns raddr ?s")
      case (Panics p)
      then have "ResolveUDPAddr dns raddr = Panics p"
        by (auto simp: udp_target_def elim!: and_then_PanicsE split: if_splits sum.split_asm)
      then have "resolve_with dns raddr = Panics p"
        by (auto simp: ResolveUDPAddr_def elim!: and_then_PanicsE)
      then have "Addr_String raddr = Panics p"
        using resolve_with_no_panic_ip ok(2) a by simp
      then show ?thesis using ok Panics a by (auto simp: udp_up_step_def)
    next
      case (Returns y)
      show ?thesis
      proof (cases y)
        case (Inl e)
        with ok Returns show ?thesis by (simp add: udp_up_step_def)
      next
        case (Inr t)
        then have "uu_b t = b"
          using Returns
          by (auto simp: udp_target_def elim!: and_then_ReturnsE split: if_splits sum.splits)
        from pay [OF this] show ?thesis
          using ok Returns Inr \<open>uu_b t = b\<close> by (auto simp: udp_up_step_def split: sum.splits)
      qed
    qed
  qed (simp_all add: udp_up_step_def)
qed

lemma udp_step_suffix:
  assumes "udp_up_step dns s = Returns (Inr s')" "MaxAddrLen \<le> length (uu_b s)"
  shows "\<exists>k. content (uu_r s') = drop k (content (uu_r s))"
  using assms(2)
proof (cases rule: ReadAddrBuffer_cases [of "uu_b s" "uu_r s"])
  case (ok raddr b r)
  with assms(1) obtain t where
    "udp_target dns raddr (s\<lparr>uu_b := b, uu_r := r\<rparr>) = Returns (Inr t)"
    "udp_payload raddr t = Returns (Inr s')"
    unfolding udp_up_step_def Let_def
    by (auto elim!: and_then_ReturnsE split: sum.splits)
  from udp_target_reader [OF this(1)] udp_payload_suffix [OF this(2)] ok(3)
  have "\<exists>m. content (uu_r s') = drop m (drop (length (addr_data raddr)) (content (uu_r s)))"
    by simp
  then show ?thesis by (auto simp: drop_drop)
qed (use assms(1) in \<open>simp add: udp_up_step_def\<close>)

lemma udp_up_loop_panics:
  assumes "udp_up_loop dns s = Panics p" "length (uu_b s) = 65536 + MaxAddrLen"
  shows "p = SliceBounds \<and> (\<exists>d q u v. 254 \<le> length d \<and> length d \<le> 255 \<and>
    content (uu_r s) = u @ encode_addr (HostDomain d) q @ v)"
  using assms
proof (induction dns s rule: udp_up_loop.induct)
  case (1 dns s)
  note bounds = udp_step_bounds [OF "1.prems"(2), of dns]
  show ?case
  proof (cases "udp_up_step dns s")
    case (Panics q)
    with "1.prems"(1) have "q = p" by (simp add: udp_up_loop.simps [of dns s])
    with bounds Panics obtain a rest where "wf_addr a" "Addr_String \<lparr>addr_data = a\<rparr> = Panics p"
      "content (uu_r s) = [] @ a @ rest" by auto
    with Addr_String_panic [OF this(1,2)] show ?thesis by metis
  next
    case (Returns y)
    with "1.prems"(1) obtain s' where y: "y = Inr s'" "udp_up_loop dns s' = Panics p"
      by (cases y) (auto simp: udp_up_loop.simps [of dns s])
    have "length (uu_b s') = 65536 + MaxAddrLen" using bounds Returns y "1.prems"(2) by simp
    from "1.IH" [OF Returns y this] obtain d q u v where
      "p = SliceBounds" "254 \<le> length d" "length d \<le> 255"
      "content (uu_r s') = u @ encode_addr (HostDomain d) q @ v" by blast
    moreover obtain k where "content (uu_r s') = drop k (content (uu_r s))"
      using udp_step_suffix [of dns s s'] Returns y "1.prems"(2) by auto
    then have "content (uu_r s) = take k (content (uu_r s)) @ content (uu_r s')" by simp
    ultimately show ?thesis by (metis append.assoc)
  qed
qed

lemma udp_uplink_long_domain:
  assumes "content r = encode_addr (HostDomain d) q @ rest" "254 \<le> length d" "length d \<le> 255"
  shows "udp_uplink dns r pc = Panics SliceBounds"
proof -
  let ?a = "encode_addr (HostDomain d) q"
  let ?s = "udp_init r pc"
  have wf: "wf_addr ?a" using assms(3) by simp
  have big: "MaxAddrLen \<le> length (uu_b ?s)" by (simp add: udp_init_def)
  have "content (uu_r ?s) = ?a @ rest" using assms(1) by (simp add: udp_init_def)
  from ReadAddrBuffer_prefix [OF big this wf] obtain b r1
    where 1: "ReadAddrBuffer (uu_r ?s) (uu_b ?s) = Returns (Inr \<lparr>addr_data = ?a\<rparr>, b, r1)" by metis
  have "uu_bb ?s \<noteq> ?a" using wf not_wf_zeros by (auto simp: udp_init_def)
  moreover have "resolve_with dns \<lparr>addr_data = ?a\<rparr> = Panics SliceBounds"
    using Addr_String_long [of d q] assms(2,3)
    by (simp add: resolve_with_def encode_addr_def addr_types index_def)
  ultimately have "udp_up_step dns ?s = Panics SliceBounds"
    using 1 by (simp add: udp_up_step_def udp_target_def ResolveUDPAddr_def)
  then show ?thesis by (simp add: udp_uplink_def udp_up_loop.simps [of dns ?s])
qed

text \<open>
  C27: the uplink stays inside its 65795-byte buffer for every input: no frame, however
  malformed or cut off, makes it panic, with one exception, a well-formed address with a
  domain of 254 or 255 bytes, which it cannot render.
\<close>

theorem udp_uplink_panics_only_on_long_domains:
  assumes "udp_uplink dns r pc = Panics p"
  shows "p = SliceBounds \<and> (\<exists>d q u v. 254 \<le> length d \<and> length d \<le> 255 \<and>
    content r = u @ encode_addr (HostDomain d) q @ v)"
proof -
  have "udp_up_loop dns (udp_init r pc) = Panics p"
    using assms by (auto simp: udp_uplink_def elim!: and_then_PanicsE)
  from udp_up_loop_panics [OF this] show ?thesis by (simp add: udp_init_def)
qed

theorem udp_uplink_panics_only_on_long_domains_witness:
  "udp_uplink demo_dns
     \<lparr>is_chunks = [], is_last = encode_addr (HostDomain (replicate 254 97)) 53, is_err = EOF\<rparr>
     \<lparr>pc_script = [], pc_sent = []\<rparr> = Panics SliceBounds \<and>
   (\<exists>d q u v. 254 \<le> length d \<and> length d \<le> 255 \<and>
     encode_addr (HostDomain (replicate 254 97)) 53 = u @ encode_addr (HostDomain d) q @ v)"
proof -
  let ?r = "\<lparr>is_chunks = [], is_last = encode_addr (HostDomain (replicate 254 97)) 53, is_err = EOF\<rparr>"
  have "content ?r = encode_addr (HostDomain (replicate 254 97)) 53 @ []" by (simp add: content_def)
  from udp_uplink_long_domain [OF this]
  have h: "udp_uplink demo_dns ?r \<lparr>pc_script = [], pc_sent = []\<rparr> = Panics SliceBounds" by simp
  from udp_uplink_panics_only_on_long_domains [OF h] h show ?thesis
    by (simp add: content_def)
qed

end
