(* ===== verification/Udp_Interleaved.thy ===== *)
theory Udp_Interleaved
  imports Trojan_Udp Tcp_Interleaved
begin

text \<open>
  \<open>HandleUDP\<close> of \<open>pkgs/trojan/trojan_udp.go\<close> as it runs: the goroutine that reads the frames of
  the client and the main one that reads the datagrams of the socket, with the deadlines through
  which each of them stops the other, the channel without a buffer and the idle timer of the
  socket. The client can fall silent in the middle of a frame and stop reading, a send can fail,
  the network can be silent. The lemmas relate the runs of this machine to the sequential
  \<open>HandleUDP\<close> of \<open>Trojan_Udp\<close> and show that every session ends, and what its end can wait for.
\<close>

section \<open>What a round of the client's goroutine reads\<close>

text \<open>
  The goroutine reads through \<open>io.ReadFull\<close> only, which does not see how a stream is cut into
  reads; the client is the bytes it sends and the error its stream ends with.
\<close>

definition pipe :: "bytes \<Rightarrow> go_error \<Rightarrow> istream" where
  "pipe d e = \<lparr>is_chunks = [], is_last = d, is_err = e\<rparr>"

lemma content_pipe [simp]: "content (pipe d e) = d" and is_err_pipe [simp]: "is_err (pipe d e) = e"
  by (simp_all add: pipe_def content_def)

lemma pipe_eqI: "is_chunks s = [] \<Longrightarrow> s = pipe (content s) (is_err s)"
  by (simp add: pipe_def content_def)

lemma read_loop_chunks:
  "read_loop s k acc = (bs, e, s') \<Longrightarrow> is_chunks s = [] \<Longrightarrow> is_chunks s' = []"
proof (induction s k acc arbitrary: bs e s' rule: read_loop.induct)
  case (1 s k acc)
  obtain cs d t where rd: "is_read s (k - length acc) = ((cs, d), t)" by (metis prod.exhaust)
  with "1.prems"(2) have "is_chunks t = []" by (auto simp: is_read_def split: if_splits)
  with "1.prems" rd "1.IH" [OF _ rd [symmetric] refl] show ?case
    by (cases d) (auto simp: read_loop.simps [of s k acc] split: if_splits)
qed

lemma ReadFull_pipe:
  "ReadFull (pipe d e) k =
    (take k d, if k \<le> length d then None else Some (read_full_error (pipe d e)), pipe (drop k d) e)"
proof -
  obtain s' where s': "ReadFull (pipe d e) k = (take k d,
      if k \<le> length d then None else Some (read_full_error (pipe d e)), s')"
    "content s' = drop k d" "is_err s' = e"
    using ReadFull_spec [of "pipe d e" k] by auto
  have "is_chunks s' = []"
    using s'(1) read_loop_chunks [of "pipe d e" k "[]"]
    by (auto simp: ReadFull_def pipe_def split: prod.splits if_splits)
  with pipe_eqI [of s'] s' show ?thesis by simp
qed

text \<open>A read that gets what it asks for takes the same bytes from any longer stream.\<close>

lemma ReadFullInto_pipe:
  assumes "ReadFullInto (pipe d e) b lo hi = Returns (None, b', r)"
  obtains c d' where "d = c @ d'" "r = pipe d' e"
    "\<And>x e2. ReadFullInto (pipe (c @ x) e2) b lo hi = Returns (None, b', pipe x e2)"
proof (rule that [of "take (hi - lo) d" "drop (hi - lo) d"])
  have *: "lo \<le> hi" "hi \<le> length b" "hi - lo \<le> length d" "b' = copy_at b lo (take (hi - lo) d)"
    "r = pipe (drop (hi - lo) d) e"
    using assms by (auto simp: ReadFullInto_def ReadFull_pipe split: if_splits)
  then show "r = pipe (drop (hi - lo) d) e"
    "ReadFullInto (pipe (take (hi - lo) d @ x) e2) b lo hi = Returns (None, b', pipe x e2)" for x e2
    by (simp_all add: ReadFullInto_def ReadFull_pipe)
qed simp

lemma ReadAddrRest_pipe:
  assumes "ReadAddrRest (pipe d e) b n = Returns (Inr a, b', r)"
  obtains c d' where "d = c @ d'" "r = pipe d' e"
    "\<And>x e2. ReadAddrRest (pipe (c @ x) e2) b n = Returns (Inr a, b', pipe x e2)"
proof -
  from assms obtain s where rd: "ReadFullInto (pipe d e) b 2 n = Returns (None, b', r)"
    and s: "slice b' 0 n = Returns s" "a = \<lparr>addr_data = s\<rparr>"
    unfolding ReadAddrRest_def by (auto elim!: and_then_ReturnsE split: option.splits)
  from ReadFullInto_pipe [OF rd] obtain c d' where c: "d = c @ d'" "r = pipe d' e"
    "\<And>x e2. ReadFullInto (pipe (c @ x) e2) b 2 n = Returns (None, b', pipe x e2)" by metis
  show thesis by (rule that [OF c(1,2)]) (simp add: ReadAddrRest_def c(3) s)
qed

lemma ReadAddrBuffer_pipe:
  assumes "ReadAddrBuffer (pipe d e) b = Returns (Inr a, b', r)"
  obtains c d' where "d = c @ d'" "r = pipe d' e"
    "\<And>x e2. ReadAddrBuffer (pipe (c @ x) e2) b = Returns (Inr a, b', pipe x e2)"
proof -
  from assms obtain b1 r1 where 1: "ReadFullInto (pipe d e) b 0 2 = Returns (None, b1, r1)"
    unfolding ReadAddrBuffer_def by (auto elim!: and_then_ReturnsE split: option.splits)
  from ReadFullInto_pipe [OF 1] obtain c1 d1 where c1: "d = c1 @ d1" "r1 = pipe d1 e"
    "\<And>x e2. ReadFullInto (pipe (c1 @ x) e2) b 0 2 = Returns (None, b1, pipe x e2)" by metis
  define n where "n = (if b1 ! 0 = AddrTypeIPv4 then 1 + IPv4len + 2
    else if b1 ! 0 = AddrTypeDomain then 1 + 1 + unat (b1 ! 1) + 2 else 1 + IPv6len + 2)"
  have t: "b1 ! 0 = AddrTypeIPv4 \<or> b1 ! 0 = AddrTypeDomain \<or> b1 ! 0 = AddrTypeIPv6"
    using assms by (auto simp: ReadAddrBuffer_def 1 split: if_splits)
  have eq: "ReadAddrBuffer (pipe (c1 @ x) e2) b = ReadAddrRest (pipe x e2) b1 n" for x e2
    using t by (auto simp: ReadAddrBuffer_def c1(3) n_def)
  from assms have "ReadAddrRest (pipe d1 e) b1 n = Returns (Inr a, b', r)"
    unfolding c1(1) eq .
  then obtain c2 d2 where "d1 = c2 @ d2" "r = pipe d2 e"
    "\<And>x e2. ReadAddrRest (pipe (c2 @ x) e2) b1 n = Returns (Inr a, b', pipe x e2)"
    by (rule ReadAddrRest_pipe) metis
  with that [of "c1 @ c2" d2] c1(1) eq show thesis by simp
qed

text \<open>
  A round that forwards a frame takes the bytes of the frame, whatever follows them in the
  stream, and one result of \<open>WriteTo\<close>, whatever the later ones are.
\<close>

definition on :: "udp_up \<Rightarrow> bytes \<Rightarrow> go_error \<Rightarrow> go_error option list \<Rightarrow> udp_up" where
  "on u d e sc = u\<lparr>uu_r := pipe d e, uu_rc := (uu_rc u)\<lparr>pc_script := sc\<rparr>\<rparr>"

lemma on_simps [simp]:
  "uu_r (on u d e sc) = pipe d e" "uu_b (on u d e sc) = uu_b u" "uu_bb (on u d e sc) = uu_bb u"
  "uu_tt (on u d e sc) = uu_tt u" "uu_nr (on u d e sc) = uu_nr u"
  "uu_rc (on u d e sc) = (uu_rc u)\<lparr>pc_script := sc\<rparr>" "on (on u d e sc) d' e' sc' = on u d' e' sc'"
  by (simp_all add: on_def)

lemma udp_target_on:
  "udp_target dns a (on u d e sc) = Returns (Inr v) \<Longrightarrow>
    v = on v d e sc \<and> udp_target dns a (on u d' e' sc') = Returns (Inr (on v d' e' sc'))"
  by (auto simp: udp_target_def on_def elim!: and_then_ReturnsE split: if_splits sum.splits)

lemma udp_payload_on:
  assumes "udp_payload a (on u d e [None]) = Returns (Inr v)"
  obtains c d' where "d = c @ d'" "v = on v d' e []"
    "\<And>x e2 sc. udp_payload a (on u (c @ x) e2 (None # sc)) = Returns (Inr (on v x e2 sc))"
proof -
  let ?l = "Addr_Len a"
  from assms obtain b1 r1 where 1: "ReadFullInto (pipe d e) (uu_b u) ?l (?l + 4) = Returns (None, b1, r1)"
    and crlf: "\<not> (b1 ! (?l + 2) \<noteq> 0x0d \<or> b1 ! (?l + 3) \<noteq> 0x0a)"
    unfolding udp_payload_def Let_def by (auto elim!: and_then_ReturnsE split: option.splits if_splits)
  let ?l' = "?l + be16 (b1 ! ?l) (b1 ! (?l + 1))"
  from assms obtain b2 r2 buf where 2: "ReadFullInto r1 b1 ?l ?l' = Returns (None, b2, r2)"
    "slice b2 ?l ?l' = Returns buf"
    using crlf unfolding udp_payload_def Let_def
    by (auto simp: 1 elim!: and_then_ReturnsE split: option.splits if_splits)
  from ReadFullInto_pipe [OF 1] obtain c1 d1 where c1: "d = c1 @ d1" "r1 = pipe d1 e"
    "\<And>x e2. ReadFullInto (pipe (c1 @ x) e2) (uu_b u) ?l (?l + 4) = Returns (None, b1, pipe x e2)" by metis
  from ReadFullInto_pipe [OF 2(1) [unfolded c1(2)]] obtain c2 d2 where c2: "d1 = c2 @ d2" "r2 = pipe d2 e"
    "\<And>x e2. ReadFullInto (pipe (c2 @ x) e2) b1 ?l ?l' = Returns (None, b2, pipe x e2)" by metis
  define w where "w = u\<lparr>uu_b := b2, uu_nr := uu_nr u + (int ?l' + 4),
    uu_rc := \<lparr>pc_script = [], pc_sent = pc_sent (uu_rc u) @ [(buf, uu_tt u)]\<rparr>\<rparr>"
  have run: "udp_payload a (on u ((c1 @ c2) @ x) e2 (None # sc)) = Returns (Inr (on w x e2 sc))" for x e2 sc
    using crlf by (simp add: udp_payload_def Let_def c1(3) c2(3) [simplified] 2(2) [simplified] udp_send_def WriteTo_def on_def w_def)
  have "on w d2 e [] = v"
    using run [of d2 e "[]"] assms c1(1) c2(1) by simp
  then have v: "v = on v d2 e []" "\<And>x e2 sc. on v x e2 sc = on w x e2 sc" by (metis on_simps(7))+
  show thesis
    by (rule that [of "c1 @ c2" d2]) (use c1(1) c2(1) v run in simp_all)
qed

lemma udp_up_step_on:
  assumes "udp_up_step dns (on u d e [None]) = Returns (Inr v)"
  obtains c d' where "d = c @ d'" "v = on v d' e []" "c \<noteq> []"
    "\<And>x e2 sc. udp_up_step dns (on u (c @ x) e2 (None # sc)) = Returns (Inr (on v x e2 sc))"
proof -
  from assms obtain a b r t where 1: "ReadAddrBuffer (pipe d e) (uu_b u) = Returns (Inr a, b, r)"
    and 2: "udp_target dns a ((on u d e [None])\<lparr>uu_b := b, uu_r := r\<rparr>) = Returns (Inr t)"
    and 3: "udp_payload a t = Returns (Inr v)"
    unfolding udp_up_step_def Let_def by (auto elim!: and_then_ReturnsE split: sum.splits)
  from ReadAddrBuffer_pipe [OF 1] obtain c1 d1 where c1: "d = c1 @ d1" "r = pipe d1 e"
    "\<And>x e2. ReadAddrBuffer (pipe (c1 @ x) e2) (uu_b u) = Returns (Inr a, b, pipe x e2)" by metis
  have on: "(on u d' e' sc)\<lparr>uu_b := b, uu_r := pipe x e2\<rparr> = on (u\<lparr>uu_b := b\<rparr>) x e2 sc" for d' e' sc x e2
    by (simp add: on_def)
  have t: "t = on t d1 e [None]"
    "\<And>x e2 sc. udp_target dns a (on (u\<lparr>uu_b := b\<rparr>) x e2 sc) = Returns (Inr (on t x e2 sc))"
    using udp_target_on [OF 2 [unfolded c1(2) on]] by blast+
  from 3 t(1) have "udp_payload a (on t d1 e [None]) = Returns (Inr v)" by simp
  then obtain c2 d2 where c2: "d1 = c2 @ d2" "v = on v d2 e []"
    "\<And>x e2 sc. udp_payload a (on t (c2 @ x) e2 (None # sc)) = Returns (Inr (on v x e2 sc))"
    by (rule udp_payload_on) metis
  have run: "udp_up_step dns (on u ((c1 @ c2) @ x) e2 (None # sc)) = Returns (Inr (on v x e2 sc))" for x e2 sc
    by (simp add: udp_up_step_def Let_def c1(3) on t(2) c2(3))
  have "length d2 < length d"
    using udp_up_step_shrinks [OF assms] c2(2) by (metis on_simps(1) content_pipe)
  then have "c1 @ c2 \<noteq> []" using c1(1) c2(1) by auto
  then show thesis
    by (intro that [of "c1 @ c2" d2]) (use c1(1) c2(1,2) run in simp_all)
qed

text \<open>A round whose \<open>WriteTo\<close> fails does not go on.\<close>

lemma udp_up_step_refused: "udp_up_step dns (on u d e [Some x]) \<noteq> Returns (Inr v)"
proof
  assume "udp_up_step dns (on u d e [Some x]) = Returns (Inr v)"
  then obtain a b r t where 2: "udp_target dns a ((on u d e [Some x])\<lparr>uu_b := b, uu_r := r\<rparr>) = Returns (Inr t)"
    and 3: "udp_payload a t = Returns (Inr v)"
    unfolding udp_up_step_def Let_def by (auto elim!: and_then_ReturnsE split: sum.splits)
  have "uu_rc t = (uu_rc u)\<lparr>pc_script := [Some x]\<rparr>"
    using 2 by (auto simp: udp_target_def elim!: and_then_ReturnsE split: if_splits sum.splits)
  with 3 show False
    by (auto simp: udp_payload_def udp_send_def WriteTo_def Let_def elim!: and_then_ReturnsE
        split: option.splits if_splits prod.splits)
qed

section \<open>The two goroutines\<close>

text \<open>
  The client's goroutine reads frames, has left its loop, sends its result, has sent it, or has
  panicked, which ends the program. The main one is in front of \<open>SetReadDeadline\<close>, of
  \<open>ReadFrom\<close>, of \<open>Write\<close>, behind its loop, or waits for the result.
\<close>

datatype udp_client = URounds | UBroke go_error | USending "go_error option" | USent | UDead

datatype udp_main =
    UArm
  | URead
  | UWrite bytes
  | UBreak
  | UWait
  | UReturned int int "go_error option"
  | UCrashed go_panic

text \<open>The read deadline of the socket: none, the idle timer, or one that has passed.\<close>

datatype rc_deadline = Unset | Idle | Passed

text \<open>
  What a session meets: the bytes the client sends and how its stream ends (a silent client
  never ends it), the error of a read whose deadline has passed, whether reader and writer of
  the client can be woken, the datagrams that arrive, how the socket fails after them
  (\<open>None\<close>: the network falls silent), and whether the client has stopped reading.
\<close>

record udp_setup =
  ug_dns :: resolver
  ug_data :: bytes
  ug_end :: go_error
  ug_silent :: bool
  ug_timeout :: go_error
  ug_reader_wakeable :: bool
  ug_writer_wakeable :: bool
  ug_packets :: "(bytes \<times> net_addr) list"
  ug_socket_end :: "go_error option"
  ug_stalled :: bool

text \<open>
  The variables of both goroutines, and for the proofs what they have met: the bytes of the
  complete frames, what the last round heard, the results of \<open>WriteTo\<close>, the datagrams taken
  and the results of \<open>Write\<close>.
\<close>

record udp_state =
  us_client :: udp_client
  us_up :: udp_up
  us_main :: udp_main
  us_buf :: bytes
  us_err :: go_error
  us_out :: bytes
  us_left :: "(bytes \<times> net_addr) list"
  us_rc_dl :: rc_deadline
  us_rc_wdl :: bool
  us_client_dl :: bool
  us_read :: bytes
  us_heard :: "bytes \<times> go_error"
  us_replies :: "go_error option list"
  us_taken :: "(bytes \<times> net_addr) list"
  us_results :: "(int \<times> go_error option) list"

definition udp_start :: "udp_setup \<Rightarrow> udp_state" where
  "udp_start g =
     \<lparr>us_client = URounds,
      us_up = udp_init (pipe (ug_data g) (ug_end g)) \<lparr>pc_script = [], pc_sent = []\<rparr>,
      us_main = UArm, us_buf = udp_write_buf, us_err = EOF, us_out = [], us_left = ug_packets g,
      us_rc_dl = Unset, us_rc_wdl = False, us_client_dl = False,
      us_read = [], us_heard = ([], EOF), us_replies = [], us_taken = [], us_results = []\<rparr>"

text \<open>The bytes of the client that no complete frame has used.\<close>

abbreviation unheard :: "udp_state \<Rightarrow> bytes" where
  "unheard s \<equiv> content (uu_r (us_up s))"

text \<open>
  What a round can hear before its stream stops: everything and the end, or, when the read
  deadline has passed, any part and the timeout.
\<close>

definition hears :: "udp_setup \<Rightarrow> udp_state \<Rightarrow> bytes \<Rightarrow> go_error \<Rightarrow> bool" where
  "hears g s d e \<longleftrightarrow>
     d = unheard s \<and> e = ug_end g \<and> \<not> ug_silent g
     \<or> us_client_dl s \<and> (\<exists>d'. unheard s = d @ d') \<and> e = ug_timeout g"

text \<open>A round that ends by itself, whatever the stream would have said next.\<close>

definition ends_itself :: "udp_setup \<Rightarrow> udp_state \<Rightarrow> go_error option \<Rightarrow> go_error \<Rightarrow> bool" where
  "ends_itself g s wr err \<longleftrightarrow>
     (\<forall>e. \<exists>v. udp_up_step (ug_dns g) (on (us_up s) (unheard s) e [wr]) = Returns (Inl (err, v)))"

text \<open>A \<open>WriteTo\<close> can fail at any time, and does so behind the write deadline.\<close>

definition replies :: "udp_state \<Rightarrow> go_error option \<Rightarrow> bool" where
  "replies s wr \<longleftrightarrow> (us_rc_wdl s \<longrightarrow> wr = Some ErrDeadlineExceeded)"

text \<open>What the goroutine sends: a clean end is nil.\<close>

definition udp_result :: "go_error \<Rightarrow> go_error option" where
  "udp_result err =
     (if errors_Is err EOF \<or> errors_Is err ErrClosedPipe \<or> isTimeoutError (Some err) then None
      else Some err)"

definition udp_final :: "go_error option \<Rightarrow> go_error \<Rightarrow> go_error option" where
  "udp_final rerr err =
     (if rerr \<noteq> None then rerr else if isTimeoutError (Some err) then None else Some err)"

definition unsupported :: "net_addr \<Rightarrow> go_error option" where
  "unsupported a =
     (case a of
        UDPAddr _ _ \<Rightarrow> None
      | TCPAddr _ _ \<Rightarrow> Some (Msg ''handle udp error: unsupported packet address type *net.TCPAddr'')
      | SocksAddr _ \<Rightarrow> Some (Msg ''handle udp error: unsupported packet address type *socks.Addr'')
      | OtherAddr t \<Rightarrow> Some (Msg (''handle udp error: unsupported packet address type '' @ t)))"

text \<open>The client as its writer sees it: no deadline is ever set for a \<open>Write\<close> to it.\<close>

definition client_side :: "udp_setup \<Rightarrow> surroundings" where
  "client_side g =
     \<lparr>sr_silent = False, sr_stalled = ug_stalled g, sr_timeout = ErrDeadlineExceeded,
      sr_read_dl = False, sr_write_dl = False\<rparr>"

inductive udp_step :: "udp_setup \<Rightarrow> udp_state \<Rightarrow> udp_state \<Rightarrow> bool" for g s where
  up_frame: "us_client s = URounds \<Longrightarrow> replies s None \<Longrightarrow>
     udp_up_step (ug_dns g) (on (us_up s) (unheard s) (ug_end g) [None]) = Returns (Inr v) \<Longrightarrow>
     udp_step g s (s\<lparr>us_up := v, us_replies := us_replies s @ [None],
       us_read := us_read s @ take (length (unheard s) - length (content (uu_r v))) (unheard s)\<rparr>)"
| up_last: "us_client s = URounds \<Longrightarrow> replies s wr \<Longrightarrow>
     udp_up_step (ug_dns g) (on (us_up s) d e [wr]) = Returns (Inl (err, v)) \<Longrightarrow>
     hears g s d e \<or> d = unheard s \<and> ends_itself g s wr err \<Longrightarrow>
     udp_step g s (s\<lparr>us_client := UBroke err, us_up := v, us_replies := us_replies s @ [wr],
       us_heard := (d, e)\<rparr>)"
| up_panic: "us_client s = URounds \<Longrightarrow> replies s wr \<Longrightarrow>
     udp_up_step (ug_dns g) (on (us_up s) d e [wr]) = Panics p \<Longrightarrow>
     hears g s d e \<or> d = unheard s \<and> e = ug_end g \<Longrightarrow>
     udp_step g s (s\<lparr>us_client := UDead, us_main := UCrashed p, us_replies := us_replies s @ [wr],
       us_heard := (d, e)\<rparr>)"
| up_wake: "us_client s = UBroke err \<Longrightarrow>
     udp_step g s (s\<lparr>us_client := USending (udp_result err), us_rc_dl := Passed\<rparr>)"
| arm: "us_main s = UArm \<Longrightarrow> udp_step g s (s\<lparr>us_main := URead, us_rc_dl := Idle\<rparr>)"
| packet: "us_main s = URead \<Longrightarrow> us_rc_dl s \<noteq> Passed \<Longrightarrow> us_left s = (pkt, UDPAddr ip port) # ps \<Longrightarrow>
     udp_frame (us_buf s) pkt ip port = Returns (f, buf) \<Longrightarrow>
     udp_step g s (s\<lparr>us_main := UWrite f, us_buf := buf, us_left := ps,
       us_taken := us_taken s @ [(pkt, UDPAddr ip port)]\<rparr>)"
| odd_packet: "us_main s = URead \<Longrightarrow> us_rc_dl s \<noteq> Passed \<Longrightarrow> us_left s = (pkt, a) # ps \<Longrightarrow>
     unsupported a = Some err \<Longrightarrow>
     udp_step g s (s\<lparr>us_main := UBreak, us_err := err, us_left := ps,
       us_taken := us_taken s @ [(pkt, a)],
       us_client_dl := us_client_dl s \<or> ug_reader_wakeable g\<rparr>)"
| woken: "us_main s = URead \<Longrightarrow> us_rc_dl s = Passed \<Longrightarrow>
     udp_step g s (s\<lparr>us_main := UBreak, us_err := ErrDeadlineExceeded\<rparr>)"
| socket_end: "us_main s = URead \<Longrightarrow> us_rc_dl s \<noteq> Passed \<Longrightarrow> us_left s = [] \<Longrightarrow>
     ug_socket_end g = Some err \<Longrightarrow> udp_step g s (s\<lparr>us_main := UBreak, us_err := err\<rparr>)"
| written: "us_main s = UWrite f \<Longrightarrow> write_result (client_side g) f res \<Longrightarrow>
     os_write \<lparr>os_script = [res], os_data = us_out s\<rparr> f = ((n, None), w) \<Longrightarrow>
     udp_step g s (s\<lparr>us_main := UArm, us_out := os_data w, us_results := us_results s @ [res]\<rparr>)"
| write_failed: "us_main s = UWrite f \<Longrightarrow> write_result (client_side g) f res \<Longrightarrow>
     os_write \<lparr>os_script = [res], os_data = us_out s\<rparr> f = ((n, Some err), w) \<Longrightarrow>
     udp_step g s (s\<lparr>us_main := UBreak, us_err := err, us_out := os_data w,
       us_results := us_results s @ [res]\<rparr>)"
| leave: "us_main s = UBreak \<Longrightarrow>
     udp_step g s (s\<lparr>us_main := UWait, us_rc_wdl := True,
       us_client_dl := us_client_dl s \<or> ug_writer_wakeable g\<rparr>)"
| meet: "us_main s = UWait \<Longrightarrow> us_client s = USending rerr \<Longrightarrow>
     udp_step g s (s\<lparr>us_client := USent,
       us_main := UReturned (uu_nr (us_up s)) 0 (udp_final rerr (us_err s))\<rparr>)"

text \<open>Time passes: the idle timer of the socket runs out.\<close>

inductive udp_tick :: "udp_state \<Rightarrow> udp_state \<Rightarrow> bool" for s where
  idle: "us_main s = URead \<Longrightarrow> us_rc_dl s = Idle \<Longrightarrow>
     udp_tick s (s\<lparr>us_main := UBreak, us_err := ErrDeadlineExceeded\<rparr>)"

inductive_cases udp_stepE: "udp_step g s s'"
inductive_cases udp_tickE: "udp_tick s s'"

inductive udp_reachable :: "udp_setup \<Rightarrow> udp_state \<Rightarrow> bool" for g where
  start: "udp_reachable g (udp_start g)"
| step: "udp_reachable g s \<Longrightarrow> udp_step g s s' \<Longrightarrow> udp_reachable g s'"
| tick: "udp_reachable g s \<Longrightarrow> udp_tick s s' \<Longrightarrow> udp_reachable g s'"

section \<open>Every interleaving is a run of HandleUDP\<close>

text \<open>The inputs of the sequential \<open>HandleUDP\<close>: what the two goroutines have met.\<close>

definition met :: "udp_setup \<Rightarrow> udp_state \<Rightarrow> udp_env" where
  "met g s =
     \<lparr>udp_alloc_byte_err = None, listen_packet = None, alloc_prev = None, alloc_read = None,
      alloc_write = None, udp_dns = ug_dns g,
      client = pipe (us_read s @ fst (us_heard s)) (snd (us_heard s)),
      sock = \<lparr>pc_script = us_replies s, pc_sent = []\<rparr>, packets = us_taken s,
      packets_end = us_err s, client_writer = \<lparr>os_script = us_results s, os_data = []\<rparr>,
      client_wakeable = ug_reader_wakeable g, writer_wakeable = ug_writer_wakeable g\<rparr>"

text \<open>
  While the rounds go on, the sequential loop over what they have read is where they are,
  whatever comes next; once they have ended, it ends as they did.
\<close>

definition rounds_going :: "udp_setup \<Rightarrow> udp_state \<Rightarrow> bool" where
  "rounds_going g s \<longleftrightarrow>
     (\<forall>x e sc. udp_up_loop (ug_dns g) (udp_init (pipe (us_read s @ x) e)
          \<lparr>pc_script = us_replies s @ sc, pc_sent = []\<rparr>) =
        udp_up_loop (ug_dns g) (on (us_up s) x e sc))"

definition rounds_ended :: "udp_setup \<Rightarrow> udp_state \<Rightarrow> go_error \<Rightarrow> bool" where
  "rounds_ended g s err \<longleftrightarrow>
     udp_up_loop (ug_dns g) (udp_init (client (met g s)) (sock (met g s))) = Returns (err, us_up s)"

definition frames_going :: "udp_setup \<Rightarrow> udp_state \<Rightarrow> (bytes \<times> net_addr) list \<Rightarrow> bytes \<Rightarrow> bool" where
  "frames_going g s taken buf \<longleftrightarrow>
     length buf = udp_buf_len \<and>
     (\<forall>ps e sc. udp_downlink (ug_reader_wakeable g) \<lparr>os_script = us_results s @ sc, os_data = []\<rparr>
          udp_write_buf (taken @ ps) e 0 =
        udp_downlink (ug_reader_wakeable g) \<lparr>os_script = sc, os_data = us_out s\<rparr> buf ps e 0)"

definition frames_ended :: "udp_setup \<Rightarrow> udp_state \<Rightarrow> bool" where
  "frames_ended g s \<longleftrightarrow>
     (\<exists>acts w. udp_downlink (ug_reader_wakeable g) \<lparr>os_script = us_results s, os_data = []\<rparr>
          udp_write_buf (us_taken s) (us_err s) 0 = Returns (0, us_err s, acts, w) \<and>
        os_data w = us_out s)"

definition rounds_ok :: "udp_setup \<Rightarrow> udp_state \<Rightarrow> bool" where
  "rounds_ok g s \<longleftrightarrow>
     (case us_client s of
        URounds \<Rightarrow> rounds_going g s
      | UBroke err \<Rightarrow> rounds_ended g s err
      | USending rerr \<Rightarrow> \<exists>err. rerr = udp_result err \<and> rounds_ended g s err
      | USent \<Rightarrow> \<exists>nr nw err. us_main s = UReturned nr nw err
      | UDead \<Rightarrow> \<exists>p. us_main s = UCrashed p)"

definition agrees :: "udp_setup \<Rightarrow> udp_state \<Rightarrow> int \<Rightarrow> int \<Rightarrow> go_error option \<Rightarrow> bool" where
  "agrees g s nr nw err \<longleftrightarrow>
     (\<exists>run. HandleUDP (met g s) = Returns run \<and> udp_nr run = nr \<and> udp_nw run = nw \<and>
        udp_err run = err \<and> udp_sent run = pc_sent (uu_rc (us_up s)) \<and> udp_to_client run = us_out s)"

definition frames_ok :: "udp_setup \<Rightarrow> udp_state \<Rightarrow> bool" where
  "frames_ok g s \<longleftrightarrow>
     (case us_main s of
        UArm \<Rightarrow> frames_going g s (us_taken s) (us_buf s)
      | URead \<Rightarrow> frames_going g s (us_taken s) (us_buf s)
      | UWrite f \<Rightarrow> \<exists>taken pkt ip port buf. us_taken s = taken @ [(pkt, UDPAddr ip port)] \<and>
          udp_frame buf pkt ip port = Returns (f, us_buf s) \<and> length (us_buf s) = udp_buf_len \<and>
          frames_going g s taken buf
      | UBreak \<Rightarrow> frames_ended g s
      | UWait \<Rightarrow> frames_ended g s
      | UReturned nr nw err \<Rightarrow> us_client s = USent \<and> agrees g s nr nw err
      | UCrashed p \<Rightarrow> us_client s = UDead \<and> HandleUDP (met g s) = Panics p)"

definition udp_inv :: "udp_setup \<Rightarrow> udp_state \<Rightarrow> bool" where
  "udp_inv g s \<longleftrightarrow> rounds_ok g s \<and> frames_ok g s"

lemma udp_frame_total:
  assumes "length buf = udp_buf_len"
  shows "\<exists>f buf'. udp_frame buf pkt ip port = Returns (f, buf') \<and> length buf' = udp_buf_len"
proof -
  have "length hdr = MaxAddrLen \<and> l \<le> 19" if "put_udp_addr bb ip port = (l, hdr)" "length bb = MaxAddrLen" for bb l hdr
    using that by (auto simp: put_udp_addr_def Let_def MaxAddrLen_def split: option.splits)
  with assms show ?thesis
    by (fastforce simp: udp_frame_def Let_def slice_def MaxAddrLen_def split: prod.splits)
qed

lemma rounds_going_start: "rounds_going g (udp_start g)"
  by (simp add: rounds_going_def udp_start_def udp_init_def on_def)

lemma rounds_frame:
  assumes "rounds_going g s"
    "udp_up_step (ug_dns g) (on (us_up s) (unheard s) (ug_end g) [None]) = Returns (Inr v)"
  shows "rounds_going g (s\<lparr>us_up := v, us_replies := us_replies s @ [None],
    us_read := us_read s @ take (length (unheard s) - length (content (uu_r v))) (unheard s)\<rparr>)"
proof -
  obtain c d where c: "unheard s = c @ d" "v = on v d (ug_end g) []"
    "\<And>x e sc. udp_up_step (ug_dns g) (on (us_up s) (c @ x) e (None # sc)) = Returns (Inr (on v x e sc))"
    using assms(2) by (rule udp_up_step_on) metis
  have "content (uu_r v) = d" using c(2) by (metis on_simps(1) content_pipe)
  then have used: "take (length (unheard s) - length (content (uu_r v))) (unheard s) = c"
    using c(1) by simp
  have "udp_up_loop (ug_dns g) (on (us_up s) (c @ x) e (None # sc)) = udp_up_loop (ug_dns g) (on v x e sc)"
    for x e sc
    unfolding udp_up_loop.simps [of _ "on (us_up s) (c @ x) e (None # sc)"] by (simp add: c(3))
  then show ?thesis
    using assms(1) unfolding rounds_going_def used by simp
qed

lemma rounds_last:
  assumes "rounds_going g s" "udp_up_step (ug_dns g) (on (us_up s) d e [wr]) = Returns (Inl (err, v))"
  shows "rounds_ended g (s\<lparr>us_client := UBroke err, us_up := v, us_replies := us_replies s @ [wr],
    us_heard := (d, e)\<rparr>) err"
  using assms unfolding rounds_going_def rounds_ended_def met_def
  by (simp add: udp_up_loop.simps [of _ "on (us_up s) d e [wr]"])

lemma rounds_panic:
  assumes "rounds_going g s" "udp_up_step (ug_dns g) (on (us_up s) d e [wr]) = Panics p"
    "us_replies s' = us_replies s @ [wr]" "us_read s' = us_read s" "us_heard s' = (d, e)"
  shows "HandleUDP (met g s') = Panics p"
  using assms unfolding rounds_going_def met_def
  by (simp add: HandleUDP_def allocShortCircuit_def first_error_def udp_uplink_def
      udp_up_loop.simps [of _ "on (us_up s) d e [wr]"])

lemma frames_going_start: "frames_going g (udp_start g) [] udp_write_buf"
  by (simp add: frames_going_def udp_start_def udp_write_buf_def)

lemma os_write_one:
  "os_write \<lparr>os_script = [res], os_data = d\<rparr> f = (r, w) \<Longrightarrow>
    os_write \<lparr>os_script = res # sc, os_data = d\<rparr> f = (r, \<lparr>os_script = sc, os_data = os_data w\<rparr>)"
  by (cases res) (auto simp: os_write_def)

lemma frames_next:
  assumes "frames_going g s taken buf0" "udp_frame buf0 pkt ip port = Returns (f, buf)"
    "os_write \<lparr>os_script = [res], os_data = us_out s\<rparr> f = ((n, None), w)" "length buf = udp_buf_len"
    "us_results s' = us_results s @ [res]" "us_out s' = os_data w"
  shows "frames_going g s' (taken @ [(pkt, UDPAddr ip port)]) buf"
  using assms os_write_one [OF assms(3)] unfolding frames_going_def by simp

lemma frames_end_write:
  assumes "frames_going g s taken buf0" "udp_frame buf0 pkt ip port = Returns (f, buf)"
    "os_write \<lparr>os_script = [res], os_data = us_out s\<rparr> f = ((n, Some err), w)"
    "us_results s' = us_results s @ [res]" "us_out s' = os_data w" "us_err s' = err"
    "us_taken s' = taken @ [(pkt, UDPAddr ip port)]"
  shows "frames_ended g s'"
  using assms os_write_one [OF assms(3), of "[]"] unfolding frames_going_def frames_ended_def by simp

lemma frames_end:
  assumes "frames_going g s (us_taken s) buf" "us_results s' = us_results s" "us_out s' = us_out s"
    "us_taken s' = us_taken s"
  shows "frames_ended g s'"
  using assms(1) unfolding frames_going_def frames_ended_def assms(2-4)
  by (metis append.right_neutral ostream.select_convs(2) udp_downlink.simps(1))

lemma udp_downlink_odd:
  "unsupported a = Some err \<Longrightarrow> \<exists>acts. udp_downlink wk w buf ((pkt, a) # ps) e nw = Returns (nw, err, acts, w)"
  by (cases a) (simp_all add: unsupported_def)

lemma frames_end_odd:
  assumes "frames_going g s (us_taken s) buf" "unsupported a = Some (us_err s')"
    "us_results s' = us_results s" "us_out s' = us_out s" "us_taken s' = us_taken s @ [(pkt, a)]"
  shows "frames_ended g s'"
proof -
  let ?w = "\<lparr>os_script = [], os_data = us_out s\<rparr>"
  obtain acts where "udp_downlink (ug_reader_wakeable g) ?w buf [(pkt, a)] (us_err s') 0 =
      Returns (0, us_err s', acts, ?w)" using udp_downlink_odd [OF assms(2)] by blast
  moreover have "udp_downlink (ug_reader_wakeable g) \<lparr>os_script = us_results s @ [], os_data = []\<rparr>
      udp_write_buf (us_taken s @ [(pkt, a)]) (us_err s') 0 =
      udp_downlink (ug_reader_wakeable g) ?w buf [(pkt, a)] (us_err s') 0"
    using assms(1) unfolding frames_going_def by blast
  ultimately show ?thesis by (simp add: frames_ended_def assms(3-5))
qed

lemma agreesI:
  assumes "rounds_ended g s err" "frames_ended g s"
  shows "agrees g s (uu_nr (us_up s)) 0 (udp_final (udp_result err) (us_err s))"
proof -
  have "udp_uplink (udp_dns (met g s)) (client (met g s)) (sock (met g s)) =
      Returns (uu_nr (us_up s), udp_result err, uu_rc (us_up s))"
    using assms(1) by (simp add: rounds_ended_def udp_uplink_def udp_result_def met_def)
  moreover obtain acts w where "udp_downlink (client_wakeable (met g s)) (client_writer (met g s))
      udp_write_buf (packets (met g s)) (packets_end (met g s)) 0 = Returns (0, us_err s, acts, w)"
    "os_data w = us_out s"
    using assms(2) by (auto simp: frames_ended_def met_def)
  moreover have "udp_alloc_byte_err (met g s) = None" "listen_packet (met g s) = None"
    "alloc_prev (met g s) = None" "alloc_read (met g s) = None" "alloc_write (met g s) = None"
    by (simp_all add: met_def)
  ultimately show ?thesis
    by (simp add: agrees_def HandleUDP_def allocShortCircuit_def first_error_def udp_final_def)
qed

text \<open>What the two halves of the invariant look at.\<close>

lemma rounds_cong:
  assumes "us_up s' = us_up s" "us_read s' = us_read s" "us_replies s' = us_replies s"
    "us_heard s' = us_heard s"
  shows "rounds_going g s' = rounds_going g s" "rounds_ended g s' = rounds_ended g s"
  using assms by (simp_all add: rounds_going_def rounds_ended_def met_def fun_eq_iff)

lemma frames_cong:
  assumes "us_results s' = us_results s" "us_out s' = us_out s" "us_taken s' = us_taken s"
    "us_err s' = us_err s"
  shows "frames_going g s' = frames_going g s" "frames_ended g s' = frames_ended g s"
  using assms by (simp_all add: frames_going_def frames_ended_def fun_eq_iff)

lemma udp_inv_start: "udp_inv g (udp_start g)"
  using rounds_going_start [of g] frames_going_start [of g]
  by (simp add: udp_inv_def rounds_ok_def frames_ok_def) (simp add: udp_start_def)

definition over :: "udp_state \<Rightarrow> bool" where
  "over s \<longleftrightarrow> (\<exists>nr nw err. us_main s = UReturned nr nw err) \<or> (\<exists>p. us_main s = UCrashed p)"

text \<open>A step of one goroutine leaves the half of the other alone.\<close>

lemma rounds_ok_cong:
  assumes "rounds_ok g s" "\<not> over s" "us_client s' = us_client s" "us_up s' = us_up s"
    "us_read s' = us_read s" "us_replies s' = us_replies s" "us_heard s' = us_heard s"
  shows "rounds_ok g s'"
  using assms(1-3) rounds_cong [OF assms(4-7), of g]
  by (auto simp: rounds_ok_def over_def split: udp_client.splits)

lemma frames_ok_cong:
  assumes "frames_ok g s" "\<not> over s" "us_main s' = us_main s" "us_buf s' = us_buf s"
    "us_results s' = us_results s" "us_out s' = us_out s" "us_taken s' = us_taken s" "us_err s' = us_err s"
  shows "frames_ok g s'"
  using assms(1-4,7) frames_cong [OF assms(5-8), of g]
  by (auto simp: frames_ok_def over_def split: udp_main.splits)

lemma udp_inv_client_step:
  assumes "udp_inv g s" "us_client s \<notin> {USent, UDead}" "rounds_ok g s'" "us_main s' = us_main s"
    "us_buf s' = us_buf s" "us_results s' = us_results s" "us_out s' = us_out s"
    "us_taken s' = us_taken s" "us_err s' = us_err s"
  shows "udp_inv g s'"
proof -
  have "frames_ok g s" "\<not> over s" using assms(1,2) by (auto simp: udp_inv_def frames_ok_def over_def)
  from frames_ok_cong [OF this assms(4-9)] assms(3) show ?thesis by (simp add: udp_inv_def)
qed

lemma udp_inv_main_step:
  assumes "udp_inv g s" "\<not> over s" "us_client s' = us_client s" "us_up s' = us_up s"
    "us_read s' = us_read s" "us_replies s' = us_replies s" "us_heard s' = us_heard s" "frames_ok g s'"
  shows "udp_inv g s'"
  using assms rounds_ok_cong [OF _ assms(2-7)] by (simp add: udp_inv_def)

lemma udp_inv_read_failed:
  assumes "udp_inv g s" "us_main s = URead" "s' = s\<lparr>us_main := UBreak, us_err := e\<rparr>"
  shows "udp_inv g s'"
proof (rule udp_inv_main_step [OF assms(1)])
  show "frames_ok g s'"
    using assms frames_end [of g s "us_buf s" s'] by (simp add: udp_inv_def frames_ok_def)
qed (simp_all add: assms(2,3) over_def)

lemma udp_inv_meet:
  assumes "udp_inv g s" "us_main s = UWait" "us_client s = USending rerr"
    "s' = s\<lparr>us_client := USent, us_main := UReturned (uu_nr (us_up s)) 0 (udp_final rerr (us_err s))\<rparr>"
  shows "udp_inv g s'"
proof -
  obtain err where "rerr = udp_result err" "rounds_ended g s err"
    using assms(1,3) by (auto simp: udp_inv_def rounds_ok_def)
  moreover have "frames_ended g s" using assms(1,2) by (simp add: udp_inv_def frames_ok_def)
  ultimately have "agrees g s (uu_nr (us_up s)) 0 (udp_final rerr (us_err s))" using agreesI by simp
  then show ?thesis
    using assms(4) by (simp add: udp_inv_def rounds_ok_def frames_ok_def agrees_def met_def)
qed

lemma udp_inv_packet:
  assumes "udp_inv g s" "us_main s = URead" "udp_frame (us_buf s) pkt ip port = Returns (f, buf)"
    "s' = s\<lparr>us_main := UWrite f, us_buf := buf, us_left := ps,
       us_taken := us_taken s @ [(pkt, UDPAddr ip port)]\<rparr>"
  shows "udp_inv g s'"
proof (rule udp_inv_main_step [OF assms(1)])
  have going: "frames_going g s (us_taken s) (us_buf s)"
    using assms(1,2) by (simp add: udp_inv_def frames_ok_def)
  then have "length (us_buf s) = udp_buf_len" by (simp add: frames_going_def)
  from udp_frame_total [OF this, of pkt ip port] assms(3) have "length buf = udp_buf_len" by auto
  moreover have "frames_going g s' = frames_going g s"
    using assms(4) by (simp add: frames_going_def fun_eq_iff)
  ultimately show "frames_ok g s'" using going assms(3,4) by (auto simp: frames_ok_def)
qed (simp_all add: assms(2,4) over_def)

lemma udp_inv_write:
  assumes "udp_inv g s" "us_main s = UWrite f"
    "os_write \<lparr>os_script = [res], os_data = us_out s\<rparr> f = ((n, ew), w)"
    "s' = (case ew of
       None \<Rightarrow> s\<lparr>us_main := UArm, us_out := os_data w, us_results := us_results s @ [res]\<rparr>
     | Some err \<Rightarrow> s\<lparr>us_main := UBreak, us_err := err, us_out := os_data w,
         us_results := us_results s @ [res]\<rparr>)"
  shows "udp_inv g s'"
proof (rule udp_inv_main_step [OF assms(1)])
  obtain taken pkt ip port buf where *: "us_taken s = taken @ [(pkt, UDPAddr ip port)]"
    "udp_frame buf pkt ip port = Returns (f, us_buf s)" "length (us_buf s) = udp_buf_len"
    "frames_going g s taken buf" using assms(1,2) by (auto simp: udp_inv_def frames_ok_def)
  show "frames_ok g s'"
    using *(1) assms(3,4) frames_next [OF *(4,2) _ *(3), of res n w s']
      frames_end_write [OF *(4,2), of res n _ w s']
    by (cases ew) (simp_all add: frames_ok_def)
qed (simp_all add: assms(2,4) over_def split: option.split)

lemma udp_inv_step:
  assumes "udp_inv g s" "udp_step g s s'"
  shows "udp_inv g s'"
  using assms(2)
proof cases
  case (up_frame v)
  show ?thesis
    using assms(1) rounds_frame [OF _ up_frame(4)]
    by (intro udp_inv_client_step [OF assms(1)]) (simp_all add: up_frame(1,2) udp_inv_def rounds_ok_def)
next
  case (up_last wr d e err v)
  show ?thesis
    using assms(1) rounds_last [OF _ up_last(4)]
    by (intro udp_inv_client_step [OF assms(1)]) (simp_all add: up_last(1,2) udp_inv_def rounds_ok_def)
next
  case (up_wake err)
  show ?thesis
    using assms(1) rounds_cong(2) [of s' s g]
    by (intro udp_inv_client_step [OF assms(1)]) (auto simp: up_wake udp_inv_def rounds_ok_def)
next
  case (up_panic wr d e p)
  have "rounds_going g s" using assms(1) up_panic(2) by (simp add: udp_inv_def rounds_ok_def)
  from rounds_panic [OF this up_panic(4), of s'] up_panic(1) show ?thesis
    by (simp add: udp_inv_def rounds_ok_def frames_ok_def)
next
  case (odd_packet pkt a ps err)
  then show ?thesis
    using assms(1) frames_end_odd [of g s "us_buf s" a s' pkt]
    by (intro udp_inv_main_step [OF assms(1)]) (simp_all add: over_def udp_inv_def frames_ok_def)
next
  case arm
  have "frames_going g s' = frames_going g s" using arm(1) by (simp add: frames_going_def fun_eq_iff)
  then show ?thesis
    using assms(1) arm
    by (intro udp_inv_main_step [OF assms(1)]) (simp_all add: over_def udp_inv_def frames_ok_def)
next
  case leave
  have "frames_ended g s' = frames_ended g s" using leave(1) by (simp add: frames_ended_def)
  then show ?thesis
    using assms(1) leave
    by (intro udp_inv_main_step [OF assms(1)]) (simp_all add: over_def udp_inv_def frames_ok_def)
next
  case packet
  then show ?thesis by (intro udp_inv_packet [OF assms(1)])
next
  case written
  from udp_inv_write [OF assms(1) written(2,4)] written(1) show ?thesis by simp
next
  case write_failed
  from udp_inv_write [OF assms(1) write_failed(2,4)] write_failed(1) show ?thesis by simp
next
  case meet
  then show ?thesis by (intro udp_inv_meet [OF assms(1)])
qed (use udp_inv_read_failed [OF assms(1)] in simp_all)

lemma udp_inv_tick: "udp_inv g s \<Longrightarrow> udp_tick s s' \<Longrightarrow> udp_inv g s'"
  by (elim udp_tickE) (simp add: udp_inv_read_failed)

lemma udp_reachable_inv: "udp_reachable g s \<Longrightarrow> udp_inv g s"
  by (induction rule: udp_reachable.induct) (auto intro: udp_inv_start udp_inv_step udp_inv_tick)

text \<open>
  C12: the sequential \<open>HandleUDP\<close> is what every interleaving does. However rounds, datagrams,
  wake-ups and the idle timer interleave, wherever the client's stream is cut by a deadline and
  whatever fails: when the function returns, its counts, its error, the datagrams sent and the
  bytes the client has received are those of \<open>HandleUDP\<close> on what the two goroutines have met.
\<close>

theorem interleavings_are_HandleUDP:
  assumes "udp_reachable g s" "us_main s = UReturned nr nw err"
  shows "\<exists>run. HandleUDP (met g s) = Returns run \<and> udp_nr run = nr \<and> udp_nw run = nw \<and>
    udp_err run = err \<and> udp_sent run = pc_sent (uu_rc (us_up s)) \<and> udp_to_client run = us_out s"
  using udp_reachable_inv [OF assms(1)] assms(2) by (simp add: udp_inv_def frames_ok_def agrees_def)

section \<open>Sessions end\<close>

definition udp_moves :: "udp_setup \<Rightarrow> udp_state \<Rightarrow> udp_state \<Rightarrow> bool" where
  "udp_moves g s s' \<longleftrightarrow> udp_step g s s' \<or> udp_tick s s'"

definition udp_weight :: "udp_state \<Rightarrow> nat" where
  "udp_weight s =
     (case us_client s of
        URounds \<Rightarrow> 3 + length (unheard s) | UBroke _ \<Rightarrow> 2 | USending _ \<Rightarrow> 1 | USent \<Rightarrow> 0 | UDead \<Rightarrow> 0)
     + (case us_main s of
          UArm \<Rightarrow> 6 + 3 * length (us_left s) | URead \<Rightarrow> 5 + 3 * length (us_left s)
        | UWrite _ \<Rightarrow> 7 + 3 * length (us_left s) | UBreak \<Rightarrow> 2 | UWait \<Rightarrow> 1
        | UReturned _ _ _ \<Rightarrow> 0 | UCrashed _ \<Rightarrow> 0)"

lemma udp_moves_weight: "udp_moves g s s' \<Longrightarrow> udp_weight s' < udp_weight s"
  unfolding udp_moves_def
  by (elim disjE udp_stepE udp_tickE)
    (auto simp: udp_weight_def dest: udp_up_step_shrinks split: udp_client.splits udp_main.splits)

lemma udp_reachable_moves: "udp_reachable g s \<Longrightarrow> udp_moves g s s' \<Longrightarrow> udp_reachable g s'"
  by (auto simp: udp_moves_def intro: udp_reachable.step udp_reachable.tick)

text \<open>Whoever waits for the client has set its deadline, whoever reads the socket the timer.\<close>

definition udp_armed :: "udp_setup \<Rightarrow> udp_state \<Rightarrow> bool" where
  "udp_armed g s \<longleftrightarrow>
     (us_main s = UWait \<longrightarrow> ug_writer_wakeable g \<longrightarrow> us_client_dl s) \<and>
     (us_main s = URead \<longrightarrow> us_rc_dl s \<noteq> Unset)"

lemma udp_reachable_armed: "udp_reachable g s \<Longrightarrow> udp_armed g s"
proof (induction rule: udp_reachable.induct)
  case start
  then show ?case by (simp add: udp_armed_def udp_start_def)
next
  case (step s s')
  from step.hyps(2) step.IH show ?case by cases (auto simp: udp_armed_def)
next
  case (tick s s')
  from tick.hyps(2) show ?case by cases (simp add: udp_armed_def)
qed

text \<open>A round whose client has a passed deadline ends, also in the middle of a frame.\<close>

lemma round_can_end:
  assumes "us_client s = URounds" "us_client_dl s"
  shows "\<exists>s'. udp_step g s s'"
proof -
  have h: "hears g s (unheard s) (ug_timeout g)" using assms(2) by (simp add: hears_def)
  have r: "replies s (Some ErrDeadlineExceeded)" by (simp add: replies_def)
  show ?thesis
  proof (cases "udp_up_step (ug_dns g) (on (us_up s) (unheard s) (ug_timeout g) [Some ErrDeadlineExceeded])")
    case (Returns x)
    then obtain err v where "x = Inl (err, v)" using udp_up_step_refused by (cases x) auto
    with Returns up_last [OF assms(1) r _ disjI1 [OF h]] show ?thesis by blast
  next
    case (Panics p)
    with up_panic [OF assms(1) r _ disjI1 [OF h]] show ?thesis by blast
  qed
qed

lemma udp_progress:
  assumes "udp_reachable g s" "\<not> over s" "ug_writer_wakeable g" "\<not> ug_stalled g"
  shows "\<exists>s'. udp_moves g s s'"
proof (cases "us_main s")
  case UArm
  then show ?thesis using arm by (auto simp: udp_moves_def)
next
  case URead
  with udp_reachable_armed [OF assms(1)] have "us_rc_dl s = Idle \<or> us_rc_dl s = Passed"
    by (cases "us_rc_dl s") (auto simp: udp_armed_def)
  with URead show ?thesis using woken idle by (metis udp_moves_def)
next
  case (UWrite f)
  have "write_result (client_side g) f (int (length f), None)"
    using assms(4) by (intro write_result.accepted) (simp add: client_side_def)
  moreover obtain w where "os_write \<lparr>os_script = [(int (length f), None)], os_data = us_out s\<rparr> f =
      ((int (length f), None), w)" by (simp add: os_write_def)
  ultimately show ?thesis using written [OF UWrite] by (metis udp_moves_def)
next
  case UBreak
  then show ?thesis using leave by (auto simp: udp_moves_def)
next
  case UWait
  with udp_reachable_armed [OF assms(1)] assms(3) have dl: "us_client_dl s" by (simp add: udp_armed_def)
  show ?thesis
  proof (cases "us_client s")
    case URounds
    then show ?thesis using round_can_end [OF _ dl, of g] by (auto simp: udp_moves_def)
  next
    case (UBroke err)
    then show ?thesis using up_wake by (auto simp: udp_moves_def)
  next
    case (USending rerr)
    with UWait show ?thesis using meet by (metis udp_moves_def)
  qed (use UWait udp_reachable_inv [OF assms(1)] in \<open>simp_all add: udp_inv_def rounds_ok_def\<close>)
qed (use assms(2) in \<open>simp_all add: over_def\<close>)

inductive udp_ends :: "udp_setup \<Rightarrow> udp_state \<Rightarrow> bool" for g where
  finished: "over s \<Longrightarrow> udp_ends g s"
| more: "udp_moves g s s1 \<Longrightarrow> (\<And>s'. udp_moves g s s' \<Longrightarrow> udp_ends g s') \<Longrightarrow> udp_ends g s"

lemma udp_reachable_ends:
  assumes "udp_reachable g s" "ug_writer_wakeable g" "\<not> ug_stalled g"
  shows "udp_ends g s"
  using assms(1)
proof (induction "udp_weight s" arbitrary: s rule: less_induct)
  case less
  show ?case
  proof (cases "over s")
    case False
    then obtain s1 where "udp_moves g s s1"
      using udp_progress [OF less.prems False assms(2,3)] by blast
    then show ?thesis
    proof (rule udp_ends.more)
      fix s' assume "udp_moves g s s'"
      then show "udp_ends g s'"
        by (intro less.hyps udp_moves_weight udp_reachable_moves [OF less.prems])
    qed
  qed (rule udp_ends.finished)
qed


text \<open>A client that closes at once, and a silent network.\<close>

definition demo_udp :: udp_setup where
  "demo_udp =
     \<lparr>ug_dns = demo_dns, ug_data = [], ug_end = EOF, ug_silent = False, ug_timeout = NetTimeout,
      ug_reader_wakeable = True, ug_writer_wakeable = True, ug_packets = [], ug_socket_end = None,
      ug_stalled = False\<rparr>"


section \<open>A wake-up can be lost\<close>

text \<open>
  The goroutine of the client ends the session by a read deadline that has passed; the main one
  sets the idle timer at the top of its loop without looking whether there is such a deadline.
\<close>

lemma wake_up_lost:
  assumes "udp_reachable g s" "us_client s = UBroke err" "us_main s = UArm" "us_left s = []"
    "ug_socket_end g = None"
  obtains t where "udp_reachable g t" "us_client t = USending (udp_result err)" "us_main t = URead"
    "us_rc_dl t = Idle" "us_up t = us_up s" "\<And>t'. \<not> udp_step g t t'"
proof -
  let ?s1 = "s\<lparr>us_client := USending (udp_result err), us_rc_dl := Passed\<rparr>"
  let ?t = "?s1\<lparr>us_main := URead, us_rc_dl := Idle\<rparr>"
  have 1: "udp_reachable g ?s1" by (rule udp_reachable.step [OF assms(1) up_wake [OF assms(2)]])
  have "udp_step g ?s1 ?t" by (rule arm) (simp add: assms(3))
  then have "udp_reachable g ?t" by (rule udp_reachable.step [OF 1])
  moreover have "\<not> udp_step g ?t t'" for t'
    using assms(4,5) by (auto elim!: udp_stepE)
  ultimately show thesis by (intro that [of ?t]) simp_all
qed

text \<open>
  C32: the wake-up of a finished client can be lost. When the client's stream has ended while
  the main goroutine is between two datagrams, \<open>SetReadDeadline(time.Now())\<close> can come before
  \<open>SetReadDeadline(time.Now().Add(timeout))\<close>, which overwrites it: then, on a network that
  sends nothing more, both goroutines are stuck until the idle timer (ten minutes in
  \<open>trojan.go\<close>) runs out, with the socket and the buffers of a session whose client is gone.
\<close>

theorem wake_up_can_be_lost:
  assumes "udp_reachable g s" "us_client s = UBroke err" "us_main s = UArm" "us_left s = []"
    "ug_socket_end g = None"
  shows "\<exists>t. udp_reachable g t \<and> us_client t = USending (udp_result err) \<and> us_main t = URead \<and>
    (\<forall>t'. \<not> udp_step g t t')"
  using wake_up_lost [OF assms] by metis

lemma demo_udp_broke:
  obtains s where "udp_reachable demo_udp s" "us_client s = UBroke EOF" "us_main s = UArm" "us_left s = []"
proof -
  let ?s = "udp_start demo_udp"
  have none: "content (pipe [] EOF) = []" "2 \<le> length (uu_b (us_up ?s))" "unheard ?s = []"
    by (simp_all add: udp_start_def udp_init_def demo_udp_def)
  then have "length (content (pipe [] EOF)) < 2" by simp
  from ReadAddrBuffer_no_head [OF none(2) this] obtain b r
    where "ReadAddrBuffer (pipe [] EOF) (uu_b (us_up ?s)) = Returns (Inl EOF, b, r)"
    by (auto simp: read_full_error_def)
  then obtain v where v: "udp_up_step demo_dns (on (us_up ?s) [] EOF [None]) = Returns (Inl (EOF, v))"
    by (simp add: udp_up_step_def)
  have "us_client ?s = URounds" "replies ?s None" "hears demo_udp ?s [] EOF"
    using none(3) by (simp_all add: udp_start_def replies_def hears_def demo_udp_def)
  from up_last [OF this(1,2) _ disjI1 [OF this(3)]] v
  have "udp_step demo_udp ?s (?s\<lparr>us_client := UBroke EOF, us_up := v,
      us_replies := us_replies ?s @ [None], us_heard := ([], EOF)\<rparr>)"
    by (simp add: demo_udp_def)
  from udp_reachable.step [OF udp_reachable.start this] show thesis
    by (rule that) (simp_all add: udp_start_def demo_udp_def)
qed

theorem wake_up_can_be_lost_witness:
  "\<exists>t. udp_reachable demo_udp t \<and> us_client t = USending None \<and> us_main t = URead \<and>
    (\<forall>t'. \<not> udp_step demo_udp t t')"
proof -
  obtain s where s: "udp_reachable demo_udp s" "us_client s = UBroke EOF" "us_main s = UArm" "us_left s = []"
    by (rule demo_udp_broke)
  have "ug_socket_end demo_udp = None" "udp_result EOF = None" by (simp_all add: demo_udp_def udp_result_def)
  with wake_up_can_be_lost [OF s] show ?thesis by simp
qed

text \<open>The same session, when the timer has run out.\<close>

theorem interleavings_are_HandleUDP_witness:
  "\<exists>s nr run. udp_reachable demo_udp s \<and> us_main s = UReturned nr 0 None \<and>
    HandleUDP (met demo_udp s) = Returns run \<and> udp_nr run = nr \<and> udp_err run = None"
proof -
  obtain s where s: "udp_reachable demo_udp s" "us_client s = UBroke EOF" "us_main s = UArm" "us_left s = []"
    by (rule demo_udp_broke)
  have "ug_socket_end demo_udp = None" by (simp add: demo_udp_def)
  from wake_up_lost [OF s this] obtain t where t: "udp_reachable demo_udp t"
    "us_client t = USending (udp_result EOF)" "us_main t = URead" "us_rc_dl t = Idle" by metis
  let ?t1 = "t\<lparr>us_main := UBreak, us_err := ErrDeadlineExceeded\<rparr>"
  let ?t2 = "?t1\<lparr>us_main := UWait, us_rc_wdl := True,
    us_client_dl := us_client_dl ?t1 \<or> ug_writer_wakeable demo_udp\<rparr>"
  let ?t3 = "?t2\<lparr>us_client := USent,
    us_main := UReturned (uu_nr (us_up ?t2)) 0 (udp_final (udp_result EOF) (us_err ?t2))\<rparr>"
  have "udp_reachable demo_udp ?t1" by (rule udp_reachable.tick [OF t(1) idle [OF t(3,4)]])
  moreover have "udp_step demo_udp ?t1 ?t2" by (rule leave) simp
  moreover have "udp_step demo_udp ?t2 ?t3" by (rule meet) (simp_all add: t(2))
  ultimately have r: "udp_reachable demo_udp ?t3" using udp_reachable.step by metis
  have m: "us_main ?t3 = UReturned (uu_nr (us_up t)) 0 None"
    by (simp add: udp_final_def udp_result_def isTimeoutError_def)
  from interleavings_are_HandleUDP [OF r m] r m show ?thesis by metis
qed

end
