(* ===== verification/Http_Tunnel.thy ===== *)
theory Http_Tunnel
  imports Tcp_Interleaved Udp_Interleaved
begin

text \<open>
  The writer that \<open>ServeHTTP\<close> of \<open>modules/handler/handler.go\<close> gives to the tunnel of a CONNECT
  request, and what follows from it for the end of a session: the functions of
  \<open>pkgs/trojan/wakeable.go\<close> ask a writer for an optional method, which this one does not have.
\<close>

section \<open>Optional methods\<close>

text \<open>The writers of the program, by the methods that the tunnels look for in them.\<close>

type_synonym methods = "string set"

definition wakeableConn :: "methods \<Rightarrow> bool" where
  "wakeableConn w \<longleftrightarrow> ''SetReadDeadline'' \<in> w"

declare wakeableConn_def [simp]

definition trySetReadDeadline :: "methods \<Rightarrow> deadline \<Rightarrow> deadline list \<times> bool" where
  "trySetReadDeadline w t = (if wakeableConn w then ([t], True) else ([], False))"

definition trySetImmediateReadDeadline :: "methods \<Rightarrow> deadline list \<times> bool" where
  "trySetImmediateReadDeadline rw = (if \<not> wakeableConn rw then ([], False) else ([Now], True))"

lemma wakeReader_tries:
  "w_wakeable env = (''SetReadDeadline'' \<in> w) \<Longrightarrow>
    wakeReader env = map WReadDeadline (fst (trySetImmediateReadDeadline w))"
  by (simp add: wakeReader_def opt_act_def trySetImmediateReadDeadline_def)

lemma grace_tries:
  "w_wakeable env = (''SetReadDeadline'' \<in> w) \<Longrightarrow>
    opt_act (w_wakeable env) (WReadDeadline t) = map WReadDeadline (fst (trySetReadDeadline w t))"
  by (simp add: opt_act_def trySetReadDeadline_def)

section \<open>FlushWriter\<close>

text \<open>The writer of the response, and after how many of its bytes it was flushed.\<close>

record flush_writer =
  fw_Writer :: ostream
  fw_flushed :: "nat list"

definition NewFlushWriter :: "bool \<Rightarrow> ostream \<Rightarrow> flush_writer outcome" where
  "NewFlushWriter is_flusher w =
     (if is_flusher then Returns \<lparr>fw_Writer = w, fw_flushed = []\<rparr>
      else Panics (ExplicitPanic ''interface conversion: missing method Flush''))"

definition FlushWriter_Write :: "flush_writer \<Rightarrow> bytes \<Rightarrow> (int \<times> go_error option) \<times> flush_writer" where
  "FlushWriter_Write c b =
     (case os_write (fw_Writer c) b of
        (res, w) \<Rightarrow> (res, \<lparr>fw_Writer = w, fw_flushed = fw_flushed c @ [length (os_data w)]\<rparr>))"

definition FlushWriter_methods :: methods where
  "FlushWriter_methods = {''Write''}"

text \<open>
  The types that the compile-time guards of \<open>wakeable.go\<close> name, by their methods of interest here,
  and the one type of writer in the program that is not among them.
\<close>

datatype writer_type = NetTCPConn_w | NetUDPConn_w | WebsocketConn_w | FlushWriter_w

primrec methods_of :: "writer_type \<Rightarrow> methods" where
  "methods_of NetTCPConn_w = {''Read'', ''Write'', ''Close'', ''CloseWrite'', ''SetReadDeadline''}"
| "methods_of NetUDPConn_w = {''Read'', ''Write'', ''Close'', ''SetReadDeadline''}"
| "methods_of WebsocketConn_w = {''Read'', ''Write'', ''Close'', ''SetReadDeadline''}"
| "methods_of FlushWriter_w = FlushWriter_methods"

definition wakeable_guards :: "writer_type list" where
  "wakeable_guards = [NetTCPConn_w, NetUDPConn_w, WebsocketConn_w]"

lemma guards_are_wakeable: "wakeableConn (methods_of w) \<longleftrightarrow> w \<in> set wakeable_guards"
  by (cases w) (simp_all add: wakeable_guards_def FlushWriter_methods_def)

text \<open>Nothing stays behind: after every \<open>Write\<close> all that was accepted has been flushed.\<close>

lemma FlushWriter_flushes:
  "FlushWriter_Write c b = (res, c') \<Longrightarrow>
    os_write (fw_Writer c) b = (res, fw_Writer c') \<and> last (fw_flushed c') = length (os_data (fw_Writer c'))"
  by (auto simp: FlushWriter_Write_def split: prod.splits)

section \<open>A tunnel over HTTP can outlive its remote\<close>

text \<open>A session whose main goroutine waits for a silent client it has not woken.\<close>

lemma waiting_is_stuck:
  assumes "ts_main s = MWait err" "ts_client s = Copying" "cp_phase (ts_up s) = Reading"
    "cp_in (ts_up s) = \<lparr>is_chunks = [], is_last = [], is_err = e\<rparr>" "su_client_silent g" "\<not> ts_client_dl s"
  shows "\<not> tcp_step g s s'"
  using assms by (auto simp: up_around_def is_read_def elim!: tcp_stepE copy_stepE)

lemma remote_ends_unwoken:
  assumes "bs \<noteq> []" "length bs \<le> tcpBufSize" "\<not> su_wakeable g" "su_client_silent g"
    "su_client g = \<lparr>is_chunks = [], is_last = [], is_err = e\<rparr>"
    "su_remote g = \<lparr>is_chunks = [], is_last = bs, is_err = EOF\<rparr>"
    "\<not> su_remote_silent g" "\<not> su_client_stalled g"
  shows "\<exists>s. tcp_reachable g s \<and> ts_main s = MWait None \<and> cp_out (ts_down s) = bs \<and> (\<forall>s'. \<not> tcp_step g s s')"
proof -
  let ?s0 = "tcp_start g"
  let ?empty = "\<lparr>is_chunks = [], is_last = [], is_err = EOF\<rparr>"
  let ?d1 = "(ts_down ?s0)\<lparr>cp_in := ?empty, cp_phase := Writing bs (Some EOF)\<rparr>"
  let ?s1 = "?s0\<lparr>ts_down := ?d1\<rparr>"
  have "is_read (cp_in (ts_down ?s0)) tcpBufSize = ((bs, Some EOF), ?empty)"
    using assms(2,6) by (simp add: tcp_start_def new_copy_def is_read_def)
  moreover have "cp_phase (ts_down ?s0) = Reading" "ts_main ?s0 = MCopy"
    by (simp_all add: tcp_start_def new_copy_def)
  ultimately have 1: "tcp_step g ?s0 ?s1"
    using tcp_step.down_copy [OF _ copy_step.read] assms(1,7) by (fastforce simp: after_read_def down_around_def)
  let ?d2 = "copied bs (Some EOF) (int (length bs), None) ?d1"
  let ?s2 = "?s1\<lparr>ts_down := ?d2\<rparr>"
  have "write_result (down_around g ?s1) bs (int (length bs), None)"
    by (rule write_result.accepted) (simp add: down_around_def assms(8))
  then have "copy_step (down_around g ?s1) (ts_down ?s1) ?d2"
    using copy_step.written [of "ts_down ?s1" bs "Some EOF"] by simp
  then have 2: "tcp_step g ?s1 ?s2" by (intro tcp_step.down_copy) (simp_all add: tcp_start_def)
  have "write_chunk \<lparr>os_script = [(int (length bs), None)], os_data = d\<rparr> bs =
      (int (length bs), None, \<lparr>os_script = [], os_data = d @ bs\<rparr>)" for d
    by (simp add: write_chunk_def os_write_def)
  then have d2: "cp_phase ?d2 = Ended None" "cp_out ?d2 = bs"
    using assms(1) unfolding copied_def by (simp_all add: tcp_start_def new_copy_def Let_def)
  let ?s3 = "?s2\<lparr>ts_main := MWait None, ts_client_dl := ts_client_dl ?s2 \<or> su_wakeable g\<rparr>"
  have 3: "tcp_step g ?s2 ?s3" by (rule tcp_step.down_eof) (use d2 in \<open>simp_all add: tcp_start_def\<close>)
  have "\<not> tcp_step g ?s3 s'" for s'
    by (rule waiting_is_stuck [where e = e]) (use assms(3-5) in \<open>simp_all add: tcp_start_def new_copy_def\<close>)
  moreover have "tcp_reachable g ?s3"
    by (rule tcp_reachable.step [OF tcp_reachable.step [OF tcp_reachable.step [OF tcp_reachable.start 1] 2] 3])
  ultimately show ?thesis using d2 by (intro exI [of _ ?s3]) simp
qed

text \<open>
  C33: a TCP session over a CONNECT request of HTTP/2 or HTTP/3 does not end with its remote. The
  tunnel writes through a \<open>FlushWriter\<close>, which has no \<open>SetReadDeadline\<close> and no \<open>CloseWrite\<close>: when
  the remote has answered and closed, the client gets the answer but is not told of the end,
  and as long as it waits for more, the goroutine that reads from it cannot be woken and the
  main one waits for that goroutine; no timer is set, and no step is left.
\<close>

theorem http_tunnel_outlives_remote:
  assumes "su_wakeable g = snd (trySetImmediateReadDeadline FlushWriter_methods)" "su_client_silent g"
    "su_client g = \<lparr>is_chunks = [], is_last = [], is_err = e\<rparr>"
    "su_remote g = \<lparr>is_chunks = [], is_last = bs, is_err = EOF\<rparr>" "bs \<noteq> []" "length bs \<le> tcpBufSize"
    "\<not> su_remote_silent g" "\<not> su_client_stalled g"
  shows "\<exists>s. tcp_reachable g s \<and> ts_main s = MWait None \<and> cp_out (ts_down s) = bs \<and>
    (\<forall>s'. \<not> tcp_step g s s')"
  by (rule remote_ends_unwoken [OF assms(5,6) _ assms(2-4,7,8)])
    (simp add: assms(1) trySetImmediateReadDeadline_def FlushWriter_methods_def)

definition h2_setup :: tcp_setup where
  "h2_setup =
     \<lparr>su_client = \<lparr>is_chunks = [], is_last = [], is_err = EOF\<rparr>,
      su_remote = \<lparr>is_chunks = [], is_last = [3], is_err = EOF\<rparr>,
      su_client_silent = True, su_remote_silent = False, su_client_stalled = False,
      su_remote_stalled = False, su_timeout = NetTimeout, su_wakeable = False\<rparr>"

theorem http_tunnel_outlives_remote_witness:
  "\<exists>s. tcp_reachable h2_setup s \<and> ts_main s = MWait None \<and> cp_out (ts_down s) = [3] \<and>
    (\<forall>s'. \<not> tcp_step h2_setup s s')"
  by (rule http_tunnel_outlives_remote)
    (simp_all add: h2_setup_def trySetImmediateReadDeadline_def FlushWriter_methods_def tcpBufSize_def)

text \<open>
  The same for UDP: the idle timer ends the main goroutine, which then waits for the other one
  for ever, with the socket of the session open.
\<close>

lemma silent_round_goes_on:
  assumes "length (uu_b u) = 65536 + MaxAddrLen"
  shows "\<exists>v. udp_up_step dns (on u [] e wrs) = Returns (Inl (e, v))"
proof -
  have "2 \<le> length (uu_b u)" "length (content (pipe [] e)) < 2" using assms by simp_all
  from ReadAddrBuffer_no_head [OF this] obtain b r
    where "ReadAddrBuffer (pipe [] e) (uu_b u) = Returns (Inl e, b, r)" by (auto simp: read_full_error_def)
  then show ?thesis by (simp add: udp_up_step_def)
qed

lemma udp_waiting_is_stuck:
  assumes "us_main s = UWait" "us_client s = URounds" "unheard s = []" "ug_silent g" "\<not> us_client_dl s"
    "length (uu_b (us_up s)) = 65536 + MaxAddrLen"
  shows "\<not> udp_moves g s s'"
proof -
  note round = silent_round_goes_on [OF assms(6)]
  have "\<not> ends_itself g s wr err" for wr err
  proof
    assume "ends_itself g s wr err"
    then have "\<exists>v. udp_up_step (ug_dns g) (on (us_up s) [] e [wr]) = Returns (Inl (err, v))" for e
      using assms(3) by (simp add: ends_itself_def)
    with round [of "ug_dns g" _ "[wr]"] have "err = e" for e
      by (metis outcome.inject(1) sum.inject(1) prod.inject)
    from this [of EOF] this [of ErrClosed] show False by simp
  qed
  moreover have "\<not> hears g s d e" for d e using assms(4,5) by (simp add: hears_def)
  moreover have "udp_up_step (ug_dns g) (on (us_up s) (unheard s) e wrs) \<noteq> Panics x" for e wrs x
    using round [of "ug_dns g" e wrs] assms(3) by auto
  moreover have "udp_up_step (ug_dns g) (on (us_up s) (unheard s) e wrs) \<noteq> Returns (Inr v)" for e wrs v
    using round [of "ug_dns g" e wrs] assms(3) by auto
  ultimately show ?thesis
    using assms(1,2) by (auto simp: udp_moves_def elim!: udp_stepE udp_tickE)
qed

theorem udp_http_tunnel_never_ends:
  assumes "ug_writer_wakeable g = snd (trySetImmediateReadDeadline FlushWriter_methods)" "ug_silent g"
    "ug_data g = []"
  shows "\<exists>s. udp_reachable g s \<and> us_main s = UWait \<and> (\<forall>s'. \<not> udp_moves g s s')"
proof -
  let ?s0 = "udp_start g"
  let ?s1 = "?s0\<lparr>us_main := URead, us_rc_dl := Idle\<rparr>"
  let ?s2 = "?s1\<lparr>us_main := UBreak, us_err := ErrDeadlineExceeded\<rparr>"
  let ?s3 = "?s2\<lparr>us_main := UWait, us_rc_wdl := True, us_client_dl := us_client_dl ?s2 \<or> ug_writer_wakeable g\<rparr>"
  have 1: "udp_step g ?s0 ?s1" by (rule arm) (simp add: udp_start_def)
  have 2: "udp_tick ?s1 ?s2" by (rule idle) simp_all
  have 3: "udp_step g ?s2 ?s3" by (rule leave) simp
  have "udp_reachable g ?s3"
    by (rule udp_reachable.step [OF udp_reachable.tick [OF udp_reachable.step [OF udp_reachable.start 1] 2] 3])
  moreover have "\<not> udp_moves g ?s3 s'" for s'
    by (rule udp_waiting_is_stuck)
      (use assms in \<open>simp_all add: udp_start_def udp_init_def trySetImmediateReadDeadline_def FlushWriter_methods_def\<close>)
  ultimately show ?thesis by (intro exI [of _ ?s3]) simp
qed

end
