(* ===== verification/Trojan_Key.thy ===== *)
theory Trojan_Key
  imports Trojan_Prelude
begin

text \<open>
  User keys: \<open>GenKey\<close> of \<open>pkgs/trojan/trojan.go\<close> turns a password into the lower-case
  hexadecimal text of its SHA-224 digest, and \<open>validStorageKey\<close> of \<open>app/upstream.go\<close>
  decides which strings may be used as keys of the storage layer. \<open>crypto/sha256\<close> is
  modelled as the standard defines it, on 32-bit words.
\<close>

section \<open>SHA-224\<close>

type_synonym w32 = "32 word"

text \<open>
  The constants of the standard are digits of roots of primes: the round constants are the
  first 32 fractional bits of the cube roots of the primes up to 311, and the initial value
  of SHA-224 the second 32 fractional bits of the square roots of the ninth to the
  sixteenth prime. They are computed here bit by bit; converting to 32 bits drops the
  integral part and, for the square roots, the first 32 bits.
\<close>

definition int_root :: "nat \<Rightarrow> nat \<Rightarrow> nat \<Rightarrow> nat" where
  "int_root k bits n = fold (\<lambda>i r. if (r + 2 ^ i) ^ k \<le> n then r + 2 ^ i else r) (rev [0..<bits]) 0"

definition primes_to :: "nat \<Rightarrow> nat list" where
  "primes_to m = filter (\<lambda>n. 2 \<le> n \<and> list_all (\<lambda>d. n mod d \<noteq> 0) [2..<n]) [0..<Suc m]"

definition sha_k :: "w32 list" where
  "sha_k = map (\<lambda>p. word_of_nat (int_root 3 40 (p * 2 ^ 96))) (primes_to 311)"

definition sha_init224 :: "w32 list" where
  "sha_init224 = map (\<lambda>p. word_of_nat (int_root 2 72 (p * 2 ^ 128))) (take 8 (drop 8 (primes_to 53)))"

lemma length_primes_to_53: "length (primes_to 53) = 16"
  by code_simp

lemma length_sha_init224 [simp]: "length sha_init224 = 8"
  by (simp add: sha_init224_def length_primes_to_53)

definition word_of_bytes :: "bytes \<Rightarrow> w32" where
  "word_of_bytes bs = fold (\<lambda>b w. push_bit 8 w OR ucast b) bs 0"

definition bytes_of_word :: "w32 \<Rightarrow> bytes" where
  "bytes_of_word w = map (\<lambda>i. ucast (drop_bit (24 - 8 * i) w)) [0..<4]"

definition sha_pad :: "bytes \<Rightarrow> bytes" where
  "sha_pad m =
     m @ [0x80] @ replicate ((119 - length m mod 64) mod 64) 0
       @ map (\<lambda>i. ucast (drop_bit (56 - 8 * i) (word_of_nat (8 * length m) :: 64 word))) [0..<8]"

definition schedule_step :: "w32 list \<Rightarrow> w32 list" where
  "schedule_step ws =
     (let n = length ws; w15 = ws ! (n - 15); w2 = ws ! (n - 2);
          s0 = word_rotr 7 w15 XOR word_rotr 18 w15 XOR drop_bit 3 w15;
          s1 = word_rotr 17 w2 XOR word_rotr 19 w2 XOR drop_bit 10 w2
      in ws @ [ws ! (n - 16) + s0 + ws ! (n - 7) + s1])"

definition schedule :: "bytes \<Rightarrow> w32 list" where
  "schedule blk =
     (schedule_step ^^ 48) (map (\<lambda>i. word_of_bytes (take 4 (drop (4 * i) blk))) [0..<16])"

text \<open>One round on the working variables \<open>a\<close> to \<open>h\<close>, held in a list of eight words.\<close>

fun sha_round :: "w32 \<times> w32 \<Rightarrow> w32 list \<Rightarrow> w32 list" where
  "sha_round (k, w) [a, b, c, d, e, f, g, h] =
     (let s1 = word_rotr 6 e XOR word_rotr 11 e XOR word_rotr 25 e;
          ch = (e AND f) XOR (NOT e AND g);
          t1 = h + s1 + ch + k + w;
          s0 = word_rotr 2 a XOR word_rotr 13 a XOR word_rotr 22 a;
          maj = (a AND b) XOR (a AND c) XOR (b AND c);
          t2 = s0 + maj
      in [t1 + t2, a, b, c, d + t1, e, f, g])"
| "sha_round _ vs = vs"

definition sha_block :: "bytes \<Rightarrow> w32 list \<Rightarrow> w32 list" where
  "sha_block blk hs = map2 (+) hs (fold sha_round (zip sha_k (schedule blk)) hs)"

fun sha_blocks :: "nat \<Rightarrow> bytes \<Rightarrow> w32 list \<Rightarrow> w32 list" where
  "sha_blocks 0 m hs = hs"
| "sha_blocks (Suc n) m hs = sha_blocks n (drop 64 m) (sha_block (take 64 m) hs)"

definition Sum224 :: "bytes \<Rightarrow> bytes" where
  "Sum224 m =
     (let p = sha_pad m
      in concat (map bytes_of_word (take 7 (sha_blocks (length p div 64) p sha_init224))))"

section \<open>Keys\<close>

definition HeaderLen :: nat where "HeaderLen = 56"

definition hex_byte_text :: "byte \<Rightarrow> string" where
  "hex_byte_text b = [digit_char (unat b div 16), digit_char (unat b mod 16)]"

definition hex_Encode :: "bytes \<Rightarrow> string" where
  "hex_Encode bs = concat (map hex_byte_text bs)"

text \<open>The 56 bytes \<open>GenKey(s, b[:])\<close> leaves in \<open>b\<close>, as the string every caller makes of them.\<close>

definition GenKey :: "string \<Rightarrow> string" where
  "GenKey s = hex_Encode (Sum224 (bytes_of_string s))"

definition hex_lower :: "char \<Rightarrow> bool" where
  "hex_lower c \<longleftrightarrow>
     (of_char c \<ge> (of_char CHR ''0'' :: nat) \<and> of_char c \<le> (of_char CHR ''9'' :: nat))
   \<or> (of_char c \<ge> (of_char CHR ''a'' :: nat) \<and> of_char c \<le> (of_char CHR ''f'' :: nat))"

fun all_hex_lower :: "string \<Rightarrow> bool" where
  "all_hex_lower [] \<longleftrightarrow> True"
| "all_hex_lower (c # cs) \<longleftrightarrow> (if \<not> hex_lower c then False else all_hex_lower cs)"

definition validStorageKey :: "string \<Rightarrow> bool" where
  "validStorageKey k \<longleftrightarrow> (if length k \<noteq> HeaderLen then False else all_hex_lower k)"

section \<open>Keys of users are storage keys\<close>

lemma length_sha_round [simp]: "length (sha_round kw vs) = length vs"
  by (cases "(kw, vs)" rule: sha_round.cases) (simp_all add: Let_def)

lemma length_fold_sha_round [simp]: "length (fold sha_round kws vs) = length vs"
  by (induction kws arbitrary: vs) simp_all

lemma length_sha_blocks [simp]: "length (sha_blocks n m hs) = length hs"
  by (induction n m hs rule: sha_blocks.induct) (simp_all add: sha_block_def)

lemma length_bytes_of_word [simp]: "length (bytes_of_word w) = 4"
  by (simp add: bytes_of_word_def)

lemma length_concat_const: "\<forall>x \<in> set xs. length (f x) = n \<Longrightarrow> length (concat (map f xs)) = n * length xs"
  by (induction xs) simp_all

lemma length_Sum224 [simp]: "length (Sum224 m) = 28"
  by (simp add: Sum224_def Let_def length_concat_const [where n = 4])

lemma hex_lower_digit: "n < 16 \<Longrightarrow> hex_lower (digit_char n)"
  by (auto simp: less_Suc_eq numeral_eq_Suc hex_lower_def digit_char_def)

lemma all_hex_lower_iff: "all_hex_lower s \<longleftrightarrow> (\<forall>c \<in> set s. hex_lower c)"
  by (induction s) simp_all

lemma hex_lower_byte_text: "c \<in> set (hex_byte_text b) \<Longrightarrow> hex_lower c"
proof -
  have "unat b div 16 < 16" "unat b mod 16 < 16" using unat_byte_less [of b] by presburger+
  moreover assume "c \<in> set (hex_byte_text b)"
  ultimately show ?thesis by (auto simp: hex_byte_text_def intro: hex_lower_digit)
qed

lemma hex_lower_GenKey: "c \<in> set (GenKey s) \<Longrightarrow> hex_lower c"
  by (auto simp: GenKey_def hex_Encode_def dest: hex_lower_byte_text)

lemma length_GenKey [simp]: "length (GenKey s) = HeaderLen"
  by (simp add: GenKey_def hex_Encode_def HeaderLen_def length_concat_const [where n = 2]
      hex_byte_text_def)

lemma valid_GenKey [simp]: "validStorageKey (GenKey s)"
  by (simp add: validStorageKey_def all_hex_lower_iff hex_lower_GenKey)

text \<open>
  The key made of any password is a valid storage key: 56 bytes of lower-case
  hexadecimal. The check in front of the storage layer therefore never refuses a user.
\<close>

theorem gen_key_valid: "validStorageKey (GenKey s)"
  by (rule valid_GenKey)

lemma hex_alphabet: "map char_of ([48..<58] @ [97..<103] :: nat list) = ''0123456789abcdef''"
  by code_simp

text \<open>
  A string that passes the check cannot address anything but one entry below the
  prefix: it contains no byte outside the sixteen lower-case hexadecimal digits, so in
  particular no slash, dot, backslash, NUL or percent sign, whatever else the peer sent.
\<close>

theorem valid_key_safe:
  assumes "validStorageKey k"
  shows "set k \<subseteq> set ''0123456789abcdef'' \<and> length k = 56 \<and>
    CHR ''/'' \<notin> set k \<and> CHR ''.'' \<notin> set k"
proof -
  have hex: "c \<in> set ''0123456789abcdef''" if "hex_lower c" for c
  proof -
    define n where "n = (of_char c :: nat)"
    have c: "c = char_of n" by (simp add: n_def)
    have "48 \<le> n \<and> n \<le> 57 \<or> 97 \<le> n \<and> n \<le> 102"
      using that by (simp add: hex_lower_def n_def)
    then have "n \<in> set ([48..<58] @ [97..<103])"
      by (simp only: set_append set_upt Un_iff atLeastLessThan_iff) arith
    then have "c \<in> set (map char_of ([48..<58] @ [97..<103] :: nat list))" unfolding c set_map by (rule imageI)
    then show ?thesis unfolding hex_alphabet .
  qed
  have "set k \<subseteq> set ''0123456789abcdef''" "length k = 56"
    using assms hex by (auto simp: validStorageKey_def all_hex_lower_iff HeaderLen_def
        simp del: list.set split: if_splits)
  moreover have "CHR ''/'' \<notin> set ''0123456789abcdef''" "CHR ''.'' \<notin> set ''0123456789abcdef''"
    by simp_all
  ultimately show ?thesis by blast
qed

theorem valid_key_safe_witness:
  "validStorageKey (replicate 56 CHR ''a'') \<and>
    CHR ''/'' \<notin> set (replicate 56 CHR ''a'') \<and> CHR ''.'' \<notin> set (replicate 56 CHR ''a'')"
proof -
  have h: "validStorageKey (replicate 56 CHR ''a'')"
    by (simp add: validStorageKey_def all_hex_lower_iff HeaderLen_def hex_lower_def)
  from h valid_key_safe [OF h] show ?thesis by blast
qed

end
