(* ===== verification/Upstream.thy ===== *)
theory Upstream
  imports Trojan_Key
begin

text \<open>
  What every user store of \<open>app/upstream.go\<close> promises: the interface \<open>Upstream\<close> as a
  record of operations, the traffic counters as the pair of wrapping 64-bit integers they
  are, the tasks that travel to the persistence goroutine, and the contract \<open>upstream\<close>, a
  locale over a store and the users it holds, which the in-memory and the persistent store
  both satisfy.
\<close>

section \<open>Traffic and tasks\<close>

type_synonym w64 = "64 word"

record Traffic =
  Up :: w64
  Down :: w64

definition no_traffic :: Traffic where
  "no_traffic = \<lparr>Up = 0, Down = 0\<rparr>"

definition add_traffic :: "Traffic \<Rightarrow> w64 \<Rightarrow> w64 \<Rightarrow> Traffic" where
  "add_traffic t nr nw = \<lparr>Up = Up t + nr, Down = Down t + nw\<rparr>"

lemma Traffic_eta [simp]: "\<lparr>Up = Up t, Down = Down t\<rparr> = t"
  by simp

lemma Traffic_update: "t\<lparr>Up := Up t + nr, Down := Down t + nw\<rparr> = add_traffic t nr nw"
  by (cases t) (simp add: add_traffic_def)

lemma add_traffic_0 [simp]: "add_traffic t 0 0 = t"
  by (simp add: add_traffic_def)

lemma add_no_traffic [simp]: "add_traffic no_traffic (Up t) (Down t) = t"
  by (simp add: add_traffic_def no_traffic_def)

lemma add_traffic_add:
  "add_traffic (add_traffic t a b) c d = add_traffic t (a + c) (b + d)"
  by (simp add: add_traffic_def add.assoc)

datatype Task = TaskAdd string | TaskDelete string | TaskConsume string w64 w64

section \<open>The interface\<close>

text \<open>
  The operations of an \<open>Upstream\<close> on a state \<open>'u\<close>; \<open>Range\<close> is the list of calls it makes
  of its argument.
\<close>

record 'u upstream_ops =
  uo_Add :: "'u \<Rightarrow> string \<Rightarrow> go_error option \<times> 'u"
  uo_Delete :: "'u \<Rightarrow> string \<Rightarrow> go_error option \<times> 'u"
  uo_Range :: "'u \<Rightarrow> (string \<times> w64 \<times> w64) list"
  uo_Validate :: "'u \<Rightarrow> string \<Rightarrow> bool"
  uo_Consume :: "'u \<Rightarrow> string \<Rightarrow> w64 \<Rightarrow> w64 \<Rightarrow> go_error option \<times> 'u"

text \<open>The body of the persistence goroutine for one task; results are ignored.\<close>

primrec perform :: "'u upstream_ops \<Rightarrow> Task \<Rightarrow> 'u \<Rightarrow> 'u" where
  "perform ops (TaskAdd p) u = snd (uo_Add ops u p)"
| "perform ops (TaskDelete p) u = snd (uo_Delete ops u p)"
| "perform ops (TaskConsume k nr nw) u = snd (uo_Consume ops u k nr nw)"

text \<open>A run of sessions, each charged to its user.\<close>

definition charge :: "'u upstream_ops \<Rightarrow> (string \<times> w64 \<times> w64) list \<Rightarrow> 'u \<Rightarrow> 'u" where
  "charge ops = fold (\<lambda>(k, nr, nw) u. snd (uo_Consume ops u k nr nw))"

definition sum_up :: "string \<Rightarrow> (string \<times> w64 \<times> w64) list \<Rightarrow> w64" where
  "sum_up k xs = sum_list (map (\<lambda>(_, nr, _). nr) (filter (\<lambda>x. fst x = k) xs))"

definition sum_down :: "string \<Rightarrow> (string \<times> w64 \<times> w64) list \<Rightarrow> w64" where
  "sum_down k xs = sum_list (map (\<lambda>(_, _, nw). nw) (filter (\<lambda>x. fst x = k) xs))"

section \<open>The contract\<close>

type_synonym userbase = "string \<rightharpoonup> Traffic"

definition count_for :: "userbase \<Rightarrow> string \<Rightarrow> w64 \<Rightarrow> w64 \<Rightarrow> userbase" where
  "count_for m k nr nw = m(k := map_option (\<lambda>t. add_traffic t nr nw) (m k))"

text \<open>Whether a task does to the users what its name says.\<close>

primrec legal :: "userbase \<Rightarrow> Task \<Rightarrow> bool" where
  "legal m (TaskAdd p) \<longleftrightarrow> m (GenKey p) = None"
| "legal m (TaskDelete p) \<longleftrightarrow> True"
| "legal m (TaskConsume k nr nw) \<longleftrightarrow> validStorageKey k \<and> m k \<noteq> None"

primrec effect :: "Task \<Rightarrow> userbase \<Rightarrow> userbase" where
  "effect (TaskAdd p) m = m(GenKey p \<mapsto> no_traffic)"
| "effect (TaskDelete p) m = m(GenKey p := None)"
| "effect (TaskConsume k nr nw) m = count_for m k nr nw"

text \<open>
  The keys handed to \<open>Validate\<close> and \<open>Consume\<close> are restricted to valid ones, which is all
  the callers need: every user has one. Stores differ in what adding a user a second time
  does to the counters, so that the contract leaves it open.
\<close>

locale upstream =
  fixes ops :: "'u upstream_ops"
    and users :: "'u \<Rightarrow> userbase"
    and inv :: "'u \<Rightarrow> bool"
  assumes add_law: "inv u \<Longrightarrow> uo_Add ops u p = (None, u') \<Longrightarrow>
      inv u' \<and> (\<exists>t. users u' = (users u)(GenKey p \<mapsto> t)) \<and>
      (users u (GenKey p) = None \<longrightarrow> users u' (GenKey p) = Some no_traffic)"
    and delete_law: "inv u \<Longrightarrow> uo_Delete ops u p = (None, u') \<Longrightarrow>
      inv u' \<and> users u' = (users u)(GenKey p := None)"
    and validate_law: "inv u \<Longrightarrow> validStorageKey k \<Longrightarrow> uo_Validate ops u k \<longleftrightarrow> users u k \<noteq> None"
    and consume_law: "inv u \<Longrightarrow> validStorageKey k \<Longrightarrow> users u k = Some t \<Longrightarrow>
      uo_Consume ops u k nr nw = (None, u') \<Longrightarrow>
      inv u' \<and> users u' = count_for (users u) k nr nw"
    and range_law: "inv u \<Longrightarrow> distinct (map fst (uo_Range ops u)) \<and>
      map_of (map (\<lambda>(k, nr, nw). (k, \<lparr>Up = nr, Down = nw\<rparr>)) (uo_Range ops u)) = users u"
    and validate_only: "inv u \<Longrightarrow> uo_Validate ops u k \<Longrightarrow> users u k \<noteq> None"
begin

lemma added_user_is_valid:
  "inv u \<Longrightarrow> uo_Add ops u p = (None, u') \<Longrightarrow> inv u' \<and> uo_Validate ops u' (GenKey p)"
  using add_law [of u p u'] validate_law [of u' "GenKey p"] valid_GenKey by fastforce

lemma deleted_user_is_invalid:
  "inv u \<Longrightarrow> uo_Delete ops u p = (None, u') \<Longrightarrow> inv u' \<and> \<not> uo_Validate ops u' (GenKey p)"
  using delete_law [of u p u'] validate_law [of u' "GenKey p"] valid_GenKey by fastforce

lemma other_users_untouched:
  "inv u \<Longrightarrow> uo_Add ops u p = (None, u') \<or> uo_Delete ops u p = (None, u') \<Longrightarrow>
    validStorageKey k \<Longrightarrow> k \<noteq> GenKey p \<Longrightarrow> uo_Validate ops u' k \<longleftrightarrow> uo_Validate ops u k"
  using add_law [of u p u'] delete_law [of u p u'] validate_law [of u k] validate_law [of u' k]
  by fastforce

end

text \<open>A store none of whose operations fails on the users it has.\<close>

locale reliable_upstream = upstream +
  assumes add_ok: "inv u \<Longrightarrow> fst (uo_Add ops u p) = None"
    and delete_ok: "inv u \<Longrightarrow> fst (uo_Delete ops u p) = None"
    and consume_ok: "inv u \<Longrightarrow> validStorageKey k \<Longrightarrow> users u k \<noteq> None \<Longrightarrow>
      fst (uo_Consume ops u k nr nw) = None"
begin

lemma perform_effect:
  assumes "inv u" "legal (users u) t"
  shows "inv (perform ops t u) \<and> users (perform ops t u) = effect t (users u)"
proof (cases t)
  case (TaskAdd p)
  from add_ok [OF assms(1), of p] have "uo_Add ops u p = (None, perform ops t u)"
    by (simp add: TaskAdd prod_eq_iff)
  from add_law [OF assms(1) this] assms(2) TaskAdd show ?thesis by auto
next
  case (TaskDelete p)
  from delete_ok [OF assms(1), of p] have "uo_Delete ops u p = (None, perform ops t u)"
    by (simp add: TaskDelete prod_eq_iff)
  from delete_law [OF assms(1) this] TaskDelete show ?thesis by auto
next
  case (TaskConsume k nr nw)
  with assms(2) obtain t' where k: "validStorageKey k" "users u k = Some t'" by auto
  with consume_ok [OF assms(1) k(1), of nr nw] have
    "uo_Consume ops u k nr nw = (None, perform ops t u)"
    by (simp add: TaskConsume prod_eq_iff)
  from consume_law [OF assms(1) k this] TaskConsume show ?thesis by auto
qed

lemma charge_total:
  assumes "inv u" "\<forall>(k, nr, nw) \<in> set xs. validStorageKey k \<and> users u k \<noteq> None" "users u k = Some t"
  shows "inv (charge ops xs u) \<and>
    users (charge ops xs u) k = Some (add_traffic t (sum_up k xs) (sum_down k xs)) \<and>
    dom (users (charge ops xs u)) = dom (users u)"
  using assms
proof (induction xs arbitrary: u t)
  case Nil
  then show ?case by (simp add: charge_def sum_up_def sum_down_def)
next
  case (Cons x xs)
  obtain k' nr nw where x: "x = (k', nr, nw)" by (metis prod.exhaust)
  let ?u = "snd (uo_Consume ops u k' nr nw)"
  from Cons.prems(2) x obtain t' where "validStorageKey k'" "users u k' = Some t'" by auto
  moreover from consume_ok [OF Cons.prems(1), of k' nr nw] this
  have "uo_Consume ops u k' nr nw = (None, ?u)" by (simp add: prod_eq_iff)
  ultimately have step: "inv ?u" "users ?u = count_for (users u) k' nr nw"
    using consume_law Cons.prems(1) by blast+
  have d: "dom (users ?u) = dom (users u)"
    unfolding step(2) using \<open>users u k' = Some t'\<close> by (auto simp: count_for_def split: if_splits)
  then have others: "\<forall>(k, nr, nw) \<in> set xs. validStorageKey k \<and> users ?u k \<noteq> None"
    using Cons.prems(2) x by (auto simp: dom_def)
  show ?case
  proof (cases "k' = k")
    case True
    then have "users ?u k = Some (add_traffic t nr nw)"
      unfolding step(2) using Cons.prems(3) by (simp add: count_for_def)
    from Cons.IH [OF step(1) others this] d show ?thesis
      by (simp add: x True add_traffic_add charge_def sum_up_def sum_down_def)
  next
    case False
    then have "users ?u k = Some t"
      unfolding step(2) using Cons.prems(3) by (simp add: count_for_def)
    from Cons.IH [OF step(1) others this] d show ?thesis
      by (simp add: x False charge_def sum_up_def sum_down_def)
  qed
qed

end

end
