(* ===== verification/Memory_Upstream.thy ===== *)
theory Memory_Upstream
  imports Upstream "HOL-Library.AList" "HOL-Library.Multiset"
begin

text \<open>
  \<open>MemoryUpstream\<close> of \<open>app/upstream.go\<close>: the map of users, and the channel to the goroutine
  that repeats every change on a persistent store. The map is an association list in the
  order in which \<open>range\<close> happens to visit it; the channel is a buffer of 16 tasks that may
  have been closed. The operations run one after the other here; what interleaving adds is
  the step relation at the end.
\<close>

section \<open>State\<close>

record chan =
  ch_buf :: "Task list"
  ch_closed :: bool

record 'u memory =
  mm :: "(string \<times> Traffic) list"
  ch :: "chan option"
  up :: "'u option"

definition new_memory :: "'u memory" where
  "new_memory = \<lparr>mm = [], ch = None, up = None\<rparr>"

abbreviation ch_cap :: nat where "ch_cap \<equiv> 16"

text \<open>
  One round of the goroutine: it takes the oldest task, also from a closed channel, and
  performs it on the persistent store.
\<close>

definition persist_one :: "'u upstream_ops \<Rightarrow> 'u memory \<Rightarrow> 'u memory" where
  "persist_one pops m =
     (case (ch m, up m) of
        (Some c, Some u) \<Rightarrow>
          (case ch_buf c of
             [] \<Rightarrow> m
           | t # ts \<Rightarrow> m\<lparr>ch := Some (c\<lparr>ch_buf := ts\<rparr>), up := Some (perform pops t u)\<rparr>)
      | _ \<Rightarrow> m)"

section \<open>Operations\<close>

text \<open>
  A send on a closed channel panics, which \<open>sendTask\<close> recovers from; on a full channel the
  sender waits until the goroutine has taken a task.
\<close>

definition sendTask :: "'u upstream_ops \<Rightarrow> Task \<Rightarrow> 'u memory \<Rightarrow> bool \<times> 'u memory" where
  "sendTask pops t m =
     (case ch m of
        None \<Rightarrow> (False, m)
      | Some c \<Rightarrow>
          if ch_closed c then (False, m)
          else
            let m = (if length (ch_buf c) < ch_cap then m else persist_one pops m)
            in (True, m\<lparr>ch := map_option (\<lambda>c. c\<lparr>ch_buf := ch_buf c @ [t]\<rparr>) (ch m)\<rparr>))"

definition AddKey :: "string \<Rightarrow> 'u memory \<Rightarrow> 'u memory" where
  "AddKey key m = m\<lparr>mm := AList.update key \<lparr>Up = 0, Down = 0\<rparr> (mm m)\<rparr>"

definition send_if_persistent :: "'u upstream_ops \<Rightarrow> Task \<Rightarrow> 'u memory \<Rightarrow> 'u memory" where
  "send_if_persistent pops t m = (if up m = None then m else snd (sendTask pops t m))"

definition mem_Add :: "'u upstream_ops \<Rightarrow> 'u memory \<Rightarrow> string \<Rightarrow> go_error option \<times> 'u memory" where
  "mem_Add pops m s =
     (let m = AddKey (GenKey s) m in (None, send_if_persistent pops (TaskAdd s) m))"

definition mem_Delete :: "'u upstream_ops \<Rightarrow> 'u memory \<Rightarrow> string \<Rightarrow> go_error option \<times> 'u memory" where
  "mem_Delete pops m s =
     (let key = GenKey s; m = m\<lparr>mm := AList.delete key (mm m)\<rparr>
      in (None, send_if_persistent pops (TaskDelete s) m))"

definition mem_Range :: "'u memory \<Rightarrow> (string \<times> w64 \<times> w64) list" where
  "mem_Range m = map (\<lambda>(k, v). (k, Up v, Down v)) (mm m)"

definition mem_Validate :: "'u memory \<Rightarrow> string \<Rightarrow> bool" where
  "mem_Validate m k \<longleftrightarrow> map_of (mm m) k \<noteq> None"

text \<open>Reading a key the map does not have gives the zero value, which is then stored.\<close>

definition mem_Consume ::
  "'u upstream_ops \<Rightarrow> 'u memory \<Rightarrow> string \<Rightarrow> w64 \<Rightarrow> w64 \<Rightarrow> go_error option \<times> 'u memory" where
  "mem_Consume pops m k nr nw =
     (let traffic = (case map_of (mm m) k of Some t \<Rightarrow> t | None \<Rightarrow> \<lparr>Up = 0, Down = 0\<rparr>);
          traffic = traffic\<lparr>Up := Up traffic + nr\<rparr>;
          traffic = traffic\<lparr>Down := Down traffic + nw\<rparr>;
          m = m\<lparr>mm := AList.update k traffic (mm m)\<rparr>
      in (None, send_if_persistent pops (TaskConsume k nr nw) m))"

definition mem_ops :: "'u upstream_ops \<Rightarrow> 'u memory upstream_ops" where
  "mem_ops pops =
     \<lparr>uo_Add = mem_Add pops, uo_Delete = mem_Delete pops, uo_Range = mem_Range,
      uo_Validate = mem_Validate, uo_Consume = mem_Consume pops\<rparr>"

text \<open>
  \<open>Provision\<close>: the argument is the result of loading the persistent store, or \<open>None\<close> when
  none is configured. While the users are read in, \<open>u.up\<close> is still nil.
\<close>

definition mem_Provision ::
  "'u upstream_ops \<Rightarrow> (go_error + 'u) option \<Rightarrow> go_error option \<times> 'u memory" where
  "mem_Provision pops raw =
     (let m = new_memory in
      case raw of
        None \<Rightarrow> (None, m\<lparr>ch := Some \<lparr>ch_buf = [], ch_closed = False\<rparr>\<rparr>)
      | Some (Inl err) \<Rightarrow> (Some err, m)
      | Some (Inr u) \<Rightarrow>
          let m = fold (\<lambda>(k, nr, nw) m. snd (mem_Consume pops (AddKey k m) k nr nw)) (uo_Range pops u) m
          in (None, m\<lparr>up := Some u, ch := Some \<lparr>ch_buf = [], ch_closed = False\<rparr>\<rparr>))"

text \<open>Closing a channel that is closed already panics.\<close>

definition mem_Cleanup :: "'u memory \<Rightarrow> 'u memory outcome" where
  "mem_Cleanup m =
     (case ch m of
        None \<Rightarrow> Returns m
      | Some c \<Rightarrow> if ch_closed c then Panics CloseOfClosed else Returns (m\<lparr>ch := Some (c\<lparr>ch_closed := True\<rparr>)\<rparr>))"

section \<open>The memory store keeps the contract\<close>

abbreviation mem_users :: "'u memory \<Rightarrow> userbase" where
  "mem_users m \<equiv> map_of (mm m)"

definition mem_inv :: "'u memory \<Rightarrow> bool" where
  "mem_inv m \<longleftrightarrow> distinct (map fst (mm m))"

lemma mm_persist_one [simp]: "mm (persist_one pops m) = mm m"
  by (simp add: persist_one_def split: option.splits list.splits)

lemma mm_send [simp]: "mm (send_if_persistent pops t m) = mm m"
  by (simp add: send_if_persistent_def sendTask_def Let_def split: option.splits)

lemma mem_inv_send [simp]: "mem_inv (send_if_persistent pops t m) = mem_inv m"
  by (simp add: mem_inv_def)

lemma mem_inv_update: "mem_inv m \<Longrightarrow> mem_inv (m\<lparr>mm := AList.update k t (mm m)\<rparr>)"
  by (simp add: mem_inv_def distinct_update)

lemma mem_inv_delete: "mem_inv m \<Longrightarrow> mem_inv (m\<lparr>mm := AList.delete k (mm m)\<rparr>)"
  by (simp add: mem_inv_def distinct_delete)

lemma mem_Consume_users:
  "mem_users (snd (mem_Consume pops m k nr nw)) =
    (mem_users m)(k \<mapsto> add_traffic (case mem_users m k of Some t \<Rightarrow> t | None \<Rightarrow> no_traffic) nr nw)"
  by (auto simp: mem_Consume_def Let_def update_conv' Traffic_update add_traffic_def no_traffic_def
      split: option.splits)

lemma mem_Consume_inv: "mem_inv m \<Longrightarrow> mem_inv (snd (mem_Consume pops m k nr nw))"
  by (simp add: mem_Consume_def Let_def mem_inv_update)

lemma mem_Range_users:
  "map_of (map (\<lambda>(k, nr, nw). (k, \<lparr>Up = nr, Down = nw\<rparr>)) (mem_Range m)) = mem_users m"
proof -
  have "map (\<lambda>(k, nr, nw). (k, \<lparr>Up = nr, Down = nw\<rparr>)) (mem_Range m) = mm m"
    by (simp add: mem_Range_def comp_def case_prod_unfold)
  then show ?thesis by simp
qed

lemma fst_mem_Range: "map fst (mem_Range m) = map fst (mm m)"
  by (simp add: mem_Range_def comp_def case_prod_unfold)

interpretation mem: reliable_upstream "mem_ops pops" mem_users mem_inv for pops :: "'u upstream_ops"
proof (unfold_locales, goal_cases)
  case (1 m p m')
  then show ?case
    by (auto simp: mem_ops_def mem_Add_def AddKey_def update_conv' mem_inv_update no_traffic_def)
next
  case (2 m p m')
  then show ?case
    by (auto simp: mem_ops_def mem_Delete_def mem_inv_delete delete_conv' fun_upd_def)
next
  case (3 m k)
  then show ?case by (simp add: mem_ops_def mem_Validate_def)
next
  case (4 m k t nr nw m')
  then have "m' = snd (mem_Consume pops m k nr nw)" by (simp add: mem_ops_def)
  with 4 show ?case
    by (simp add: mem_Consume_users mem_Consume_inv count_for_def)
next
  case (5 m)
  then show ?case using fst_mem_Range [of m] mem_Range_users [of m] by (simp add: mem_ops_def mem_inv_def)
next
  case (6 m k)
  then show ?case by (simp add: mem_ops_def mem_Validate_def)
next
  case (7 m p)
  then show ?case by (simp add: mem_ops_def mem_Add_def Let_def)
next
  case (8 m p)
  then show ?case by (simp add: mem_ops_def mem_Delete_def Let_def)
next
  case (9 m k nr nw)
  then show ?case by (simp add: mem_ops_def mem_Consume_def Let_def)
qed

text \<open>What each call does to the map, apart from the task it sends.\<close>

primrec mem_apply :: "Task \<Rightarrow> 'u memory \<Rightarrow> 'u memory" where
  "mem_apply (TaskAdd p) m = AddKey (GenKey p) m"
| "mem_apply (TaskDelete p) m = m\<lparr>mm := AList.delete (GenKey p) (mm m)\<rparr>"
| "mem_apply (TaskConsume k nr nw) m =
     m\<lparr>mm := AList.update k
        (add_traffic (case map_of (mm m) k of Some t \<Rightarrow> t | None \<Rightarrow> no_traffic) nr nw) (mm m)\<rparr>"

lemma perform_mem: "perform (mem_ops pops) t m = send_if_persistent pops t (mem_apply t m)"
  by (cases t) (auto simp: mem_ops_def mem_Add_def mem_Delete_def mem_Consume_def Let_def
      Traffic_update no_traffic_def split: option.splits)

lemma mem_apply_fields [simp]:
  "ch (mem_apply t m) = ch m" "up (mem_apply t m) = up m"
  by (cases t; simp add: AddKey_def)+

lemma mem_apply_inv: "mem_inv m \<Longrightarrow> mem_inv (mem_apply t m)"
  by (cases t) (simp_all add: AddKey_def mem_inv_update mem_inv_delete)

lemma mem_apply_effect:
  "legal (mem_users m) t \<Longrightarrow> mem_users (mem_apply t m) = effect t (mem_users m)"
  by (cases t)
    (auto simp: AddKey_def update_conv' delete_conv' no_traffic_def count_for_def fun_upd_def)

section \<open>The persistent copy follows\<close>

text \<open>
  A run: calls from the outside and rounds of the goroutine, in any order. It is legal when
  users are added only once and traffic is counted only for users that exist.
\<close>

datatype mem_step = Call Task | Goroutine

primrec mem_exec :: "'u upstream_ops \<Rightarrow> mem_step \<Rightarrow> 'u memory \<Rightarrow> 'u memory" where
  "mem_exec pops (Call t) m = perform (mem_ops pops) t m"
| "mem_exec pops Goroutine m = persist_one pops m"

primrec mem_legal :: "'u upstream_ops \<Rightarrow> mem_step list \<Rightarrow> 'u memory \<Rightarrow> bool" where
  "mem_legal pops [] m \<longleftrightarrow> True"
| "mem_legal pops (s # ss) m \<longleftrightarrow>
     (case s of Call t \<Rightarrow> legal (mem_users m) t | Goroutine \<Rightarrow> True) \<and>
     mem_legal pops ss (mem_exec pops s m)"

definition drained :: "'u upstream_ops \<Rightarrow> 'u memory \<Rightarrow> 'u option" where
  "drained pops m =
     (case (ch m, up m) of
        (Some c, Some u) \<Rightarrow> if ch_closed c then None else Some (fold (perform pops) (ch_buf c) u)
      | _ \<Rightarrow> None)"

lemma drained_persist_one [simp]: "drained pops (persist_one pops m) = drained pops m"
  by (auto simp: drained_def persist_one_def split: option.splits list.splits)

lemma drained_send:
  "drained pops m = Some v \<Longrightarrow> drained pops (send_if_persistent pops t m) = Some (perform pops t v)"
  by (auto simp: drained_def send_if_persistent_def sendTask_def persist_one_def Let_def
      split: option.splits list.splits if_splits)

lemma drained_apply [simp]: "drained pops (mem_apply t m) = drained pops m"
  by (simp add: drained_def)

context reliable_upstream
begin

text \<open>Memory and store agree, once the tasks in the channel have been performed.\<close>

definition synced :: "'a memory \<Rightarrow> bool" where
  "synced m \<longleftrightarrow> mem_inv m \<and> (\<exists>v. drained ops m = Some v \<and> inv v \<and> users v = mem_users m)"

lemma synced_exec:
  assumes "synced m" "case s of Call t \<Rightarrow> legal (mem_users m) t | Goroutine \<Rightarrow> True"
  shows "synced (mem_exec ops s m)"
proof (cases s)
  case Goroutine
  then show ?thesis using assms(1) by (simp add: synced_def mem_inv_def)
next
  case (Call t)
  from assms(1) obtain v where v: "mem_inv m" "drained ops m = Some v" "inv v" "users v = mem_users m"
    by (auto simp: synced_def)
  have leg: "legal (mem_users m) t" using assms(2) Call by simp
  have "drained ops (mem_exec ops s m) = Some (perform ops t v)"
    by (simp add: Call perform_mem drained_send v(2))
  moreover have "inv (perform ops t v) \<and> users (perform ops t v) = effect t (users v)"
    using perform_effect [OF v(3)] leg v(4) by simp
  moreover have "mem_users (mem_exec ops s m) = effect t (mem_users m)"
    using mem_apply_effect [OF leg] by (simp add: Call perform_mem)
  moreover have "mem_inv (mem_exec ops s m)"
    by (simp add: Call perform_mem mem_apply_inv v(1))
  ultimately show ?thesis by (auto simp: synced_def v(4))
qed

lemma synced_run: "synced m \<Longrightarrow> mem_legal ops ss m \<Longrightarrow> synced (fold (mem_exec ops) ss m)"
  by (induction ss arbitrary: m) (auto intro: synced_exec)

lemma provision_loop:
  fixes m :: "'v memory"
  assumes "distinct (map fst xs)" "mem_inv m"
  shows "mem_users (fold (\<lambda>(k, nr, nw) m. snd (mem_Consume pops (AddKey k m) k nr nw)) xs m) =
      mem_users m ++ map_of (map (\<lambda>(k, nr, nw). (k, \<lparr>Up = nr, Down = nw\<rparr>)) xs) \<and>
    mem_inv (fold (\<lambda>(k, nr, nw) m. snd (mem_Consume pops (AddKey k m) k nr nw)) xs m)"
  using assms
proof (induction xs arbitrary: m)
  case (Cons x xs)
  obtain k nr nw where x: "x = (k, nr, nw)" by (metis prod.exhaust)
  let ?m = "snd (mem_Consume pops (AddKey k m) k nr nw)"
  let ?f = "\<lambda>(k, nr, nw). (k, \<lparr>Up = nr, Down = nw\<rparr>)"
  have inv: "mem_inv ?m" using Cons.prems(2) by (simp add: mem_Consume_inv AddKey_def mem_inv_update)
  have upd: "mem_users ?m = (mem_users m)(k \<mapsto> \<lparr>Up = nr, Down = nw\<rparr>)"
    unfolding mem_Consume_users by (simp add: AddKey_def update_conv' add_traffic_def)
  have "k \<notin> set (map fst xs)" using Cons.prems(1) x by simp
  then have fresh: "k \<notin> dom (map_of (map ?f xs))"
    by (auto simp: dom_map_of_conv_image_fst image_image case_prod_unfold)
  have move: "(mem_users m)(k \<mapsto> t) ++ map_of (map ?f xs) = mem_users m ++ (map_of (map ?f xs))(k \<mapsto> t)" for t
    by (simp only: map_add_upd_left [OF fresh] map_add_upd)
  have rest: "distinct (map fst xs)" using Cons.prems(1) by simp
  have eq: "map_of (map ?f (x # xs)) = (map_of (map ?f xs))(k \<mapsto> \<lparr>Up = nr, Down = nw\<rparr>)"
    by (simp add: x)
  show ?case
    unfolding eq move [symmetric] using Cons.IH [OF rest inv] unfolding upd by (simp only: x fold_simps prod.case)
qed simp

lemma provision_synced:
  assumes "inv u" "mem_Provision ops (Some (Inr u)) = (e, m)"
  shows "e = None" "synced m" "mem_users m = users u"
proof -
  have "mem_inv (new_memory :: 'a memory)" by (simp add: mem_inv_def new_memory_def)
  note loop = provision_loop [OF conjunct1 [OF range_law [OF assms(1)]] this, of ops]
  define m0 where "m0 = fold (\<lambda>(k, nr, nw) m. snd (mem_Consume ops (AddKey k m) k nr nw))
    (uo_Range ops u) (new_memory :: 'a memory)"
  have "mem_users m0 = users u \<and> mem_inv m0"
    using loop range_law [OF assms(1)] by (simp add: m0_def new_memory_def)
  moreover have "e = None \<and> m = m0\<lparr>up := Some u, ch := Some \<lparr>ch_buf = [], ch_closed = False\<rparr>\<rparr>"
    using assms(2) by (simp add: mem_Provision_def m0_def)
  ultimately have all: "e = None \<and> mem_users m = users u \<and> mem_inv m \<and> drained ops m = Some u"
    by (simp add: drained_def mem_inv_def)
  then show "e = None" "synced m" "mem_users m = users u"
    using assms(1) by (auto simp: synced_def)
qed

end

section \<open>Interleavings\<close>

text \<open>
  The lock is released before the task is sent, so that calls from several connections can
  be between the two. \<open>sys_pending\<close> holds the tasks of those calls, in the order in which
  they changed the map; any of them may be sent next. The label of a step is the task of the
  call it begins.
\<close>

record 'u msys =
  sys_mem :: "'u memory"
  sys_pending :: "Task list"

inductive mem_system ::
  "'u upstream_ops \<Rightarrow> Task list \<Rightarrow> 'u msys \<Rightarrow> 'u msys \<Rightarrow> bool" for pops where
  change: "mem_system pops [t] s
     (s\<lparr>sys_mem := mem_apply t (sys_mem s), sys_pending := sys_pending s @ [t]\<rparr>)"
| send: "sys_pending s = xs @ t # ys \<Longrightarrow> ch (sys_mem s) = Some c \<Longrightarrow> \<not> ch_closed c \<Longrightarrow>
     length (ch_buf c) < ch_cap \<Longrightarrow>
     mem_system pops [] s
       (s\<lparr>sys_mem := (sys_mem s)\<lparr>ch := Some (c\<lparr>ch_buf := ch_buf c @ [t]\<rparr>)\<rparr>, sys_pending := xs @ ys\<rparr>)"
| drop: "sys_pending s = xs @ t # ys \<Longrightarrow> ch (sys_mem s) = Some c \<Longrightarrow> ch_closed c \<Longrightarrow>
     mem_system pops [] s (s\<lparr>sys_pending := xs @ ys\<rparr>)"
| goroutine: "mem_system pops [] s (s\<lparr>sys_mem := persist_one pops (sys_mem s)\<rparr>)"
| cleanup: "mem_Cleanup (sys_mem s) = Returns m \<Longrightarrow> mem_system pops [] s (s\<lparr>sys_mem := m\<rparr>)"

inductive mem_runs ::
  "'u upstream_ops \<Rightarrow> Task list \<Rightarrow> 'u msys \<Rightarrow> 'u msys \<Rightarrow> bool" for pops where
  stop: "mem_runs pops [] s s"
| step: "mem_runs pops ts s s' \<Longrightarrow> mem_system pops l s' s'' \<Longrightarrow> mem_runs pops (ts @ l) s s''"

inductive_cases mem_systemE: "mem_system pops l s s'"

definition sys_open :: "'u msys \<Rightarrow> bool" where
  "sys_open s \<longleftrightarrow> (\<exists>c. ch (sys_mem s) = Some c \<and> \<not> ch_closed c)"

primrec is_consume :: "Task \<Rightarrow> bool" where
  "is_consume (TaskAdd p) \<longleftrightarrow> False"
| "is_consume (TaskDelete p) \<longleftrightarrow> False"
| "is_consume (TaskConsume k nr nw) \<longleftrightarrow> True"

text \<open>Counting commutes, so that the order in which tasks reach the channel is irrelevant.\<close>

lemma count_for_commute:
  "count_for (count_for m k a b) k' c d = count_for (count_for m k' c d) k a b"
  by (cases "k = k'")
    (auto simp: count_for_def fun_eq_iff option.map_comp comp_def add_traffic_add add.commute)

lemma effect_commute:
  "is_consume t \<Longrightarrow> is_consume t' \<Longrightarrow> effect t \<circ> effect t' = effect t' \<circ> effect t"
  by (cases t; cases t') (auto simp: fun_eq_iff count_for_commute)

lemma effect_permuted:
  assumes "\<forall>t \<in> set xs. is_consume t" "mset xs = mset ys"
  shows "fold effect xs = fold effect ys"
  using assms by (intro fold_multiset_equiv effect_commute) auto

lemma dom_effect: "is_consume t \<Longrightarrow> dom (effect t m) = dom m"
  by (cases t) (auto simp: count_for_def split: if_splits)

lemma dom_effects: "\<forall>t \<in> set ts. is_consume t \<Longrightarrow> dom (fold effect ts m) = dom m"
  by (induction ts arbitrary: m) (simp_all add: dom_effect)

lemma legal_dom: "is_consume t \<Longrightarrow> dom m = dom m' \<Longrightarrow> legal m t \<longleftrightarrow> legal m' t"
  by (cases t) (auto simp: dom_def)

lemma sys_open_back: "mem_system pops l s s' \<Longrightarrow> sys_open s' \<Longrightarrow> sys_open s"
  by (erule mem_systemE)
    (auto simp: sys_open_def persist_one_def mem_Cleanup_def split: option.splits list.splits if_splits)

context reliable_upstream
begin

text \<open>
  The invariant of runs that only count: the map is what the store becomes when the tasks in
  the channel and then those still to be sent have been performed.
\<close>

definition balanced :: "'a msys \<Rightarrow> bool" where
  "balanced s \<longleftrightarrow> (\<exists>c u. ch (sys_mem s) = Some c \<and> \<not> ch_closed c \<and> up (sys_mem s) = Some u \<and>
     inv u \<and> (\<forall>t \<in> set (ch_buf c @ sys_pending s). is_consume t \<and> legal (users u) t) \<and>
     mem_users (sys_mem s) = fold effect (ch_buf c @ sys_pending s) (users u))"

lemma balanced_step:
  assumes "balanced s" "mem_system ops l s s'" "sys_open s'"
    "\<forall>t \<in> set l. is_consume t \<and> legal (mem_users (sys_mem s)) t"
  shows "balanced s' \<and> dom (mem_users (sys_mem s')) = dom (mem_users (sys_mem s))"
proof -
  obtain c u where c: "ch (sys_mem s) = Some c" "\<not> ch_closed c" "up (sys_mem s) = Some u" "inv u"
    "\<forall>t \<in> set (ch_buf c @ sys_pending s). is_consume t \<and> legal (users u) t"
    "mem_users (sys_mem s) = fold effect (ch_buf c @ sys_pending s) (users u)"
    using assms(1) by (auto simp: balanced_def)
  have d: "dom (mem_users (sys_mem s)) = dom (users u)"
    unfolding c(6) using c(5) by (intro dom_effects) blast
  from assms(2) show ?thesis
  proof cases
    case (change t)
    then have t: "is_consume t" "legal (mem_users (sys_mem s)) t" using assms(4) by auto
    have "legal (users u) t" using legal_dom [OF t(1) d] t(2) by simp
    moreover have "mem_users (mem_apply t (sys_mem s)) = effect t (mem_users (sys_mem s))"
      using t(2) by (rule mem_apply_effect)
    ultimately show ?thesis
      using c t change dom_effect [OF t(1)] by (auto simp: balanced_def)
  next
    case (send xs t ys c')
    have m: "mset (ch_buf c @ sys_pending s) = mset ((ch_buf c @ [t]) @ xs @ ys)"
      by (simp add: send)
    have all: "\<forall>t \<in> set (ch_buf c @ sys_pending s). is_consume t" using c(5) by blast
    have "set ((ch_buf c @ [t]) @ xs @ ys) = set (ch_buf c @ sys_pending s)" by (auto simp: send)
    moreover have "fold effect (ch_buf c @ sys_pending s) (users u) =
        fold effect ((ch_buf c @ [t]) @ xs @ ys) (users u)"
      by (simp only: effect_permuted [OF all m])
    ultimately show ?thesis
      using send c by (simp add: balanced_def del: fold_append)
  next
    case (drop xs t ys c')
    with c show ?thesis by simp
  next
    case goroutine
    show ?thesis
    proof (cases "ch_buf c")
      case Nil
      then have "s' = s" using c goroutine by (simp add: persist_one_def)
      then show ?thesis using assms(1) by simp
    next
      case (Cons t ts)
      let ?u = "perform ops t u"
      have t: "is_consume t" "legal (users u) t" using c(5) Cons by auto
      from perform_effect [OF c(4) t(2)] have u: "inv ?u" "users ?u = effect t (users u)" by auto
      have du: "dom (users ?u) = dom (users u)" using u(2) dom_effect [OF t(1)] by simp
      have "is_consume t' \<and> legal (users ?u) t'" if "t' \<in> set (ts @ sys_pending s)" for t'
        using c(5) Cons that legal_dom [OF _ du, of t'] by auto
      moreover have "persist_one ops (sys_mem s) =
          (sys_mem s)\<lparr>ch := Some (c\<lparr>ch_buf := ts\<rparr>), up := Some ?u\<rparr>"
        using c(1,3) Cons by (simp add: persist_one_def)
      moreover have "mem_users (sys_mem s) = fold effect (ts @ sys_pending s) (users ?u)"
        unfolding c(6) u(2) Cons by simp
      ultimately show ?thesis
        using c(2) goroutine u(1) by (simp add: balanced_def)
    qed
  next
    case (cleanup m)
    with assms(3) c show ?thesis
      by (auto simp: sys_open_def mem_Cleanup_def split: if_splits)
  qed
qed

lemma balanced_runs:
  assumes "mem_runs ops ts s s'" "balanced s" "sys_open s'"
    "\<forall>t \<in> set ts. is_consume t \<and> legal (mem_users (sys_mem s)) t"
  shows "balanced s' \<and> dom (mem_users (sys_mem s')) = dom (mem_users (sys_mem s))"
  using assms
proof (induction rule: mem_runs.induct)
  case (step ts s s' l s'')
  from step.IH [OF step.prems(1) sys_open_back [OF step.hyps(2) step.prems(2)]] step.prems(3)
  have IH: "balanced s'" "dom (mem_users (sys_mem s')) = dom (mem_users (sys_mem s))" by auto
  have "\<forall>t \<in> set l. is_consume t \<and> legal (mem_users (sys_mem s')) t"
    using step.prems(3) legal_dom [OF _ IH(2)] by auto
  from balanced_step [OF IH(1) step.hyps(2) step.prems(2) this] IH(2) show ?case by simp
qed simp

lemma quiescent_agrees:
  assumes "balanced s" "sys_pending s = []" "ch (sys_mem s) = Some c" "ch_buf c = []"
    "up (sys_mem s) = Some u"
  shows "users u = mem_users (sys_mem s)"
  using assms by (auto simp: balanced_def)

text \<open>
  With an \<open>Add\<close> and a \<open>Delete\<close> of one user the order does matter: the two calls can change
  the map in one order and reach the channel in the other.
\<close>

lemma overtaking:
  assumes "ch (sys_mem s) = Some \<lparr>ch_buf = [], ch_closed = False\<rparr>" "up (sys_mem s) = Some u"
    "inv u" "users u (GenKey p) = None" "sys_pending s = []"
  shows "\<exists>s' u'. mem_runs ops [TaskAdd p, TaskDelete p] s s' \<and>
    sys_pending s' = [] \<and> ch (sys_mem s') = Some \<lparr>ch_buf = [], ch_closed = False\<rparr> \<and>
    up (sys_mem s') = Some u' \<and> mem_users (sys_mem s') (GenKey p) = None \<and>
    users u' (GenKey p) = Some no_traffic"
proof -
  let ?e = "\<lparr>ch_buf = [], ch_closed = False\<rparr> :: chan"
  let ?a = "TaskAdd p" and ?d = "TaskDelete p"
  define m1 where "m1 = mem_apply ?a (sys_mem s)"
  define m2 where "m2 = mem_apply ?d m1"
  have m2: "ch m2 = Some ?e" "up m2 = Some u" "mem_users m2 (GenKey p) = None"
    using assms(1,2) by (simp_all only: m2_def m1_def mem_apply_fields, simp add: delete_conv')
  let ?s1 = "s\<lparr>sys_mem := m1, sys_pending := [?a]\<rparr>"
  let ?s2 = "s\<lparr>sys_mem := m2, sys_pending := [?a, ?d]\<rparr>"
  let ?s3 = "s\<lparr>sys_mem := m2\<lparr>ch := Some (?e\<lparr>ch_buf := [?d]\<rparr>)\<rparr>, sys_pending := [?a]\<rparr>"
  let ?s4 = "s\<lparr>sys_mem := m2\<lparr>ch := Some (?e\<lparr>ch_buf := [?d, ?a]\<rparr>)\<rparr>, sys_pending := []\<rparr>"
  let ?s5 = "?s4\<lparr>sys_mem := persist_one ops (sys_mem ?s4)\<rparr>"
  let ?s6 = "?s5\<lparr>sys_mem := persist_one ops (sys_mem ?s5)\<rparr>"
  have 1: "mem_system ops [?a] s ?s1"
    using mem_system.change [of ops ?a s] assms(5) by (simp add: m1_def)
  have 2: "mem_system ops [?d] ?s1 ?s2"
    using mem_system.change [of ops ?d ?s1] by (simp add: m2_def)
  have 3: "mem_system ops [] ?s2 ?s3"
    using mem_system.send [of ?s2 "[?a]" ?d "[]" ?e ops] m2(1) by simp
  have 4: "mem_system ops [] ?s3 ?s4"
    using mem_system.send [of ?s3 "[]" ?a "[]" "?e\<lparr>ch_buf := [?d]\<rparr>" ops] by simp
  have 5: "mem_system ops [] ?s4 ?s5" "mem_system ops [] ?s5 ?s6" by (rule mem_system.goroutine)+
  from mem_runs.step [OF mem_runs.step [OF mem_runs.step [OF mem_runs.step [OF mem_runs.step
    [OF mem_runs.step [OF mem_runs.stop 1] 2] 3] 4] 5(1)] 5(2)]
  have runs: "mem_runs ops [?a, ?d] s ?s6" by simp
  let ?v = "perform ops ?d u"
  have v: "inv ?v" "users ?v = (users u)(GenKey p := None)"
    using perform_effect [OF assms(3), of ?d] by simp_all
  have w: "users (perform ops ?a ?v) (GenKey p) = Some no_traffic"
    using perform_effect [OF v(1), of ?a] v(2) by simp
  have "up (sys_mem ?s6) = Some (perform ops ?a ?v)" "ch (sys_mem ?s6) = Some ?e"
    "mem_users (sys_mem ?s6) (GenKey p) = None"
    using m2 by (simp_all add: persist_one_def)
  with runs w show ?thesis by (intro exI [of _ ?s6]) auto
qed

end

end
