(* ===== verification/Caddy_Upstream.thy ===== *)
theory Caddy_Upstream
  imports Memory_Upstream "HOL-Library.Sublist"
begin

text \<open>
  \<open>CaddyUpstream\<close> of \<open>app/upstream.go\<close>, the store behind the storage of the server. The
  storage (\<open>certmagic.Storage\<close>) is a parameter, a record of operations on a state of any
  type; what the code relies on is the predicate \<open>storage_laws\<close>, which says that the
  storage is a map of byte strings as its interface documents. Decoding of a stored value
  is a parameter as well, because other programs may have written there; the law it has is
  that it inverts the encoding of a \<open>Traffic\<close> value, which is written out. An instance of
  both parameters is at the end.
\<close>

section \<open>Storage\<close>

record 'st storage_ops =
  st_Exists :: "'st \<Rightarrow> string \<Rightarrow> bool"
  st_Load :: "'st \<Rightarrow> string \<Rightarrow> go_error + bytes"
  st_Store :: "'st \<Rightarrow> string \<Rightarrow> bytes \<Rightarrow> go_error option \<times> 'st"
  st_Delete :: "'st \<Rightarrow> string \<Rightarrow> go_error option \<times> 'st"
  st_List :: "'st \<Rightarrow> string \<Rightarrow> go_error + string list"

definition storage_laws :: "'st storage_ops \<Rightarrow> ('st \<Rightarrow> string \<rightharpoonup> bytes) \<Rightarrow> bool" where
  "storage_laws sto files \<longleftrightarrow>
     (\<forall>st k. st_Exists sto st k \<longleftrightarrow> files st k \<noteq> None) \<and>
     (\<forall>st k. case st_Load sto st k of Inr v \<Rightarrow> files st k = Some v | Inl e \<Rightarrow> files st k = None) \<and>
     (\<forall>st k v. case st_Store sto st k v of (e, st') \<Rightarrow> e = None \<and> files st' = (files st)(k \<mapsto> v)) \<and>
     (\<forall>st k. files st k \<noteq> None \<longrightarrow>
        (case st_Delete sto st k of (e, st') \<Rightarrow> e = None \<and> files st' = (files st)(k := None))) \<and>
     (\<forall>st p. case st_List sto st p of
        Inr ks \<Rightarrow> distinct ks \<and> set ks = {k. prefix p k \<and> files st k \<noteq> None}
      | Inl e \<Rightarrow> False)"

section \<open>Values\<close>

definition int_text :: "int \<Rightarrow> string" where
  "int_text i = (if i < 0 then CHR ''-'' # itoa (nat (- i)) else itoa (nat i))"

text \<open>\<open>json.Marshal\<close> of a \<open>Traffic\<close>: the two members in the order of the fields.\<close>

definition quoted :: "string \<Rightarrow> string" where
  "quoted s = [CHR 0x22] @ s @ [CHR 0x22]"

definition Marshal :: "Traffic \<Rightarrow> bytes" where
  "Marshal t =
     bytes_of_string (''{'' @ quoted ''up'' @ '':'' @ int_text (sint (Up t)) @ '','' @
       quoted ''down'' @ '':'' @ int_text (sint (Down t)) @ ''}'')"

text \<open>
  \<open>json.Unmarshal\<close> into a variable: an error, if any, and the variable afterwards, which
  keeps what the text does not mention.
\<close>

type_synonym decoder = "bytes \<Rightarrow> Traffic \<Rightarrow> go_error option \<times> Traffic"

definition decoder_law :: "decoder \<Rightarrow> bool" where
  "decoder_law unm \<longleftrightarrow> (\<forall>t old. unm (Marshal t) old = (None, t))"

section \<open>Operations\<close>

definition cu_prefix :: string where "cu_prefix = ''trojan/''"

text \<open>\<open>CaddyUpstream\<close> and its \<open>Provision\<close>, which takes the storage of caddy; before it is nil.\<close>

record 'st caddy_store =
  cs_prefix :: string
  cs_storage :: "'st option"

definition CaddyUpstream_Provision :: "'st \<Rightarrow> 'st caddy_store \<Rightarrow> go_error option \<times> 'st caddy_store" where
  "CaddyUpstream_Provision ctx_Storage u = (None, u\<lparr>cs_prefix := cu_prefix, cs_storage := Some ctx_Storage\<rparr>)"

definition errInvalidStorageKey :: go_error where
  "errInvalidStorageKey = Msg ''invalid storage key''"

definition cu_Add :: "'st storage_ops \<Rightarrow> 'st \<Rightarrow> string \<Rightarrow> go_error option \<times> 'st" where
  "cu_Add sto st s =
     (let key = cu_prefix @ GenKey s
      in if st_Exists sto st key then (None, st)
         else st_Store sto st key (Marshal \<lparr>Up = 0, Down = 0\<rparr>))"

definition cu_Delete :: "'st storage_ops \<Rightarrow> 'st \<Rightarrow> string \<Rightarrow> go_error option \<times> 'st" where
  "cu_Delete sto st s =
     (let key = cu_prefix @ GenKey s
      in if \<not> st_Exists sto st key then (None, st) else st_Delete sto st key)"

text \<open>
  The loop of \<open>Range\<close>: the variable \<open>traffic\<close> is declared once and decoded into again for
  every user. \<open>TrimPrefix\<close> drops the prefix if it is there.
\<close>

definition TrimPrefix :: "string \<Rightarrow> string \<Rightarrow> string" where
  "TrimPrefix s p = (if prefix p s then drop (length p) s else s)"

fun cu_Range_loop ::
  "'st storage_ops \<Rightarrow> decoder \<Rightarrow> 'st \<Rightarrow> string list \<Rightarrow> Traffic \<Rightarrow> (string \<times> w64 \<times> w64) list" where
  "cu_Range_loop sto unm st [] traffic = []"
| "cu_Range_loop sto unm st (k # ks) traffic =
     (case st_Load sto st k of
        Inl err \<Rightarrow> cu_Range_loop sto unm st ks traffic
      | Inr b \<Rightarrow>
          (case unm b traffic of
             (Some err, traffic) \<Rightarrow> cu_Range_loop sto unm st ks traffic
           | (None, traffic) \<Rightarrow>
               (TrimPrefix k cu_prefix, Up traffic, Down traffic)
                 # cu_Range_loop sto unm st ks traffic))"

definition cu_Range :: "'st storage_ops \<Rightarrow> decoder \<Rightarrow> 'st \<Rightarrow> (string \<times> w64 \<times> w64) list" where
  "cu_Range sto unm st =
     (case st_List sto st cu_prefix of
        Inl err \<Rightarrow> []
      | Inr prekeys \<Rightarrow> cu_Range_loop sto unm st prekeys \<lparr>Up = 0, Down = 0\<rparr>)"

definition cu_Validate :: "'st storage_ops \<Rightarrow> 'st \<Rightarrow> string \<Rightarrow> bool" where
  "cu_Validate sto st k =
     (if \<not> validStorageKey k then False else st_Exists sto st (cu_prefix @ k))"

definition cu_Consume ::
  "'st storage_ops \<Rightarrow> decoder \<Rightarrow> 'st \<Rightarrow> string \<Rightarrow> w64 \<Rightarrow> w64 \<Rightarrow> go_error option \<times> 'st" where
  "cu_Consume sto unm st k nr nw =
     (if \<not> validStorageKey k
      then (Some (Wrap (''consume '' @ quoted k) errInvalidStorageKey), st)
      else
        let key = cu_prefix @ k in
        case st_Load sto st key of
          Inl err \<Rightarrow> (Some err, st)
        | Inr b \<Rightarrow>
            (case unm b \<lparr>Up = 0, Down = 0\<rparr> of
               (Some err, _) \<Rightarrow> (Some err, st)
             | (None, traffic) \<Rightarrow>
                 let traffic = traffic\<lparr>Up := Up traffic + nr, Down := Down traffic + nw\<rparr>
                 in st_Store sto st key (Marshal traffic)))"

definition cu_ops :: "'st storage_ops \<Rightarrow> decoder \<Rightarrow> 'st upstream_ops" where
  "cu_ops sto unm =
     \<lparr>uo_Add = cu_Add sto, uo_Delete = cu_Delete sto, uo_Range = cu_Range sto unm,
      uo_Validate = cu_Validate sto, uo_Consume = cu_Consume sto unm\<rparr>"

section \<open>The persistent store keeps the contract\<close>

definition cu_users :: "('st \<Rightarrow> string \<rightharpoonup> bytes) \<Rightarrow> decoder \<Rightarrow> 'st \<Rightarrow> userbase" where
  "cu_users files unm st k = map_option (\<lambda>b. snd (unm b no_traffic)) (files st (cu_prefix @ k))"

text \<open>Below the prefix there is nothing but encoded traffic.\<close>

definition cu_inv :: "('st \<Rightarrow> string \<rightharpoonup> bytes) \<Rightarrow> 'st \<Rightarrow> bool" where
  "cu_inv files st \<longleftrightarrow> (\<forall>k b. files st (cu_prefix @ k) = Some b \<longrightarrow> (\<exists>t. b = Marshal t))"

lemma cu_users_Marshal:
  "decoder_law unm \<Longrightarrow> files st (cu_prefix @ k) = Some (Marshal t) \<Longrightarrow> cu_users files unm st k = Some t"
  by (simp add: cu_users_def decoder_law_def)

lemma cu_users_None: "cu_users files unm st k = None \<longleftrightarrow> files st (cu_prefix @ k) = None"
  by (simp add: cu_users_def)

lemma cu_lookup:
  assumes "decoder_law unm" "cu_inv files st" "cu_users files unm st k = Some t"
  shows "files st (cu_prefix @ k) = Some (Marshal t)"
proof -
  from assms(3) obtain b where b: "files st (cu_prefix @ k) = Some b" by (auto simp: cu_users_def)
  with assms(2) obtain t' where "b = Marshal t'" by (auto simp: cu_inv_def)
  with b cu_users_Marshal [OF assms(1), of files st k t'] assms(3) show ?thesis by simp
qed

text \<open>What one write below the prefix does to the users and to the invariant.\<close>

lemma cu_stored:
  assumes "decoder_law unm" "cu_inv files st" "files st' = (files st)(cu_prefix @ k \<mapsto> Marshal t)"
  shows "cu_inv files st'" "cu_users files unm st' = (cu_users files unm st)(k \<mapsto> t)"
proof -
  show "cu_inv files st'" using assms(2,3) by (auto simp: cu_inv_def)
  show "cu_users files unm st' = (cu_users files unm st)(k \<mapsto> t)"
    using assms(1) by (auto simp: fun_eq_iff cu_users_def assms(3) decoder_law_def)
qed

lemma cu_removed:
  assumes "cu_inv files st" "files st' = (files st)(cu_prefix @ k := None)"
  shows "cu_inv files st'" "cu_users files unm st' = (cu_users files unm st)(k := None)"
  using assms by (auto simp: cu_inv_def fun_eq_iff cu_users_def)

lemma storage_lawsD:
  assumes "storage_laws sto files"
  shows "st_Exists sto st k \<longleftrightarrow> files st k \<noteq> None"
    "case st_Load sto st k of Inr v \<Rightarrow> files st k = Some v | Inl e \<Rightarrow> files st k = None"
    "case st_Store sto st k v of (e, st') \<Rightarrow> e = None \<and> files st' = (files st)(k \<mapsto> v)"
    "files st k \<noteq> None \<longrightarrow>
        (case st_Delete sto st k of (e, st') \<Rightarrow> e = None \<and> files st' = (files st)(k := None))"
    "case st_List sto st p of
        Inr ks \<Rightarrow> distinct ks \<and> set ks = {k. prefix p k \<and> files st k \<noteq> None}
      | Inl e \<Rightarrow> False"
proof -
  note laws = assms [unfolded storage_laws_def]
  note rest = laws [THEN conjunct2] laws [THEN conjunct2, THEN conjunct2]
    laws [THEN conjunct2, THEN conjunct2, THEN conjunct2]
  show "st_Exists sto st k \<longleftrightarrow> files st k \<noteq> None"
    by (rule laws [THEN conjunct1, THEN spec, THEN spec])
  show "case st_Load sto st k of Inr v \<Rightarrow> files st k = Some v | Inl e \<Rightarrow> files st k = None"
    by (rule rest(1) [THEN conjunct1, THEN spec, THEN spec])
  show "case st_Store sto st k v of (e, st') \<Rightarrow> e = None \<and> files st' = (files st)(k \<mapsto> v)"
    by (rule rest(2) [THEN conjunct1, THEN spec, THEN spec, THEN spec])
  show "files st k \<noteq> None \<longrightarrow>
      (case st_Delete sto st k of (e, st') \<Rightarrow> e = None \<and> files st' = (files st)(k := None))"
    by (rule rest(3) [THEN conjunct1, THEN spec, THEN spec])
  show "case st_List sto st p of
        Inr ks \<Rightarrow> distinct ks \<and> set ks = {k. prefix p k \<and> files st k \<noteq> None}
      | Inl e \<Rightarrow> False"
    by (rule rest(3) [THEN conjunct2, THEN spec, THEN spec])
qed

lemma cu_load:
  "storage_laws sto files \<Longrightarrow> files st k = Some b \<Longrightarrow> st_Load sto st k = Inr b"
  using storage_lawsD(2) [of sto files st k] by (auto split: sum.splits)

lemma cu_Range_loop_all:
  assumes "storage_laws sto files" "decoder_law unm" "cu_inv files st"
    "\<forall>k \<in> set ks. prefix cu_prefix k \<and> files st k \<noteq> None"
  shows "cu_Range_loop sto unm st ks old =
    map (\<lambda>k. let x = drop (length cu_prefix) k; t = the (cu_users files unm st x) in (x, Up t, Down t)) ks"
  using assms(4)
proof (induction ks arbitrary: old)
  case (Cons k ks)
  then obtain x b where k: "k = cu_prefix @ x" "files st k = Some b" by (auto elim: prefixE)
  then obtain t where t: "files st (cu_prefix @ x) = Some (Marshal t)"
    using assms(3) by (auto simp: cu_inv_def)
  then have "st_Load sto st k = Inr (Marshal t)" "cu_users files unm st x = Some t"
    using cu_load [OF assms(1)] cu_users_Marshal [OF assms(2)] k(1) by simp_all
  with Cons k(1) assms(2) show ?case by (simp add: decoder_law_def TrimPrefix_def)
qed simp

lemma cu_Range_users:
  assumes "storage_laws sto files" "decoder_law unm" "cu_inv files st"
  shows "distinct (map fst (cu_Range sto unm st)) \<and>
    map_of (map (\<lambda>(k, nr, nw). (k, \<lparr>Up = nr, Down = nw\<rparr>)) (cu_Range sto unm st)) = cu_users files unm st"
proof -
  obtain ks where ks: "st_List sto st cu_prefix = Inr ks" "distinct ks"
    "set ks = {k. prefix cu_prefix k \<and> files st k \<noteq> None}"
  proof -
    show thesis using that storage_lawsD(5) [OF assms(1), of cu_prefix st] by (auto split: sum.splits)
  qed
  define xs where "xs = map (drop (length cu_prefix)) ks"
  have set: "set xs = dom (cu_users files unm st)"
  proof (rule set_eqI)
    fix x
    have "x \<in> set xs \<longleftrightarrow> (\<exists>k. prefix cu_prefix k \<and> files st k \<noteq> None \<and> x = drop (length cu_prefix) k)"
      unfolding xs_def set_map ks(3) by auto
    also have "\<dots> \<longleftrightarrow> files st (cu_prefix @ x) \<noteq> None"
      by (auto elim!: prefixE intro!: exI [of _ "cu_prefix @ x"])
    also have "\<dots> \<longleftrightarrow> x \<in> dom (cu_users files unm st)" by (auto simp: cu_users_def)
    finally show "x \<in> set xs \<longleftrightarrow> x \<in> dom (cu_users files unm st)" .
  qed
  have "inj_on (drop (length cu_prefix)) (set ks)"
    unfolding ks(3) by (auto intro!: inj_onI elim!: prefixE)
  then have dist: "distinct xs" using ks(2) by (simp add: xs_def distinct_map)
  have "cu_Range sto unm st =
      map (\<lambda>x. let t = the (cu_users files unm st x) in (x, Up t, Down t)) xs"
    using cu_Range_loop_all [OF assms, of ks] ks(1,3) by (simp add: cu_Range_def xs_def Let_def)
  then have "map fst (cu_Range sto unm st) = xs \<and>
      map (\<lambda>(k, nr, nw). (k, \<lparr>Up = nr, Down = nw\<rparr>)) (cu_Range sto unm st) =
      map (\<lambda>x. (x, the (cu_users files unm st x))) xs"
    by (simp add: comp_def Let_def)
  moreover have "map_of (map (\<lambda>x. (x, the (cu_users files unm st x))) xs) = cu_users files unm st"
    unfolding map_of_map_restrict set
    by (auto simp: fun_eq_iff restrict_map_def dom_def)
  ultimately show ?thesis using dist by simp
qed

lemma storage_store:
  "storage_laws sto files \<Longrightarrow> st_Store sto st k v = (e, st') \<Longrightarrow>
    e = None \<and> files st' = (files st)(k \<mapsto> v)"
  using storage_lawsD(3) [of sto files st k v] by simp

lemma storage_delete:
  "storage_laws sto files \<Longrightarrow> files st k \<noteq> None \<Longrightarrow> st_Delete sto st k = (e, st') \<Longrightarrow>
    e = None \<and> files st' = (files st)(k := None)"
  using storage_lawsD(4) [of sto files st k] by simp

lemmas storage_exists = storage_lawsD(1)

lemma cu_Add_spec:
  assumes "storage_laws sto files" "decoder_law unm" "cu_inv files st" "cu_Add sto st p = (e, st')"
  shows "e = None \<and> cu_inv files st' \<and> cu_users files unm st' =
    (if cu_users files unm st (GenKey p) = None
     then (cu_users files unm st)(GenKey p \<mapsto> no_traffic) else cu_users files unm st)"
proof (cases "files st (cu_prefix @ GenKey p)")
  case None
  with assms(1,4) have "st_Store sto st (cu_prefix @ GenKey p) (Marshal no_traffic) = (e, st')"
    by (simp add: cu_Add_def storage_exists no_traffic_def)
  from storage_store [OF assms(1) this] cu_stored [OF assms(2,3)] None show ?thesis
    by (metis cu_users_None)
next
  case (Some b)
  with assms(1,3,4) show ?thesis
    by (auto simp: cu_Add_def storage_exists cu_users_None)
qed

lemma cu_Delete_spec:
  assumes "storage_laws sto files" "cu_inv files st" "cu_Delete sto st p = (e, st')"
  shows "e = None \<and> cu_inv files st' \<and> cu_users files unm st' = (cu_users files unm st)(GenKey p := None)"
proof (cases "files st (cu_prefix @ GenKey p)")
  case None
  then have "cu_users files unm st (GenKey p) = None" by (simp add: cu_users_None)
  then have "(cu_users files unm st)(GenKey p := None) = cu_users files unm st" by auto
  with None assms show ?thesis by (auto simp: cu_Delete_def storage_exists)
next
  case (Some b)
  with assms(1,3) have d: "st_Delete sto st (cu_prefix @ GenKey p) = (e, st')"
    by (simp add: cu_Delete_def storage_exists)
  have "files st (cu_prefix @ GenKey p) \<noteq> None" using Some by simp
  from storage_delete [OF assms(1) this d] cu_removed [OF assms(2)] show ?thesis by blast
qed

lemma cu_Consume_spec:
  assumes "storage_laws sto files" "decoder_law unm" "cu_inv files st" "validStorageKey k"
    "cu_users files unm st k = Some t" "cu_Consume sto unm st k nr nw = (e, st')"
  shows "e = None \<and> cu_inv files st' \<and> cu_users files unm st' = count_for (cu_users files unm st) k nr nw"
proof -
  from cu_lookup [OF assms(2,3,5)] have "st_Load sto st (cu_prefix @ k) = Inr (Marshal t)"
    by (rule cu_load [OF assms(1)])
  with assms(2,4,6) have "st_Store sto st (cu_prefix @ k) (Marshal (add_traffic t nr nw)) = (e, st')"
    by (simp add: cu_Consume_def decoder_law_def Traffic_update)
  from storage_store [OF assms(1) this] cu_stored [OF assms(2,3)] show ?thesis
    by (metis assms(5) count_for_def option.simps(9))
qed

lemma caddy_reliable:
  assumes "storage_laws sto files" "decoder_law unm"
  shows "reliable_upstream (cu_ops sto unm) (cu_users files unm) (cu_inv files)"
proof (unfold_locales, goal_cases)
  case (1 st p st')
  then show ?case using cu_Add_spec [OF assms 1(1), of p None st']
    by (auto simp: cu_ops_def) (metis fun_upd_triv)
next
  case (2 st p st')
  then show ?case using cu_Delete_spec [OF assms(1) 2(1), of p None st'] by (auto simp: cu_ops_def)
next
  case (3 st k)
  then show ?case
    by (simp add: cu_ops_def cu_Validate_def storage_exists [OF assms(1)] cu_users_None)
next
  case (4 st k t nr nw st')
  then show ?case using cu_Consume_spec [OF assms 4(1-3), of nr nw None st'] by (auto simp: cu_ops_def)
next
  case (5 st)
  then show ?case using cu_Range_users [OF assms 5] by (simp add: cu_ops_def)
next
  case (6 st k)
  then show ?case
    by (simp add: cu_ops_def cu_Validate_def storage_exists [OF assms(1)] cu_users_None split: if_splits)
next
  case (7 st p)
  then show ?case using cu_Add_spec [OF assms 7, of p] by (auto simp: cu_ops_def prod_eq_iff)
next
  case (8 st p)
  then show ?case using cu_Delete_spec [OF assms(1) 8, of p] by (auto simp: cu_ops_def prod_eq_iff)
next
  case (9 st k nr nw)
  then obtain t where "cu_users files unm st k = Some t" by auto
  from cu_Consume_spec [OF assms 9(1,2) this, of nr nw] show ?case by (auto simp: cu_ops_def prod_eq_iff)
qed

section \<open>An instance of the parameters\<close>

text \<open>A storage that is a list of files, and a decoder of what \<open>Marshal\<close> writes.\<close>

definition list_storage :: "(string \<times> bytes) list storage_ops" where
  "list_storage =
     \<lparr>st_Exists = (\<lambda>fs k. map_of fs k \<noteq> None),
      st_Load = (\<lambda>fs k. case map_of fs k of None \<Rightarrow> Inl (Msg ''file does not exist'') | Some v \<Rightarrow> Inr v),
      st_Store = (\<lambda>fs k v. (None, AList.update k v fs)),
      st_Delete = (\<lambda>fs k. (None, AList.delete k fs)),
      st_List = (\<lambda>fs p. Inr (remdups (filter (prefix p) (map fst fs))))\<rparr>"

lemma list_storage_laws: "storage_laws list_storage map_of"
  by (auto simp: storage_laws_def list_storage_def update_conv' delete_conv' fun_upd_def
      map_of_eq_None_iff split: option.splits)

definition parse_nat :: "string \<Rightarrow> nat" where
  "parse_nat s = fold (\<lambda>c n. 10 * n + (of_char c - 48)) s 0"

definition parse_int :: "string \<Rightarrow> int" where
  "parse_int s = (case s of c # cs \<Rightarrow> if c = CHR ''-'' then - int (parse_nat cs) else int (parse_nat s) | [] \<Rightarrow> 0)"

definition Unmarshal :: decoder where
  "Unmarshal b old =
     (let s = drop 6 (string_of_bytes b); u = takeWhile (\<lambda>c. c \<noteq> CHR '','') s;
          d = takeWhile (\<lambda>c. c \<noteq> CHR ''}'') (drop (length u + 8) s)
      in (None, \<lparr>Up = word_of_int (parse_int u), Down = word_of_int (parse_int d)\<rparr>))"

lemma digit_range: "c \<in> set (itoa n) \<Longrightarrow> 48 \<le> (of_char c :: nat) \<and> (of_char c :: nat) \<le> 57"
proof (induction n rule: itoa.induct)
  case (1 n)
  have d: "48 \<le> (of_char (digit_char m) :: nat) \<and> (of_char (digit_char m) :: nat) \<le> 57" if "m < 10" for m
    using that by (auto simp: less_Suc_eq numeral_eq_Suc digit_char_def)
  show ?case
  proof (cases "n < 10")
    case True
    then have "itoa n = [digit_char n]" by (simp add: itoa.simps)
    with "1.prems" d [OF True] show ?thesis by simp
  next
    case False
    then have "itoa n = itoa (n div 10) @ [digit_char (n mod 10)]" by (subst itoa.simps) simp
    with "1.prems" "1.IH" [OF False] d [of "n mod 10"] show ?thesis by auto
  qed
qed

lemma parse_itoa: "parse_nat (itoa n) = n"
proof (induction n rule: itoa.induct)
  case (1 n)
  have d: "(of_char (digit_char m) :: nat) - 48 = m" if "m < 10" for m
    using that by (auto simp: less_Suc_eq numeral_eq_Suc digit_char_def)
  show ?case
  proof (cases "n < 10")
    case True
    then show ?thesis using d [OF True] by (simp add: itoa.simps parse_nat_def)
  next
    case False
    then have "itoa n = itoa (n div 10) @ [digit_char (n mod 10)]" by (subst itoa.simps) simp
    then have "parse_nat (itoa n) = 10 * parse_nat (itoa (n div 10)) + (of_char (digit_char (n mod 10)) - 48)"
      by (simp add: parse_nat_def)
    then show ?thesis using "1.IH" [OF False] d [of "n mod 10"] by simp
  qed
qed

lemma parse_int_text: "parse_int (int_text i) = i"
proof (cases "i < 0")
  case True
  then show ?thesis by (simp add: int_text_def parse_int_def parse_itoa)
next
  case False
  obtain c cs where c: "itoa (nat i) = c # cs" using itoa_nonempty [of "nat i"] by (cases "itoa (nat i)") auto
  then have "c \<noteq> CHR ''-''" using digit_range [of c "nat i"] by auto
  with False c parse_itoa [of "nat i"] show ?thesis by (simp add: int_text_def parse_int_def)
qed

lemma int_text_clean: "c \<in> set (int_text i) \<Longrightarrow> c \<noteq> CHR '','' \<and> c \<noteq> CHR ''}''"
  using digit_range by (fastforce simp: int_text_def split: if_splits)

lemma Unmarshal_law: "decoder_law Unmarshal"
proof -
  have "Unmarshal (Marshal t) old = (None, t)" for t old
  proof -
    let ?u = "int_text (sint (Up t))" and ?d = "int_text (sint (Down t))"
    have s: "drop 6 (string_of_bytes (Marshal t)) = ?u @ CHR '','' # (CHR 0x22 # ''down'' @ [CHR 0x22] @ '':'') @ ?d @ ''}''"
      by (simp add: Marshal_def quoted_def)
    have u: "takeWhile (\<lambda>c. c \<noteq> CHR '','') (?u @ CHR '','' # r) = ?u" for r
      using int_text_clean by (subst takeWhile_append2) auto
    have d: "takeWhile (\<lambda>c. c \<noteq> CHR ''}'') (?d @ ''}'') = ?d"
      using int_text_clean by (subst takeWhile_append2) auto
    show ?thesis
      by (simp add: Unmarshal_def s u d parse_int_text Let_def)
  qed
  then show ?thesis by (simp add: decoder_law_def)
qed

interpretation caddy: reliable_upstream "cu_ops list_storage Unmarshal" "cu_users map_of Unmarshal"
  "cu_inv map_of"
  by (rule caddy_reliable [OF list_storage_laws Unmarshal_law])

section \<open>Properties of the user stores\<close>

lemma lifecycle_parts:
  assumes "storage_laws sto files" "decoder_law unm" "cu_inv files st" "mem_inv m"
  shows "mem_Validate (snd (mem_Add pops m p)) (GenKey p)"
    "\<not> mem_Validate (snd (mem_Delete pops m p)) (GenKey p)"
    "cu_Validate sto (snd (cu_Add sto st p)) (GenKey p)"
    "\<not> cu_Validate sto (snd (cu_Delete sto st p)) (GenKey p)"
    "validStorageKey k \<and> k \<noteq> GenKey p \<longrightarrow>
      mem_Validate (snd (mem_Add pops m p)) k = mem_Validate m k \<and>
      mem_Validate (snd (mem_Delete pops m p)) k = mem_Validate m k \<and>
      cu_Validate sto (snd (cu_Add sto st p)) k = cu_Validate sto st k \<and>
      cu_Validate sto (snd (cu_Delete sto st p)) k = cu_Validate sto st k"
proof -
  note caddy = caddy_reliable [OF assms(1,2), THEN reliable_upstream.axioms(1)]
  have ops: "uo_Add (mem_ops pops) m p = (None, snd (mem_Add pops m p))"
    "uo_Delete (mem_ops pops) m p = (None, snd (mem_Delete pops m p))"
    "uo_Add (cu_ops sto unm) st p = (None, snd (cu_Add sto st p))"
    "uo_Delete (cu_ops sto unm) st p = (None, snd (cu_Delete sto st p))"
    using cu_Add_spec [OF assms(1-3), of p] cu_Delete_spec [OF assms(1,3), of p]
    by (auto simp: mem_ops_def cu_ops_def mem_Add_def mem_Delete_def Let_def prod_eq_iff)
  have val: "uo_Validate (mem_ops pops) = mem_Validate" "uo_Validate (cu_ops sto unm) = cu_Validate sto"
    by (simp_all add: mem_ops_def cu_ops_def)
  show "mem_Validate (snd (mem_Add pops m p)) (GenKey p)"
    using mem.added_user_is_valid [OF assms(4) ops(1)] by (simp add: val)
  show "\<not> mem_Validate (snd (mem_Delete pops m p)) (GenKey p)"
    using mem.deleted_user_is_invalid [OF assms(4) ops(2)] by (simp add: val)
  show "cu_Validate sto (snd (cu_Add sto st p)) (GenKey p)"
    using upstream.added_user_is_valid [OF caddy assms(3) ops(3)] by (simp add: val)
  show "\<not> cu_Validate sto (snd (cu_Delete sto st p)) (GenKey p)"
    using upstream.deleted_user_is_invalid [OF caddy assms(3) ops(4)] by (simp add: val)
  show "validStorageKey k \<and> k \<noteq> GenKey p \<longrightarrow>
      mem_Validate (snd (mem_Add pops m p)) k = mem_Validate m k \<and>
      mem_Validate (snd (mem_Delete pops m p)) k = mem_Validate m k \<and>
      cu_Validate sto (snd (cu_Add sto st p)) k = cu_Validate sto st k \<and>
      cu_Validate sto (snd (cu_Delete sto st p)) k = cu_Validate sto st k"
    using mem.other_users_untouched [OF assms(4), of pops p _ k] ops(1,2)
      upstream.other_users_untouched [OF caddy assms(3), of p _ k] ops(3,4)
    by (metis val)
qed

text \<open>
  C29: in both stores a user can connect from the moment \<open>Add\<close> returns until \<open>Delete\<close>
  returns, and neither call changes who else can.
\<close>

theorem user_lifecycle:
  assumes "storage_laws sto files" "decoder_law unm" "cu_inv files st" "mem_inv m"
  shows "mem_Validate (snd (mem_Add pops m p)) (GenKey p) \<and>
    \<not> mem_Validate (snd (mem_Delete pops m p)) (GenKey p) \<and>
    cu_Validate sto (snd (cu_Add sto st p)) (GenKey p) \<and>
    \<not> cu_Validate sto (snd (cu_Delete sto st p)) (GenKey p) \<and>
    (validStorageKey k \<and> k \<noteq> GenKey p \<longrightarrow>
      mem_Validate (snd (mem_Add pops m p)) k = mem_Validate m k \<and>
      mem_Validate (snd (mem_Delete pops m p)) k = mem_Validate m k \<and>
      cu_Validate sto (snd (cu_Add sto st p)) k = cu_Validate sto st k \<and>
      cu_Validate sto (snd (cu_Delete sto st p)) k = cu_Validate sto st k)"
  using lifecycle_parts [OF assms] by blast


definition demo_files :: "(string \<times> bytes) list" where
  "demo_files = [(cu_prefix @ GenKey ''alice'', Marshal \<lparr>Up = 1, Down = 2\<rparr>)]"

lemma demo_files_inv: "cu_inv map_of demo_files"
  by (auto simp: cu_inv_def demo_files_def)

lemma demo_legal:
  "mem_legal pops [Call (TaskDelete ''alice''), Goroutine, Call (TaskAdd ''alice'')] m"
  by (simp add: mem_ops_def mem_Delete_def Let_def delete_conv')


theorem user_lifecycle_witness:
  "cu_Validate list_storage (snd (cu_Add list_storage demo_files ''bob'')) (GenKey ''bob'') \<and>
   \<not> mem_Validate (snd (mem_Delete (cu_ops list_storage Unmarshal) new_memory ''bob'')) (GenKey ''bob'')"
proof -
  have "mem_inv (new_memory :: (string \<times> bytes) list memory)" by (simp add: mem_inv_def new_memory_def)
  from user_lifecycle [OF list_storage_laws Unmarshal_law demo_files_inv this] show ?thesis by blast
qed

text \<open>
  C30: no traffic is lost between connections: however the calls of concurrent sessions, their
  sends and the goroutine interleave, once nothing is under way the storage holds the same
  counters as the map.
\<close>

theorem concurrent_sessions_balance:
  assumes "storage_laws sto files" "decoder_law unm" "cu_inv files st"
    "mem_Provision (cu_ops sto unm) (Some (Inr st)) = (e, m)"
    "mem_runs (cu_ops sto unm) ts \<lparr>sys_mem = m, sys_pending = []\<rparr> s"
    "\<forall>t \<in> set ts. is_consume t \<and> legal (map_of (mm m)) t"
    "ch (sys_mem s) = Some \<lparr>ch_buf = [], ch_closed = False\<rparr>" "sys_pending s = []"
  shows "\<exists>st'. up (sys_mem s) = Some st' \<and> cu_users files unm st' = map_of (mm (sys_mem s))"
proof -
  note caddy = caddy_reliable [OF assms(1,2)]
  let ?s = "\<lparr>sys_mem = m, sys_pending = []\<rparr>"
  have m: "mem_users m = cu_users files unm st" "ch m = Some \<lparr>ch_buf = [], ch_closed = False\<rparr>" "up m = Some st"
    using reliable_upstream.provision_synced(3) [OF caddy assms(3,4)] assms(4)
    by (auto simp: mem_Provision_def Let_def)
  then have "reliable_upstream.balanced (cu_users files unm) (cu_inv files) ?s"
    using assms(3) by (simp add: reliable_upstream.balanced_def [OF caddy])
  moreover have "sys_open s" using assms(7) by (simp add: sys_open_def)
  ultimately have bal: "reliable_upstream.balanced (cu_users files unm) (cu_inv files) s"
    using reliable_upstream.balanced_runs [OF caddy assms(5)] assms(6) by simp
  then obtain u where u: "up (sys_mem s) = Some u"
    unfolding reliable_upstream.balanced_def [OF caddy] by blast
  from reliable_upstream.quiescent_agrees [OF caddy bal assms(8,7) _ u] u show ?thesis by simp
qed

theorem concurrent_sessions_balance_witness:
  "\<exists>m s st'. mem_Provision (cu_ops list_storage Unmarshal) (Some (Inr demo_files)) = (None, m) \<and>
    mem_runs (cu_ops list_storage Unmarshal) [TaskConsume (GenKey ''alice'') 3 4]
      \<lparr>sys_mem = m, sys_pending = []\<rparr> s \<and>
    up (sys_mem s) = Some st' \<and> cu_users map_of Unmarshal st' = map_of (mm (sys_mem s))"
proof -
  let ?ops = "cu_ops list_storage Unmarshal"
  let ?t = "TaskConsume (GenKey ''alice'') 3 4"
  let ?e = "\<lparr>ch_buf = [], ch_closed = False\<rparr> :: chan"
  obtain e m where prov: "mem_Provision ?ops (Some (Inr demo_files)) = (e, m)" by (metis prod.exhaust)
  note sync = caddy.provision_synced [OF demo_files_inv prov]
  have ch: "ch m = Some ?e" using prov by (auto simp: mem_Provision_def Let_def)
  let ?s0 = "\<lparr>sys_mem = m, sys_pending = []\<rparr>"
  let ?s1 = "?s0\<lparr>sys_mem := mem_apply ?t m, sys_pending := [?t]\<rparr>"
  let ?s2 = "?s1\<lparr>sys_mem := (mem_apply ?t m)\<lparr>ch := Some (?e\<lparr>ch_buf := [?t]\<rparr>)\<rparr>, sys_pending := []\<rparr>"
  let ?s3 = "?s2\<lparr>sys_mem := persist_one ?ops (sys_mem ?s2)\<rparr>"
  have 1: "mem_system ?ops [?t] ?s0 ?s1" using mem_system.change [of ?ops ?t ?s0] by simp
  have "ch (sys_mem ?s1) = Some ?e" using ch by (simp only: msys.simps mem_apply_fields)
  then have 2: "mem_system ?ops [] ?s1 ?s2"
    using mem_system.send [of ?s1 "[]" ?t "[]" ?e ?ops] by simp
  have 3: "mem_system ?ops [] ?s2 ?s3" by (rule mem_system.goroutine)
  from mem_runs.step [OF mem_runs.step [OF mem_runs.step [OF mem_runs.stop 1] 2] 3]
  have runs: "mem_runs ?ops [?t] ?s0 ?s3" by simp
  have "cu_users map_of Unmarshal demo_files (GenKey ''alice'') = Some \<lparr>Up = 1, Down = 2\<rparr>"
    by (rule cu_users_Marshal [OF Unmarshal_law]) (simp add: demo_files_def)
  then have legal: "\<forall>t \<in> set [?t]. is_consume t \<and> legal (map_of (mm m)) t"
    using sync(3) by simp
  have up: "up (mem_apply ?t m) = Some demo_files"
    unfolding mem_apply_fields using prov by (auto simp: mem_Provision_def Let_def)
  then have "ch (sys_mem ?s3) = Some ?e" "sys_pending ?s3 = []" by (simp_all add: persist_one_def)
  from concurrent_sessions_balance [OF list_storage_laws Unmarshal_law demo_files_inv prov runs legal this]
  show ?thesis using prov sync(1) runs by blast
qed

lemma returns_parts:
  assumes "storage_laws sto files" "decoder_law unm" "cu_inv files st"
  shows "mem_Validate (snd (mem_Consume pops (snd (mem_Delete pops m p)) (GenKey p) nr nw)) (GenKey p)"
    "\<not> cu_Validate sto (snd (cu_Consume sto unm (snd (cu_Delete sto st p)) (GenKey p) nr nw)) (GenKey p)"
proof -
  show "mem_Validate (snd (mem_Consume pops (snd (mem_Delete pops m p)) (GenKey p) nr nw)) (GenKey p)"
    by (simp add: mem_Validate_def mem_Consume_users)
  let ?st = "snd (cu_Delete sto st p)"
  have "cu_users files unm ?st (GenKey p) = None"
    using cu_Delete_spec [OF assms(1,3), of p] by (metis fun_upd_same prod.collapse)
  then have none: "files ?st (cu_prefix @ GenKey p) = None" by (simp add: cu_users_None)
  then have "\<exists>e. st_Load sto ?st (cu_prefix @ GenKey p) = Inl e"
    using storage_lawsD(2) [OF assms(1), of ?st "cu_prefix @ GenKey p"] by (auto split: sum.splits)
  then have "snd (cu_Consume sto unm ?st (GenKey p) nr nw) = ?st"
    by (auto simp: cu_Consume_def)
  with none show "\<not> cu_Validate sto (snd (cu_Consume sto unm ?st (GenKey p) nr nw)) (GenKey p)"
    by (simp add: cu_Validate_def storage_exists [OF assms(1)])
qed

text \<open>
  Deleting a user is not final in memory. When a session of that user ends after the
  \<open>Delete\<close>, counting its traffic puts the key back into the map and the deleted user can
  connect again; the persistent store refuses the traffic and the user stays deleted.
\<close>

theorem deleted_user_returns:
  assumes "storage_laws sto files" "decoder_law unm" "cu_inv files st"
  shows "mem_Validate (snd (mem_Consume pops (snd (mem_Delete pops m p)) (GenKey p) nr nw)) (GenKey p) \<and>
    \<not> cu_Validate sto (snd (cu_Consume sto unm (snd (cu_Delete sto st p)) (GenKey p) nr nw)) (GenKey p)"
  using returns_parts [OF assms] by blast

theorem deleted_user_returns_witness:
  "mem_Validate (snd (mem_Consume (cu_ops list_storage Unmarshal)
      (snd (mem_Delete (cu_ops list_storage Unmarshal) new_memory ''alice'')) (GenKey ''alice'') 1 1))
      (GenKey ''alice'') \<and>
   \<not> cu_Validate list_storage (snd (cu_Consume list_storage Unmarshal
      (snd (cu_Delete list_storage demo_files ''alice'')) (GenKey ''alice'') 1 1)) (GenKey ''alice'')"
  using deleted_user_returns [OF list_storage_laws Unmarshal_law demo_files_inv] by blast

text \<open>
  C34: an \<open>Add\<close> and a \<open>Delete\<close> of one user that run at the same time can leave map and
  storage in disagreement for good: the map is changed under a lock, but the task is sent
  after it has been released, so that the storage may see the two in the other order. The
  user is then gone from memory and back after the next restart.
\<close>

theorem delete_can_be_overtaken:
  assumes "storage_laws sto files" "decoder_law unm" "cu_inv files st"
    "cu_users files unm st (GenKey p) = None"
    "mem_Provision (cu_ops sto unm) (Some (Inr st)) = (e, m)"
  shows "\<exists>s st'. mem_runs (cu_ops sto unm) [TaskAdd p, TaskDelete p] \<lparr>sys_mem = m, sys_pending = []\<rparr> s \<and>
    sys_pending s = [] \<and> ch (sys_mem s) = Some \<lparr>ch_buf = [], ch_closed = False\<rparr> \<and>
    up (sys_mem s) = Some st' \<and> map_of (mm (sys_mem s)) (GenKey p) = None \<and>
    cu_users files unm st' (GenKey p) = Some no_traffic"
proof -
  have "ch m = Some \<lparr>ch_buf = [], ch_closed = False\<rparr>" "up m = Some st"
    using assms(5) by (auto simp: mem_Provision_def Let_def)
  then show ?thesis
    using reliable_upstream.overtaking [OF caddy_reliable [OF assms(1,2)],
        of "\<lparr>sys_mem = m, sys_pending = []\<rparr>" st p] assms(3,4) by simp
qed

theorem delete_can_be_overtaken_witness:
  "\<exists>m s st'. mem_runs (cu_ops list_storage Unmarshal) [TaskAdd ''bob'', TaskDelete ''bob'']
      \<lparr>sys_mem = m, sys_pending = []\<rparr> s \<and> up (sys_mem s) = Some st' \<and>
    map_of (mm (sys_mem s)) (GenKey ''bob'') = None \<and>
    cu_users map_of Unmarshal st' (GenKey ''bob'') = Some no_traffic"
proof -
  have "cu_users map_of Unmarshal [] (GenKey ''bob'') = None" "cu_inv map_of []"
    by (simp_all add: cu_users_def cu_inv_def)
  moreover obtain e m where "mem_Provision (cu_ops list_storage Unmarshal) (Some (Inr [])) = (e, m)"
    by (metis prod.exhaust)
  ultimately show ?thesis
    using delete_can_be_overtaken [OF list_storage_laws Unmarshal_law] by blast
qed

end
