(* ===== verification/Json_Utils.thy ===== *)
theory Json_Utils
  imports Trojan_Prelude
begin

text \<open>
  The helpers of \<open>pkgs/x/utils.go\<close>: the removal of null members from the JSON a module is
  configured with, and the conversions between strings and byte slices. A document is the
  tree of its values; members keep the order of the text, and a name that occurs twice
  means its last value, as for \<open>encoding/json\<close>. A number is an integer that a \<open>float64\<close>
  holds exactly.
\<close>

section \<open>Documents\<close>

datatype json =
    JNull
  | JBool bool
  | JNum int
  | JStr string
  | JArr "json list"
  | JObj "(string \<times> json) list"

text \<open>A Go \<open>map[string]any\<close> is given by the members it was decoded from, without repetition.\<close>

fun last_wins :: "(string \<times> 'a) list \<Rightarrow> (string \<times> 'a) list" where
  "last_wins [] = []"
| "last_wins ((k, v) # kvs) =
     (if k \<in> fst ` set kvs then last_wins kvs else (k, v) # last_wins kvs)"

text \<open>Decoding into an \<open>any\<close>: in every object, down to any depth, the last value counts.\<close>

fun decode_any :: "json \<Rightarrow> json" where
  "decode_any (JArr xs) = JArr (map decode_any xs)"
| "decode_any (JObj kvs) = JObj (last_wins (map (\<lambda>(k, v). (k, decode_any v)) kvs))"
| "decode_any x = x"

text \<open>
  \<open>RemoveNullKeys\<close>. The type switch of the code finds a \<open>map[string]any\<close> in every nested
  object; arrays are copied as they are, with whatever nulls they hold.
\<close>

fun RemoveNullKeys :: "(string \<times> json) list \<Rightarrow> (string \<times> json) list" where
  "RemoveNullKeys [] = []"
| "RemoveNullKeys ((k, v) # kvs) =
     (case v of
        JNull \<Rightarrow> RemoveNullKeys kvs
      | JObj sub \<Rightarrow> (k, JObj (RemoveNullKeys sub)) # RemoveNullKeys kvs
      | _ \<Rightarrow> (k, v) # RemoveNullKeys kvs)"

text \<open>
  \<open>RemoveNullKeysFromJSON\<close>: the argument is the parsed text, or the syntax error of the
  parser. The value \<open>null\<close> decodes into a nil map, any other value that is not an object
  is an error.
\<close>

definition RemoveNullKeysFromJSON :: "go_error + json \<Rightarrow> go_error + json" where
  "RemoveNullKeysFromJSON doc =
     (case doc of
        Inl e \<Rightarrow> Inl e
      | Inr JNull \<Rightarrow> Inr (JObj (RemoveNullKeys []))
      | Inr (JObj kvs) \<Rightarrow>
          (case decode_any (JObj kvs) of
             JObj m \<Rightarrow> Inr (JObj (RemoveNullKeys m))
           | _ \<Rightarrow> Inl (Msg ''unreachable''))
      | Inr _ \<Rightarrow> Inl (Msg ''json: cannot unmarshal value into Go value of type map[string]interface {}''))"

text \<open>\<open>ByteSliceToString\<close> and \<open>StringToByteSlice\<close>: the same bytes, shared instead of copied.\<close>

definition ByteSliceToString :: "bytes \<Rightarrow> string" where
  "ByteSliceToString b = string_of_bytes b"

definition StringToByteSlice :: "string \<Rightarrow> bytes" where
  "StringToByteSlice s = bytes_of_string s"

text \<open>
  \<open>RemoveNullKeysFromJSONString\<close> on texts, for any parser and printer of JSON: an error comes with
  the empty string.
\<close>

definition RemoveNullKeysFromJSONString ::
  "(bytes \<Rightarrow> go_error + json) \<Rightarrow> (json \<Rightarrow> bytes) \<Rightarrow> string \<Rightarrow> string \<times> go_error option" where
  "RemoveNullKeysFromJSONString parse print jsonString =
     (case RemoveNullKeysFromJSON (parse (bytes_of_string jsonString)) of
        Inl e \<Rightarrow> ([], Some e)
      | Inr j \<Rightarrow> (string_of_bytes (print j), None))"

section \<open>Members\<close>

lemma last_wins_keys: "fst ` set (last_wins kvs) = fst ` set kvs"
  by (induction kvs rule: last_wins.induct) (auto simp: insert_absorb)

lemma distinct_last_wins: "distinct (map fst (last_wins kvs))"
proof (induction kvs rule: last_wins.induct)
  case (2 k v kvs)
  then show ?case using last_wins_keys [of kvs] by (auto simp: image_iff)
qed simp

lemma map_of_last_wins: "map_of (last_wins kvs) = map_of (rev kvs)"
proof (induction kvs rule: last_wins.induct)
  case (2 k v kvs)
  have "k \<in> fst ` set kvs \<Longrightarrow> k \<in> dom (map_of (rev kvs))" by (simp add: dom_map_of_conv_image_fst)
  moreover have "k \<notin> fst ` set kvs \<Longrightarrow> k \<notin> dom (map_of (rev kvs))" by (simp add: dom_map_of_conv_image_fst)
  ultimately show ?case using 2 by (auto simp: map_add_def fun_eq_iff split: option.splits)
qed simp

text \<open>What becomes of one member.\<close>

fun clean :: "json \<Rightarrow> json option" where
  "clean JNull = None"
| "clean (JObj kvs) = Some (JObj (RemoveNullKeys kvs))"
| "clean v = Some v"

lemma RemoveNullKeys_Cons: "RemoveNullKeys ((k, v) # kvs) =
    (case clean v of None \<Rightarrow> RemoveNullKeys kvs | Some v' \<Rightarrow> (k, v') # RemoveNullKeys kvs)"
  by (cases v) simp_all

lemma RemoveNullKeys_keys: "fst ` set (RemoveNullKeys kvs) \<subseteq> fst ` set kvs"
proof (induction kvs)
  case (Cons a kvs)
  then show ?case
    by (cases a; cases "clean (snd a)")
      (simp_all add: RemoveNullKeys_Cons subset_insertI2 del: RemoveNullKeys.simps(2))
qed simp

lemma RemoveNullKeys_lookup:
  "distinct (map fst kvs) \<Longrightarrow> map_of (RemoveNullKeys kvs) k = Option.bind (map_of kvs k) clean"
proof (induction kvs)
  case (Cons a kvs)
  obtain j v where a: "a = (j, v)" by (metis prod.exhaust)
  have "k \<notin> fst ` set kvs \<Longrightarrow> map_of (RemoveNullKeys kvs) k = None"
    using RemoveNullKeys_keys [of kvs] by (auto simp: map_of_eq_None_iff)
  with Cons a show ?case
    by (cases "clean v") (auto simp: RemoveNullKeys_Cons simp del: RemoveNullKeys.simps(2))
qed simp

text \<open>No null is left as a member, at any depth of objects.\<close>

fun no_null_members :: "json \<Rightarrow> bool" where
  "no_null_members (JObj kvs) \<longleftrightarrow> (\<forall>(k, v) \<in> set kvs. v \<noteq> JNull \<and> no_null_members v)"
| "no_null_members _ \<longleftrightarrow> True"

lemma RemoveNullKeys_no_null: "no_null_members (JObj (RemoveNullKeys kvs))"
  by (induction kvs rule: RemoveNullKeys.induct) (auto split: json.splits)

lemma RemoveNullKeys_id: "no_null_members (JObj kvs) \<Longrightarrow> RemoveNullKeys kvs = kvs"
  by (induction kvs rule: RemoveNullKeys.induct) (auto split: json.splits)

lemma RemoveNullKeys_idem: "RemoveNullKeys (RemoveNullKeys kvs) = RemoveNullKeys kvs"
  by (rule RemoveNullKeys_id [OF RemoveNullKeys_no_null])

lemma RemoveNullKeysFromJSON_object:
  "RemoveNullKeysFromJSON (Inr (JObj kvs)) =
    Inr (JObj (RemoveNullKeys (last_wins (map (\<lambda>(k, v). (k, decode_any v)) kvs))))"
  by (simp add: RemoveNullKeysFromJSON_def)

lemma RemoveNullKeysFromJSON_InrE:
  assumes "RemoveNullKeysFromJSON doc = Inr out"
  obtains "doc = Inr JNull" "out = JObj []"
    | kvs where "doc = Inr (JObj kvs)"
        "out = JObj (RemoveNullKeys (last_wins (map (\<lambda>(k, v). (k, decode_any v)) kvs)))"
  using assms by (auto simp: RemoveNullKeysFromJSON_def split: sum.splits json.splits)

text \<open>
  A configuration that went through \<open>RemoveNullKeysFromJSON\<close> is an object without null
  members at any depth; the value found under a name is the last one the text gave it,
  cleaned in turn, and absent when that was null. Cleaning it once more changes nothing.
\<close>

theorem null_keys_are_removed:
  assumes "RemoveNullKeysFromJSON (Inr (JObj kvs)) = Inr out"
  shows "\<exists>m. out = JObj m \<and> no_null_members out \<and> distinct (map fst m) \<and>
    (\<forall>k. map_of m k = Option.bind (map_of (rev kvs) k) (clean \<circ> decode_any)) \<and>
    RemoveNullKeys m = m"
proof -
  let ?kvs = "map (\<lambda>(k, v). (k, decode_any v)) kvs"
  let ?m = "RemoveNullKeys (last_wins ?kvs)"
  have "map_of ?m k = Option.bind (map_of (rev kvs) k) (clean \<circ> decode_any)" for k
    by (simp add: RemoveNullKeys_lookup distinct_last_wins map_of_last_wins rev_map map_of_map
        Option.bind_map_option)
  moreover have "distinct (map fst (RemoveNullKeys xs))" if "distinct (map fst xs)" for xs
    using that
  proof (induction xs)
    case (Cons a xs)
    then show ?case using RemoveNullKeys_keys [of xs]
      by (cases a; cases "clean (snd a)")
        (auto simp: RemoveNullKeys_Cons image_iff subset_iff simp del: RemoveNullKeys.simps(2))
  qed simp
  ultimately show ?thesis
    using assms RemoveNullKeys_no_null RemoveNullKeys_idem distinct_last_wins
    by (simp add: RemoveNullKeysFromJSON_object del: no_null_members.simps) blast
qed

theorem null_keys_are_removed_witness:
  "RemoveNullKeysFromJSON (Inr (JObj [(''pre_proxy'', JNull), (''server'', JStr ''h'')])) =
      Inr (JObj [(''server'', JStr ''h'')]) \<and>
    no_null_members (JObj [(''server'', JStr ''h'')])"
proof -
  let ?kvs = "[(''pre_proxy'', JNull), (''server'', JStr ''h'')]"
  have eq: "RemoveNullKeysFromJSON (Inr (JObj ?kvs)) = Inr (JObj [(''server'', JStr ''h'')])"
    by (simp add: RemoveNullKeysFromJSON_object)
  from null_keys_are_removed [OF this] eq show ?thesis by blast
qed

end
