(* ===== verification/Admin.thy ===== *)
theory Admin
  imports Caddy_Upstream Json_Utils Go_IO
begin

text \<open>
  The admin endpoint of \<open>modules/admin/admin.go\<close>: its three handlers over any store, its
  \<open>Provision\<close>, and what \<open>encoding/json\<close> does to the body of a request. The syntax of JSON is
  a parameter, from bytes to documents; how a document fills the struct is written out.
\<close>

section \<open>Requests\<close>

record request =
  rq_Method :: string
  rq_Body :: istream

record response =
  rs_code :: "nat option"
  rs_users :: "(string \<times> w64 \<times> w64) list option"

definition no_response :: response where
  "no_response = \<lparr>rs_code = None, rs_users = None\<rparr>"

definition status_OK :: nat where "status_OK = 200"

text \<open>\<open>io.ReadAll\<close>: everything up to the end, which is not an error.\<close>

definition ReadAll :: "istream \<Rightarrow> go_error + bytes" where
  "ReadAll s = (if is_err s = EOF then Inr (content s) else Inl (is_err s))"

text \<open>
  Decoding into the struct with the one field \<open>Password\<close>: names are compared without case
  (for the letters of ASCII), null leaves the field alone, the last value counts, and a
  value of another type is an error.
\<close>

definition lower :: "string \<Rightarrow> string" where
  "lower = map (\<lambda>c. let n = of_char c :: nat in if 65 \<le> n \<and> n \<le> 90 then char_of (n + 32) else c)"

definition type_error :: go_error where
  "type_error = Msg ''json: cannot unmarshal value into Go value''"

fun decode_fields :: "(string \<times> json) list \<Rightarrow> string \<Rightarrow> go_error option \<Rightarrow> go_error + string" where
  "decode_fields [] pw err = (case err of None \<Rightarrow> Inr pw | Some e \<Rightarrow> Inl e)"
| "decode_fields ((k, v) # kvs) pw err =
     (if lower k \<noteq> ''password'' then decode_fields kvs pw err
      else case v of
             JStr s \<Rightarrow> decode_fields kvs s err
           | JNull \<Rightarrow> decode_fields kvs pw err
           | _ \<Rightarrow> decode_fields kvs pw (Some type_error))"

definition decode_user :: "json \<Rightarrow> go_error + string" where
  "decode_user j =
     (case j of JObj kvs \<Rightarrow> decode_fields kvs [] None | JNull \<Rightarrow> Inr [] | _ \<Rightarrow> Inl type_error)"

type_synonym json_parser = "bytes \<Rightarrow> go_error + json"

definition read_user :: "json_parser \<Rightarrow> request \<Rightarrow> go_error + string" where
  "read_user parse r =
     (case ReadAll (rq_Body r) of
        Inl e \<Rightarrow> Inl e
      | Inr b \<Rightarrow> (case parse b of Inl e \<Rightarrow> Inl e | Inr j \<Rightarrow> decode_user j))"

section \<open>The handlers\<close>

definition ErrNotConfigured :: go_error where
  "ErrNotConfigured = Msg ''module not configured''"

text \<open>\<open>Provision\<close>: without the app the endpoint stays without a store, and does nothing.\<close>

definition Admin_Provision :: "go_error option \<Rightarrow> go_error + 'u \<Rightarrow> go_error option \<times> 'u option" where
  "Admin_Provision AppIfConfigured App_upstream =
     (case AppIfConfigured of
        Some e \<Rightarrow> (if errors_Is e ErrNotConfigured then None else Some e, None)
      | None \<Rightarrow> (case App_upstream of Inl e \<Rightarrow> (Some e, None) | Inr u \<Rightarrow> (None, Some u)))"

definition GetUsers :: "'u upstream_ops \<Rightarrow> 'u option \<Rightarrow> request \<Rightarrow> go_error option \<times> response" where
  "GetUsers ops al r =
     (case al of
        None \<Rightarrow> (None, no_response)
      | Some u \<Rightarrow>
          if rq_Method r \<noteq> ''GET'' then (Some (Msg ''get trojan user method error''), no_response)
          else (None, \<lparr>rs_code = Some status_OK, rs_users = Some (uo_Range ops u)\<rparr>))"

definition AddUser ::
  "json_parser \<Rightarrow> 'u upstream_ops \<Rightarrow> 'u option \<Rightarrow> request \<Rightarrow> (go_error option \<times> response) \<times> 'u option" where
  "AddUser parse ops al r =
     (case al of
        None \<Rightarrow> ((None, no_response), None)
      | Some u \<Rightarrow>
          if rq_Method r \<noteq> ''POST'' then ((Some (Msg ''add trojan user method error''), no_response), al)
          else (case read_user parse r of
                 Inl e \<Rightarrow> ((Some e, no_response), al)
               | Inr pw \<Rightarrow>
                   ((None, no_response\<lparr>rs_code := Some status_OK\<rparr>),
                    Some (if pw \<noteq> [] then snd (uo_Add ops u pw) else u))))"

definition DeleteUser ::
  "json_parser \<Rightarrow> 'u upstream_ops \<Rightarrow> 'u option \<Rightarrow> request \<Rightarrow> (go_error option \<times> response) \<times> 'u option" where
  "DeleteUser parse ops al r =
     (case al of
        None \<Rightarrow> ((None, no_response), None)
      | Some u \<Rightarrow>
          if rq_Method r \<noteq> ''DELETE'' then ((Some (Msg ''delete trojan user method error''), no_response), al)
          else (case read_user parse r of
                 Inl e \<Rightarrow> ((Some e, no_response), al)
               | Inr pw \<Rightarrow>
                   ((None, no_response\<lparr>rs_code := Some status_OK\<rparr>),
                    Some (if pw \<noteq> [] then snd (uo_Delete ops u pw) else u))))"

section \<open>What the endpoint does\<close>

text \<open>The users a GET lists, as a map.\<close>

definition listed :: "go_error option \<times> response \<Rightarrow> userbase" where
  "listed r = map_of (map (\<lambda>(k, nr, nw). (k, \<lparr>Up = nr, Down = nw\<rparr>)) (the (rs_users (snd r))))"

definition get_request :: request where
  "get_request = \<lparr>rq_Method = ''GET'', rq_Body = \<lparr>is_chunks = [], is_last = [], is_err = EOF\<rparr>\<rparr>"

context reliable_upstream
begin

lemma listed_users: "inv u \<Longrightarrow> listed (GetUsers ops (Some u) get_request) = users u"
  using range_law [of u] by (simp add: listed_def GetUsers_def get_request_def)

lemma add_listed:
  assumes "inv u" "rq_Method r = ''POST''" "read_user parse r = Inr pw" "pw \<noteq> []"
  shows "\<exists>u' t. AddUser parse ops (Some u) r = ((None, no_response\<lparr>rs_code := Some status_OK\<rparr>), Some u') \<and>
    inv u' \<and> listed (GetUsers ops (Some u') get_request) = (users u)(GenKey pw \<mapsto> t)"
proof -
  have "uo_Add ops u pw = (None, snd (uo_Add ops u pw))" using add_ok [OF assms(1), of pw] by (simp add: prod_eq_iff)
  from add_law [OF assms(1) this] listed_users [of "snd (uo_Add ops u pw)"] assms(2-4) show ?thesis
    by (auto simp: AddUser_def)
qed

lemma delete_listed:
  assumes "inv u" "rq_Method r = ''DELETE''" "read_user parse r = Inr pw" "pw \<noteq> []"
  shows "\<exists>u'. DeleteUser parse ops (Some u) r = ((None, no_response\<lparr>rs_code := Some status_OK\<rparr>), Some u') \<and>
    inv u' \<and> listed (GetUsers ops (Some u') get_request) = (users u)(GenKey pw := None)"
proof -
  have "uo_Delete ops u pw = (None, snd (uo_Delete ops u pw))"
    using delete_ok [OF assms(1), of pw] by (simp add: prod_eq_iff)
  from delete_law [OF assms(1) this] listed_users [of "snd (uo_Delete ops u pw)"] assms(2-4) show ?thesis
    by (auto simp: DeleteUser_def)
qed

end

text \<open>
  Over any store that keeps its contract, adding and deleting users through the endpoint
  does to the list of users exactly what the requests say: a GET lists the users of the store
  with their counters; after a POST with a password it lists that user as well, after a
  DELETE no longer, and all others as before. A request with another method, or with a body
  that is no user, changes nothing and is answered with an error.
\<close>

theorem admin_manages_users:
  assumes "reliable_upstream ops users ok" "ok u" "read_user parse r = Inr pw" "pw \<noteq> []"
  shows "listed (GetUsers ops (Some u) get_request) = users u \<and>
    (rq_Method r = ''POST'' \<longrightarrow> (\<exists>u' t. snd (AddUser parse ops (Some u) r) = Some u' \<and>
      listed (GetUsers ops (Some u') get_request) = (users u)(GenKey pw \<mapsto> t))) \<and>
    (rq_Method r = ''DELETE'' \<longrightarrow> (\<exists>u'. snd (DeleteUser parse ops (Some u) r) = Some u' \<and>
      listed (GetUsers ops (Some u') get_request) = (users u)(GenKey pw := None))) \<and>
    (\<forall>r'. rq_Method r' \<noteq> ''POST'' \<or> (\<exists>e. read_user parse r' = Inl e) \<longrightarrow>
      (\<exists>e. AddUser parse ops (Some u) r' = ((Some e, no_response), Some u))) \<and>
    (\<forall>r'. rq_Method r' \<noteq> ''DELETE'' \<or> (\<exists>e. read_user parse r' = Inl e) \<longrightarrow>
      (\<exists>e. DeleteUser parse ops (Some u) r' = ((Some e, no_response), Some u)))"
proof -
  note rel = assms(1,2)
  have "listed (GetUsers ops (Some u) get_request) = users u"
    by (rule reliable_upstream.listed_users [OF rel])
  moreover have "\<exists>u' t. snd (AddUser parse ops (Some u) r) = Some u' \<and>
      listed (GetUsers ops (Some u') get_request) = (users u)(GenKey pw \<mapsto> t)" if "rq_Method r = ''POST''"
    using reliable_upstream.add_listed [OF rel that assms(3,4)] by fastforce
  moreover have "\<exists>u'. snd (DeleteUser parse ops (Some u) r) = Some u' \<and>
      listed (GetUsers ops (Some u') get_request) = (users u)(GenKey pw := None)" if "rq_Method r = ''DELETE''"
    using reliable_upstream.delete_listed [OF rel that assms(3,4)] by fastforce
  moreover have "\<exists>e. AddUser parse ops (Some u) r' = ((Some e, no_response), Some u)"
    if "rq_Method r' \<noteq> ''POST'' \<or> (\<exists>e. read_user parse r' = Inl e)" for r'
    using that by (auto simp: AddUser_def)
  moreover have "\<exists>e. DeleteUser parse ops (Some u) r' = ((Some e, no_response), Some u)"
    if "rq_Method r' \<noteq> ''DELETE'' \<or> (\<exists>e. read_user parse r' = Inl e)" for r'
    using that by (auto simp: DeleteUser_def)
  ultimately show ?thesis by blast
qed

definition bob_request :: request where
  "bob_request = \<lparr>rq_Method = ''DELETE'', rq_Body = \<lparr>is_chunks = [], is_last = [], is_err = EOF\<rparr>\<rparr>"

theorem admin_manages_users_witness:
  "\<exists>fs. snd (DeleteUser (\<lambda>_. Inr (JObj [(''password'', JStr ''alice'')])) (cu_ops list_storage Unmarshal)
      (Some demo_files) bob_request) = Some fs \<and>
    listed (GetUsers (cu_ops list_storage Unmarshal) (Some fs) get_request) (GenKey ''alice'') = None"
proof -
  let ?p = "\<lambda>_ :: bytes. (Inr (JObj [(''password'', JStr ''alice'')]) :: go_error + json)"
  have r: "read_user ?p bob_request = Inr ''alice''"
    by (simp add: read_user_def ReadAll_def bob_request_def decode_user_def lower_def)
  have m: "rq_Method bob_request = ''DELETE''" by (simp add: bob_request_def)
  have "''alice'' \<noteq> []" by simp
  from admin_manages_users [OF caddy.reliable_upstream_axioms demo_files_inv r this] m show ?thesis
    by (metis fun_upd_same)
qed

section \<open>Sequences of requests\<close>

text \<open>
  The routes of the endpoint; the server calls the handler of a path and no other one. \<open>None\<close>
  is a path that is not of this endpoint.
\<close>

definition Routes ::
  "json_parser \<Rightarrow> 'u upstream_ops
    \<Rightarrow> (string \<times> ('u option \<Rightarrow> request \<Rightarrow> (go_error option \<times> response) \<times> 'u option)) list" where
  "Routes parse ops =
     [(''/trojan/users'', \<lambda>al r. (GetUsers ops al r, al)),
      (''/trojan/users/add'', AddUser parse ops),
      (''/trojan/users/delete'', DeleteUser parse ops)]"

definition serve_admin ::
  "json_parser \<Rightarrow> 'u upstream_ops \<Rightarrow> string \<times> request \<Rightarrow> 'u option
    \<Rightarrow> (go_error option \<times> response) option \<times> 'u option" where
  "serve_admin parse ops q al =
     (case map_of (Routes parse ops) (fst q) of
        None \<Rightarrow> (None, al)
      | Some h \<Rightarrow> (case h al (snd q) of (answer, al') \<Rightarrow> (Some answer, al')))"

definition run_admin ::
  "json_parser \<Rightarrow> 'u upstream_ops \<Rightarrow> (string \<times> request) list \<Rightarrow> 'u option \<Rightarrow> 'u option" where
  "run_admin parse ops qs al = fold (\<lambda>q al. snd (serve_admin parse ops q al)) qs al"

text \<open>What a request means for the set of users: the key it adds, and the key it deletes.\<close>

definition key_of :: "json_parser \<Rightarrow> string \<Rightarrow> string \<Rightarrow> string \<times> request \<Rightarrow> string set" where
  "key_of parse path meth q =
     (case read_user parse (snd q) of
        Inr pw \<Rightarrow> if fst q = path \<and> rq_Method (snd q) = meth \<and> pw \<noteq> [] then {GenKey pw} else {}
      | Inl _ \<Rightarrow> {})"

definition adds :: "json_parser \<Rightarrow> string \<times> request \<Rightarrow> string set" where
  "adds parse = key_of parse ''/trojan/users/add'' ''POST''"

definition deletes :: "json_parser \<Rightarrow> string \<times> request \<Rightarrow> string set" where
  "deletes parse = key_of parse ''/trojan/users/delete'' ''DELETE''"

definition admin_effect :: "json_parser \<Rightarrow> string \<times> request \<Rightarrow> string set \<Rightarrow> string set" where
  "admin_effect parse q K = K \<union> adds parse q - deletes parse q"

lemma serve_admin_paths:
  "serve_admin parse ops (''/trojan/users'', r) al = (Some (GetUsers ops al r), al)"
  "snd (serve_admin parse ops (''/trojan/users/add'', r) al) = snd (AddUser parse ops al r)"
  "snd (serve_admin parse ops (''/trojan/users/delete'', r) al) = snd (DeleteUser parse ops al r)"
  by (simp_all add: serve_admin_def Routes_def split: prod.split)

lemma serve_admin_other:
  "p \<noteq> ''/trojan/users'' \<Longrightarrow> p \<noteq> ''/trojan/users/add'' \<Longrightarrow> p \<noteq> ''/trojan/users/delete'' \<Longrightarrow>
    serve_admin parse ops (p, r) al = (None, al)"
  by (simp add: serve_admin_def Routes_def)

definition key_in :: "json_parser \<Rightarrow> request \<Rightarrow> string set" where
  "key_in parse r = (case read_user parse r of Inr pw \<Rightarrow> if pw \<noteq> [] then {GenKey pw} else {} | Inl _ \<Rightarrow> {})"

lemma adds_path: "adds parse (''/trojan/users/add'', r) = (if rq_Method r = ''POST'' then key_in parse r else {})"
  and deletes_path: "deletes parse (''/trojan/users/delete'', r) =
    (if rq_Method r = ''DELETE'' then key_in parse r else {})"
  by (simp_all add: adds_def deletes_def key_of_def key_in_def split: sum.splits)

lemma adds_other: "p \<noteq> ''/trojan/users/add'' \<Longrightarrow> adds parse (p, r) = {}"
  and deletes_other: "p \<noteq> ''/trojan/users/delete'' \<Longrightarrow> deletes parse (p, r) = {}"
  by (simp_all add: adds_def deletes_def key_of_def split: sum.splits)

lemma AddUser_state:
  "snd (AddUser parse ops (Some u) r) =
    Some (case read_user parse r of
      Inr pw \<Rightarrow> if rq_Method r = ''POST'' \<and> pw \<noteq> [] then snd (uo_Add ops u pw) else u | Inl _ \<Rightarrow> u)"
  by (simp add: AddUser_def split: sum.split)

lemma DeleteUser_state:
  "snd (DeleteUser parse ops (Some u) r) =
    Some (case read_user parse r of
      Inr pw \<Rightarrow> if rq_Method r = ''DELETE'' \<and> pw \<noteq> [] then snd (uo_Delete ops u pw) else u | Inl _ \<Rightarrow> u)"
  by (simp add: DeleteUser_def split: sum.split)

context reliable_upstream
begin

lemma add_effect:
  assumes "inv u"
  shows "\<exists>u'. snd (AddUser parse ops (Some u) r) = Some u' \<and> inv u' \<and>
    dom (users u') = dom (users u) \<union> adds parse (''/trojan/users/add'', r) \<and>
    (\<forall>k. k \<notin> adds parse (''/trojan/users/add'', r) \<longrightarrow> users u' k = users u k)"
proof -
  have add: "inv (snd (uo_Add ops u pw)) \<and> (\<exists>t. users (snd (uo_Add ops u pw)) = (users u)(GenKey pw \<mapsto> t))" for pw
    using add_law [OF assms, of pw "snd (uo_Add ops u pw)"] add_ok [OF assms, of pw] by (simp add: prod_eq_iff)
  show ?thesis
  proof (cases "\<exists>pw. read_user parse r = Inr pw \<and> rq_Method r = ''POST'' \<and> pw \<noteq> []")
    case True
    then obtain pw where pw: "read_user parse r = Inr pw" "rq_Method r = ''POST''" "pw \<noteq> []" by blast
    from add [of pw] show ?thesis unfolding AddUser_state adds_path key_in_def by (auto simp: pw)
  next
    case False
    with assms show ?thesis
      unfolding AddUser_state adds_path key_in_def by (cases "read_user parse r") auto
  qed
qed

lemma delete_effect:
  assumes "inv u"
  shows "\<exists>u'. snd (DeleteUser parse ops (Some u) r) = Some u' \<and> inv u' \<and>
    dom (users u') = dom (users u) - deletes parse (''/trojan/users/delete'', r) \<and>
    (\<forall>k. k \<notin> deletes parse (''/trojan/users/delete'', r) \<longrightarrow> users u' k = users u k)"
proof -
  have del: "inv (snd (uo_Delete ops u pw)) \<and> users (snd (uo_Delete ops u pw)) = (users u)(GenKey pw := None)" for pw
    using delete_law [OF assms, of pw "snd (uo_Delete ops u pw)"] delete_ok [OF assms, of pw] by (simp add: prod_eq_iff)
  show ?thesis
  proof (cases "\<exists>pw. read_user parse r = Inr pw \<and> rq_Method r = ''DELETE'' \<and> pw \<noteq> []")
    case True
    then obtain pw where pw: "read_user parse r = Inr pw" "rq_Method r = ''DELETE''" "pw \<noteq> []" by blast
    from del [of pw] show ?thesis unfolding DeleteUser_state deletes_path key_in_def by (auto simp: pw)
  next
    case False
    with assms show ?thesis
      unfolding DeleteUser_state deletes_path key_in_def by (cases "read_user parse r") auto
  qed
qed

lemma serve_admin_effect:
  assumes "inv u"
  shows "\<exists>u'. snd (serve_admin parse ops q (Some u)) = Some u' \<and> inv u' \<and>
    dom (users u') = admin_effect parse q (dom (users u)) \<and>
    (\<forall>k. k \<notin> adds parse q \<union> deletes parse q \<longrightarrow> users u' k = users u k)"
proof -
  obtain p r where q: "q = (p, r)" by (cases q)
  consider "p = ''/trojan/users/add''" | "p = ''/trojan/users/delete''"
    | "p \<noteq> ''/trojan/users/add''" "p \<noteq> ''/trojan/users/delete''" by blast
  then show ?thesis
  proof cases
    case 1
    then have "deletes parse q = {}" by (simp add: q deletes_other)
    with 1 add_effect [OF assms, of parse r] show ?thesis
      by (simp add: q serve_admin_paths admin_effect_def)
  next
    case 2
    then have "adds parse q = {}" by (simp add: q adds_other)
    with 2 delete_effect [OF assms, of parse r] show ?thesis
      by (simp add: q serve_admin_paths admin_effect_def)
  next
    case 3
    then have "adds parse q = {}" "deletes parse q = {}" by (simp_all add: q adds_other deletes_other)
    moreover have "snd (serve_admin parse ops q (Some u)) = Some u"
      using 3 by (cases "p = ''/trojan/users''") (simp_all add: q serve_admin_paths serve_admin_other)
    ultimately show ?thesis using assms by (simp add: admin_effect_def)
  qed
qed

lemma run_admin_effect:
  assumes "inv u"
  shows "\<exists>u'. run_admin parse ops qs (Some u) = Some u' \<and> inv u' \<and>
    dom (users u') = fold (admin_effect parse) qs (dom (users u)) \<and>
    (\<forall>k. k \<notin> (\<Union>q \<in> set qs. adds parse q \<union> deletes parse q) \<longrightarrow> users u' k = users u k)"
  using assms
proof (induction qs arbitrary: u)
  case (Cons q qs)
  from serve_admin_effect [OF Cons.prems, of parse q] obtain u1 where u1:
    "snd (serve_admin parse ops q (Some u)) = Some u1" "inv u1"
    "dom (users u1) = admin_effect parse q (dom (users u))"
    "\<forall>k. k \<notin> adds parse q \<union> deletes parse q \<longrightarrow> users u1 k = users u k" by blast
  from Cons.IH [OF u1(2)] u1 show ?case by (auto simp: run_admin_def)
qed (simp add: run_admin_def)

end

text \<open>
  C40: the endpoint is a set of users. Over any store that keeps its contract, whatever the
  sequence of requests, of any methods, paths and bodies: the users there are at the end are
  those there were, with the keys of every accepted POST added and of every accepted DELETE
  taken away, in the order of the requests; a GET then lists exactly these, and the counters of
  users that no accepted request named are as they were.
\<close>

theorem admin_requests_refine_user_set:
  assumes "reliable_upstream ops users ok" "ok u"
  shows "\<exists>u'. run_admin parse ops qs (Some u) = Some u' \<and>
    dom (users u') = fold (admin_effect parse) qs (dom (users u)) \<and>
    listed (GetUsers ops (Some u') get_request) = users u' \<and>
    (\<forall>k. k \<notin> (\<Union>q \<in> set qs. adds parse q \<union> deletes parse q) \<longrightarrow> users u' k = users u k)"
  using reliable_upstream.run_admin_effect [OF assms, of parse qs]
    reliable_upstream.listed_users [OF assms(1)] by blast

definition carol_requests :: "(string \<times> request) list" where
  "carol_requests =
     [(''/trojan/users/add'', \<lparr>rq_Method = ''POST'', rq_Body = \<lparr>is_chunks = [], is_last = [1], is_err = EOF\<rparr>\<rparr>),
      (''/trojan/users/delete'', bob_request)]"

theorem admin_requests_refine_user_set_witness:
  "\<exists>fs. run_admin (\<lambda>b. Inr (JObj [(''password'', JStr (if b = [] then ''alice'' else ''carol''))]))
      (cu_ops list_storage Unmarshal) carol_requests (Some demo_files) = Some fs \<and>
    GenKey ''alice'' \<notin> dom (listed (GetUsers (cu_ops list_storage Unmarshal) (Some fs) get_request))"
proof -
  let ?p = "\<lambda>b :: bytes. (Inr (JObj [(''password'', JStr (if b = [] then ''alice'' else ''carol''))]) :: go_error + json)"
  from admin_requests_refine_user_set [OF caddy.reliable_upstream_axioms demo_files_inv, of ?p carol_requests]
  show ?thesis
    by (auto simp: carol_requests_def admin_effect_def adds_def deletes_def key_of_def read_user_def ReadAll_def
        decode_user_def lower_def bob_request_def content_def)
qed

text \<open>A store that fails to add a user is not noticed: the answer is as if it had.\<close>

theorem failed_add_is_answered_ok:
  assumes "rq_Method r = ''POST''" "read_user parse r = Inr pw" "pw \<noteq> []" "uo_Add ops u pw = (Some e, u)"
  shows "AddUser parse ops (Some u) r = ((None, no_response\<lparr>rs_code := Some status_OK\<rparr>), Some u)"
  using assms by (simp add: AddUser_def)

end
