(* ===== verification/Trojan_Header.thy ===== *)
theory Trojan_Header
  imports Trojan_Udp
begin

text \<open>
  \<open>HandleWithDialer\<close> of \<open>pkgs/trojan/trojan.go\<close>: the request that follows the 58 bytes the
  listener or the handler has checked already. It reads the command, the address and the
  CRLF into the places of one buffer of 262 bytes the code chose, and hands the connection
  to one of the two tunnels. What the tunnels meet is the input \<open>tcp_env\<close> or \<open>udp_env\<close>;
  the connection to the client in them is replaced by what the header left unread.
\<close>

section \<open>The request header\<close>

definition CmdConnect :: byte where "CmdConnect = 1"
definition CmdAssociate :: byte where "CmdAssociate = 3"

lemmas commands = CmdConnect_def CmdAssociate_def

text \<open>The part of the environment the dialer was asked for: nothing, a stream, or packets.\<close>

datatype session = NoSession | TcpSession tcp_run | UdpSession udp_run

record handled =
  hw_nr :: int
  hw_nw :: int
  hw_err :: "go_error option"
  hw_session :: session

definition refused :: "go_error \<Rightarrow> handled" where
  "refused e = \<lparr>hw_nr = 0, hw_nw = 0, hw_err = Some e, hw_session = NoSession\<rparr>"

definition handle_connect :: "tcp_env \<Rightarrow> Addr \<Rightarrow> handled outcome" where
  "handle_connect env addr =
     and_then (HandleTCP env addr) (\<lambda>run.
       Returns \<lparr>hw_nr = tcp_nr run, hw_nw = tcp_nw run,
         hw_err = map_option (Wrap ''handle tcp error'') (tcp_err run),
         hw_session = TcpSession run\<rparr>)"

definition handle_associate :: "udp_env \<Rightarrow> handled outcome" where
  "handle_associate env =
     and_then (HandleUDP env) (\<lambda>run.
       Returns \<lparr>hw_nr = udp_nr run, hw_nw = udp_nw run,
         hw_err = map_option (Wrap ''handle udp error'') (udp_err run),
         hw_session = UdpSession run\<rparr>)"

definition header_buf :: bytes where
  "header_buf = replicate (1 + MaxAddrLen + 2) 0"

text \<open>
  The reading of the header, over what is done in the end: \<open>rf\<close> with an error, \<open>con\<close> and
  \<open>asc\<close> with the connection behind the header. First the part from the address on; the
  buffer holds the command.
\<close>

definition handle_request ::
  "istream \<Rightarrow> bytes \<Rightarrow> (go_error \<Rightarrow> 'a) \<Rightarrow> (istream \<Rightarrow> Addr \<Rightarrow> 'a outcome) \<Rightarrow> (istream \<Rightarrow> 'a outcome)
    \<Rightarrow> 'a outcome" where
  "handle_request r b rf con asc =
     and_then (ReadAddrBuffer r (drop 3 b)) (\<lambda>(x, b3, r).
       case x of
         Inl e \<Rightarrow> Returns (rf (Wrap ''read addr error'' e))
       | Inr addr \<Rightarrow>
           and_then (ReadFullInto r (take 3 b @ b3) 1 3) (\<lambda>(err, b, r).
             case err of
               Some e \<Rightarrow> Returns (rf (Wrap ''read 0x0d 0x0a error'' e))
             | None \<Rightarrow>
                 if b ! 1 \<noteq> 0x0d \<or> b ! 2 \<noteq> 0x0a then Returns (rf errInvalidCRLF)
                 else if b ! 0 = CmdConnect then con r addr
                 else if b ! 0 = CmdAssociate then asc r
                 else Returns (rf (Msg ''command error''))))"

definition with_request ::
  "istream \<Rightarrow> (go_error \<Rightarrow> 'a) \<Rightarrow> (istream \<Rightarrow> Addr \<Rightarrow> 'a outcome) \<Rightarrow> (istream \<Rightarrow> 'a outcome)
    \<Rightarrow> 'a outcome" where
  "with_request r rf con asc =
     and_then (ReadFullInto r header_buf 0 1) (\<lambda>(err, b, r).
       case err of
         Some e \<Rightarrow> Returns (rf (Wrap ''read command error'' e))
       | None \<Rightarrow>
           if b ! 0 \<noteq> CmdConnect \<and> b ! 0 \<noteq> CmdAssociate
           then Returns (rf (Msg ''command error''))
           else handle_request r b rf con asc)"

definition HandleWithDialer :: "istream \<Rightarrow> tcp_env \<Rightarrow> udp_env \<Rightarrow> handled outcome" where
  "HandleWithDialer r te ue =
     with_request r refused (\<lambda>r addr. handle_connect (te\<lparr>up_src := r\<rparr>) addr)
       (\<lambda>r. handle_associate (ue\<lparr>client := r\<rparr>))"

section \<open>What the header accepts\<close>

text \<open>The bytes of a request with command \<open>c\<close> for the address \<open>a\<close>.\<close>

definition request :: "byte \<Rightarrow> bytes \<Rightarrow> bytes" where
  "request c a = c # a @ [0x0d, 0x0a]"

definition run_command :: "byte \<Rightarrow> bytes \<Rightarrow> istream \<Rightarrow> tcp_env \<Rightarrow> udp_env \<Rightarrow> handled outcome" where
  "run_command c a r te ue =
     (if c = CmdConnect then handle_connect (te\<lparr>up_src := r\<rparr>) \<lparr>addr_data = a\<rparr>
      else handle_associate (ue\<lparr>client := r\<rparr>))"

text \<open>The buffer after the command byte has been read.\<close>

lemma read_command:
  assumes "content r = c # xs"
  obtains b r1 where "ReadFullInto r header_buf 0 1 = Returns (None, b, r1)"
    "b ! 0 = c" "take 3 b = [c, 0, 0]" "drop 3 b = replicate MaxAddrLen 0"
    "content r1 = xs" "is_err r1 = is_err r"
proof -
  have "copy_at header_buf 0 [c] = c # replicate (MaxAddrLen + 2) 0"
    by (simp add: copy_at_def header_buf_def)
  moreover have "(1 :: nat) - 0 \<le> length (content r)" "1 \<le> length header_buf"
    using assms by (simp_all add: header_buf_def)
  ultimately show thesis
    using ReadFullInto_enough [of 0 1 header_buf r] assms
      that [of "c # replicate (MaxAddrLen + 2) 0"] by (auto simp: eval_nat_numeral)
qed

lemma read_crlf:
  assumes "length b3 = MaxAddrLen"
  shows "(\<exists>e b r'. ReadFullInto r (c # 0 # 0 # b3) 1 3 = Returns (Some e, b, r') \<and>
      length (content r) < 2) \<or>
    (\<exists>x y r'. ReadFullInto r (c # 0 # 0 # b3) 1 3 = Returns (None, c # x # y # b3, r') \<and>
      content r = x # y # content r' \<and> is_err r' = is_err r)"
proof (cases "length (content r) < 2")
  case True
  then have "length (content r) < 3 - 1" by simp
  then obtain r' where "ReadFullInto r (c # 0 # 0 # b3) 1 3 =
      Returns (Some (read_full_error r), copy_at (c # 0 # 0 # b3) 1 (content r), r')"
    by (rule ReadFullInto_short [rotated 2, of r 3 1 "c # 0 # 0 # b3"]) simp_all
  with True show ?thesis by blast
next
  case False
  then obtain x y xs where c: "content r = x # y # xs"
    by (cases "content r"; cases "tl (content r)") auto
  have enough: "3 - 1 \<le> length (content r)" "3 \<le> length (c # 0 # 0 # b3)" using c by simp_all
  have two: "take (3 - 1) (content r) = [x, y]" "drop (3 - 1) (content r) = xs" using c by simp_all
  have copy: "copy_at (c # 0 # 0 # b3) 1 [x, y] = c # x # y # b3"
    by (simp add: copy_at_def)
  obtain r' where r': "ReadFullInto r (c # 0 # 0 # b3) 1 3 = Returns (None, c # x # y # b3, r')"
    "content r' = xs" "is_err r' = is_err r"
    using ReadFullInto_enough [OF _ enough(2,1), unfolded two copy] by auto
  with c show ?thesis by blast
qed

text \<open>Reading the rest of a request into a buffer that holds the command.\<close>

lemma handle_request_ok:
  assumes "take 3 b = [c, 0, 0]" "drop 3 b = replicate MaxAddrLen 0"
    "c = CmdConnect \<or> c = CmdAssociate" "wf_addr a" "content r = a @ [0x0d, 0x0a] @ rest"
  obtains r' where "content r' = rest" "is_err r' = is_err r"
    "handle_request r b rf con asc = (if c = CmdConnect then con r' \<lparr>addr_data = a\<rparr> else asc r')"
proof -
  have "MaxAddrLen \<le> length (replicate MaxAddrLen (0 :: byte))" by simp
  from ReadAddrBuffer_prefix [OF this assms(5,4)] obtain b3 r2 where r2:
    "ReadAddrBuffer r (drop 3 b) = Returns (Inr \<lparr>addr_data = a\<rparr>, b3, r2)"
    "content r2 = [0x0d, 0x0a] @ rest" "is_err r2 = is_err r" "length b3 = MaxAddrLen"
    unfolding assms(2) by (metis length_replicate)
  from read_crlf [OF r2(4), of r2 c] r2(2) obtain r3 where r3:
    "ReadFullInto r2 (take 3 b @ b3) 1 3 = Returns (None, c # 0x0d # 0x0a # b3, r3)"
    "content r3 = rest" "is_err r3 = is_err r2"
    unfolding assms(1) by auto
  have "handle_request r b rf con asc = (if c = CmdConnect then con r3 \<lparr>addr_data = a\<rparr> else asc r3)"
    using assms(3) by (auto simp: handle_request_def r2(1) r3(1) simp del: One_nat_def)
  then show thesis using that r2 r3 by simp
qed

lemma handle_request_other:
  assumes "take 3 b = [c, 0, 0]" "drop 3 b = replicate MaxAddrLen 0"
    "\<not> (\<exists>a rest. wf_addr a \<and> content r = a @ [0x0d, 0x0a] @ rest)"
  shows "\<exists>e. handle_request r b rf con asc = Returns (rf e)"
proof -
  have "MaxAddrLen \<le> length (drop 3 b)" by (simp add: assms(2))
  then show ?thesis
  proof (cases rule: ReadAddrBuffer_cases [of _ r])
    case (error e b' r')
    then show ?thesis by (auto simp: handle_request_def)
  next
    case (ok a b3 r2)
    then have len: "length b3 = MaxAddrLen" by (simp add: assms(2))
    have crlf: "x \<noteq> 0x0d \<or> y \<noteq> 0x0a" if "content r2 = x # y # zs" for x y zs
      using assms(3) ok(2,3) that by auto
    from read_crlf [OF len, of r2 c] crlf ok(1) show ?thesis
      by (auto simp: handle_request_def assms(1) simp del: One_nat_def)
  qed
qed

lemma with_request_command:
  assumes "content r = c # xs" "c = CmdConnect \<or> c = CmdAssociate"
  obtains b r1 where "with_request r rf con asc = handle_request r1 b rf con asc"
    "take 3 b = [c, 0, 0]" "drop 3 b = replicate MaxAddrLen 0"
    "content r1 = xs" "is_err r1 = is_err r"
proof -
  from read_command [OF assms(1)] obtain b r1
    where b: "ReadFullInto r header_buf 0 1 = Returns (None, b, r1)"
      "b ! 0 = c" "take 3 b = [c, 0, 0]" "drop 3 b = replicate MaxAddrLen 0"
      and r1: "content r1 = xs" "is_err r1 = is_err r" .
  have "\<not> (b ! 0 \<noteq> CmdConnect \<and> b ! 0 \<noteq> CmdAssociate)" using assms(2) b(2) by auto
  then have "with_request r rf con asc = handle_request r1 b rf con asc"
    unfolding with_request_def b(1) by auto
  then show thesis using b(3,4) r1 by (rule that)
qed

text \<open>A request is served by its continuation; anything else is refused.\<close>

lemma with_request_ok:
  assumes "content r = request c a @ rest" "c = CmdConnect \<or> c = CmdAssociate" "wf_addr a"
  obtains r' where "content r' = rest" "is_err r' = is_err r"
    "with_request r rf con asc = (if c = CmdConnect then con r' \<lparr>addr_data = a\<rparr> else asc r')"
proof -
  have "content r = c # a @ [0x0d, 0x0a] @ rest" using assms(1) by (simp add: request_def)
  from with_request_command [OF this assms(2), of rf con asc] obtain b r1
    where 1: "with_request r rf con asc = handle_request r1 b rf con asc"
      "take 3 b = [c, 0, 0]" "drop 3 b = replicate MaxAddrLen 0"
      "content r1 = a @ [0x0d, 0x0a] @ rest" "is_err r1 = is_err r" .
  from handle_request_ok [OF 1(2,3) assms(2,3) 1(4), of rf con asc] show thesis
    using that 1(1,5) by metis
qed

lemma with_request_other:
  assumes "\<not> (\<exists>c a rest. (c = CmdConnect \<or> c = CmdAssociate) \<and> wf_addr a \<and>
    content r = request c a @ rest)"
  shows "\<exists>e. with_request r rf con asc = Returns (rf e)"
proof (cases "content r")
  case Nil
  then have short: "length (content r) < 1 - 0" "1 \<le> length header_buf" by (simp_all add: header_buf_def)
  obtain r' where "ReadFullInto r header_buf 0 1 =
      Returns (Some (read_full_error r), copy_at header_buf 0 (content r), r')"
    using ReadFullInto_short [of 0 1 header_buf r] short by auto
  then show ?thesis unfolding with_request_def by auto
next
  case (Cons c xs)
  show ?thesis
  proof (cases "c = CmdConnect \<or> c = CmdAssociate")
    case False
    from read_command [OF Cons] obtain b r1
      where "ReadFullInto r header_buf 0 1 = Returns (None, b, r1)" "b ! 0 = c" by metis
    with False show ?thesis unfolding with_request_def by auto
  next
    case True
    from with_request_command [OF Cons True, of rf con asc] obtain b r1
      where 1: "with_request r rf con asc = handle_request r1 b rf con asc"
        "take 3 b = [c, 0, 0]" "drop 3 b = replicate MaxAddrLen 0" "content r1 = xs" .
    have "\<not> (\<exists>a rest. wf_addr a \<and> content r1 = a @ [0x0d, 0x0a] @ rest)"
      using assms True Cons 1(4) by (auto simp: request_def)
    from handle_request_other [OF 1(2,3) this] show ?thesis unfolding 1(1) .
  qed
qed

lemma HandleWithDialer_request:
  assumes "content r = request c a @ rest" "c = CmdConnect \<or> c = CmdAssociate" "wf_addr a"
  obtains r' where "content r' = rest" "is_err r' = is_err r"
    "HandleWithDialer r te ue = run_command c a r' te ue"
  using with_request_ok [OF assms, of refused "\<lambda>r addr. handle_connect (te\<lparr>up_src := r\<rparr>) addr"
      "\<lambda>r. handle_associate (ue\<lparr>client := r\<rparr>)"]
  unfolding HandleWithDialer_def run_command_def by metis

lemma HandleWithDialer_other:
  assumes "\<not> (\<exists>c a rest. (c = CmdConnect \<or> c = CmdAssociate) \<and> wf_addr a \<and>
    content r = request c a @ rest)"
  shows "\<exists>e. HandleWithDialer r te ue = Returns (refused e)"
  using with_request_other [OF assms] by (simp add: HandleWithDialer_def)

text \<open>
  A request (the command CONNECT or ASSOCIATE, a well-formed address, CRLF) is handed to
  its tunnel with the address it names, and the tunnel reads the connection from right
  behind the header: no byte of the payload is lost or read twice, however it arrives.
\<close>

theorem request_is_dispatched:
  assumes "content r = request c a @ rest" "c = CmdConnect \<or> c = CmdAssociate" "wf_addr a"
  shows "\<exists>r'. content r' = rest \<and> is_err r' = is_err r \<and> HandleWithDialer r te ue =
    (if c = CmdConnect then handle_connect (te\<lparr>up_src := r'\<rparr>) \<lparr>addr_data = a\<rparr>
     else handle_associate (ue\<lparr>client := r'\<rparr>))"
  using HandleWithDialer_request [OF assms, of te ue] unfolding run_command_def by metis

definition demo_request :: istream where
  "demo_request =
     \<lparr>is_chunks = [1 # encode_addr (HostDomain [104]) 80, [0x0d], [0x0a, 9]], is_last = [8],
      is_err = EOF\<rparr>"

lemma content_demo_request:
  "content demo_request = request 1 (encode_addr (HostDomain [104]) 80) @ [9, 8]"
  by (simp add: demo_request_def content_def request_def)

theorem request_is_dispatched_witness:
  "\<exists>r'. content r' = [9, 8] \<and> HandleWithDialer demo_request demo_env demo_udp_env =
    handle_connect (demo_env\<lparr>up_src := r'\<rparr>) \<lparr>addr_data = encode_addr (HostDomain [104]) 80\<rparr>"
  using request_is_dispatched [OF content_demo_request, of demo_env demo_udp_env]
  by (auto simp: CmdConnect_def)

text \<open>
  C1: nothing else reaches the network. Whatever the peer sends that does not start with a
  request is refused with an error and no traffic; the dialer is never called.
\<close>

theorem only_requests_dial:
  assumes "HandleWithDialer r te ue = Returns h" "hw_session h \<noteq> NoSession"
  shows "\<exists>c a rest. (c = CmdConnect \<or> c = CmdAssociate) \<and> wf_addr a \<and>
    content r = request c a @ rest"
proof (rule ccontr)
  assume "\<not> ?thesis"
  from HandleWithDialer_other [OF this, of te ue] assms show False by (auto simp: refused_def)
qed

theorem only_requests_dial_witness:
  "\<exists>c a rest. (c = CmdConnect \<or> c = CmdAssociate) \<and> wf_addr a \<and>
    content demo_request = request c a @ rest"
proof -
  obtain r' where r': "HandleWithDialer demo_request demo_env demo_udp_env =
      handle_connect (demo_env\<lparr>up_src := r'\<rparr>) \<lparr>addr_data = encode_addr (HostDomain [104]) 80\<rparr>"
    using HandleWithDialer_request [OF content_demo_request, of demo_env demo_udp_env]
    by (auto simp: CmdConnect_def run_command_def)
  have "tcp_connected (demo_env\<lparr>up_src := r'\<rparr>) s" for s
    by (simp add: demo_env_def tcp_connected_def)
  then obtain run where "HandleTCP (demo_env\<lparr>up_src := r'\<rparr>)
      \<lparr>addr_data = encode_addr (HostDomain [104]) 80\<rparr> = Returns run"
    using HandleTCP_connected [OF demo_addr] by (metis prod.exhaust)
  then have "\<exists>run. handle_connect (demo_env\<lparr>up_src := r'\<rparr>) \<lparr>addr_data = encode_addr (HostDomain [104]) 80\<rparr>
      = Returns run \<and> hw_session run \<noteq> NoSession"
    by (simp add: handle_connect_def)
  with r' only_requests_dial show ?thesis by metis
qed

text \<open>
  A CONNECT request for a domain of 254 or 255 bytes, which the header accepts, panics
  before anything is dialed: \<open>HandleTCP\<close> renders the address first.
\<close>

theorem connect_long_domain_panics:
  assumes "content r = request CmdConnect (encode_addr (HostDomain d) p) @ rest"
    "254 \<le> length d" "length d \<le> 255" "alloc_byte_err te = None"
  shows "HandleWithDialer r te ue = Panics SliceBounds"
proof -
  have wf: "wf_addr (encode_addr (HostDomain d) p)" using assms(3) by simp
  obtain r' where "HandleWithDialer r te ue =
      run_command CmdConnect (encode_addr (HostDomain d) p) r' te ue"
    using HandleWithDialer_request [OF assms(1) _ wf, of te ue] by metis
  then show ?thesis
    using Addr_String_long [of d p] assms(2-4)
    by (simp add: run_command_def handle_connect_def HandleTCP_def allocShortCircuit_def)
qed

theorem connect_long_domain_panics_witness:
  "HandleWithDialer
     \<lparr>is_chunks = [request CmdConnect (encode_addr (HostDomain (replicate 255 97)) 80)],
      is_last = [], is_err = EOF\<rparr> demo_env demo_udp_env = Panics SliceBounds"
  by (rule connect_long_domain_panics [where rest = "[]" and d = "replicate 255 97" and p = 80])
    (simp_all add: content_def demo_env_def)

end
