(* ===== verification/Rawconn.thy ===== *)
theory Rawconn
  imports Go_IO
begin

text \<open>
  The rewinding connection of \<open>pkgs/rawconn/conn.go\<close>, which gives bytes that were read too
  early back to the next reader. The \<open>bytes.Reader\<close> in it is a slice and a position; the
  code tells the replay from the connection by the length of that slice, not by what is
  left of it, and resets it on the end of the replay. The wrapper is an \<open>io_reader\<close>: it
  behaves as one connection that starts with the bytes given back.
\<close>

section \<open>bytes.Reader\<close>

record breader =
  br_s :: bytes
  br_i :: nat

definition br_Reset :: "bytes \<Rightarrow> breader" where
  "br_Reset b = \<lparr>br_s = b, br_i = 0\<rparr>"

definition br_Size :: "breader \<Rightarrow> nat" where
  "br_Size r = length (br_s r)"

definition br_Read :: "breader \<Rightarrow> nat \<Rightarrow> (bytes \<times> go_error option) \<times> breader" where
  "br_Read r n =
     (if length (br_s r) \<le> br_i r then (([], Some EOF), r)
      else let bs = take n (drop (br_i r) (br_s r))
           in ((bs, None), r\<lparr>br_i := br_i r + length bs\<rparr>))"

section \<open>The connection\<close>

record conn =
  c_conn :: istream
  c_reader :: breader

definition NewConn :: "istream \<Rightarrow> bytes \<Rightarrow> conn" where
  "NewConn nc buf = \<lparr>c_conn = nc, c_reader = br_Reset buf\<rparr>"

definition RewindConn :: "istream \<Rightarrow> bytes \<Rightarrow> conn" where
  "RewindConn nc read = NewConn nc read"

definition conn_Read :: "conn \<Rightarrow> nat \<Rightarrow> (bytes \<times> go_error option) \<times> conn" where
  "conn_Read c n =
     (if br_Size (c_reader c) = 0
      then (case is_read (c_conn c) n of (r, nc) \<Rightarrow> (r, c\<lparr>c_conn := nc\<rparr>))
      else (case br_Read (c_reader c) n of
              ((bs, Some e), rd) \<Rightarrow>
                if errors_Is e EOF then ((bs, None), c\<lparr>c_reader := br_Reset []\<rparr>)
                else ((bs, Some e), c\<lparr>c_reader := rd\<rparr>)
            | ((bs, None), rd) \<Rightarrow> ((bs, None), c\<lparr>c_reader := rd\<rparr>)))"

text \<open>
  What \<open>CloseWrite\<close> finds inside: a \<open>*net.TCPConn\<close> or another connection with a
  \<open>CloseWrite\<close> of its own, each with the result of that call, or neither.
\<close>

datatype half_closer = NetTCPConn "go_error option" | CloseWriter "go_error option" | NoCloseWriter

fun CloseWrite :: "half_closer \<Rightarrow> go_error option" where
  "CloseWrite (NetTCPConn r) = r"
| "CloseWrite (CloseWriter r) = r"
| "CloseWrite NoCloseWriter = Some (Msg ''not supported'')"

text \<open>
  \<open>ConnectionState\<close>: the state of a \<open>*tls.Conn\<close> inside, or the zero value \<open>no_state\<close>. A rewound
  connection that is wrapped again hides it.
\<close>

datatype 'st inner_conn = TlsConn 'st | OtherConn

fun ConnectionState :: "'st \<Rightarrow> 'st inner_conn \<Rightarrow> 'st" where
  "ConnectionState no_state (TlsConn st) = st"
| "ConnectionState no_state OtherConn = no_state"

section \<open>The rewound connection is one connection\<close>

text \<open>
  The script the wrapper shows: what is left of the replay is its first chunk, and the
  read that notices the end of the replay returns no bytes.
\<close>

definition conn_view :: "conn \<Rightarrow> istream" where
  "conn_view c =
     (let buf = br_s (c_reader c); rest = drop (br_i (c_reader c)) buf; nc = c_conn c
      in if buf = [] then nc
         else nc\<lparr>is_chunks := (if rest = [] then [] else [rest]) @ [] # is_chunks nc\<rparr>)"

lemma conn_view_NewConn: "content (conn_view (NewConn nc bs)) = bs @ content nc"
  "is_err (conn_view (NewConn nc bs)) = is_err nc"
  by (simp_all add: conn_view_def NewConn_def br_Reset_def content_def)

lemma conn_Read_view:
  assumes "is_read (conn_view c) n = ((bs, e), v)"
  shows "\<exists>c'. conn_Read c n = ((bs, e), c') \<and> conn_view c' = v"
proof -
  obtain nc buf i where c: "c = \<lparr>c_conn = nc, c_reader = \<lparr>br_s = buf, br_i = i\<rparr>\<rparr>"
    by (metis breader.surjective conn.surjective old.unit.exhaust)
  consider "buf = []" | "buf \<noteq> []" "length buf \<le> i" | "buf \<noteq> []" "i < length buf" by linarith
  then show ?thesis
  proof cases
    case 1
    with assms show ?thesis
      by (auto simp: c conn_view_def conn_Read_def br_Size_def)
  next
    case 2
    with assms show ?thesis
      by (auto simp: c conn_view_def conn_Read_def br_Size_def br_Read_def br_Reset_def is_read_def)
  next
    case 3
    with assms show ?thesis
      by (auto simp: c conn_view_def conn_Read_def br_Size_def br_Read_def is_read_def Let_def
          min_def drop_drop add.commute split: if_splits)
  qed
qed

interpretation rewind: io_reader "\<lambda>c n. Returns (conn_Read c n)" conn_view "\<lambda>_. True"
  by unfold_locales (use conn_Read_view in blast)

text \<open>
  C17: giving bytes back loses nothing: for any split of what a peer sent into the bytes
  read so far and the rest of the connection, \<open>io.ReadFull\<close> on the rewound connection always
  returns, and returns exactly the bytes and the error the untouched connection would have
  given, for every length asked for.
\<close>

theorem rewind_preserves_data:
  assumes "content orig = bs @ content nc" "is_err orig = is_err nc"
  shows "\<exists>c'. ReadFull_via (\<lambda>c n. Returns (conn_Read c n)) (RewindConn nc bs) k =
      Some (Returns (fst (ReadFull orig k), fst (snd (ReadFull orig k)), c')) \<and>
    content (conn_view c') = content (snd (snd (ReadFull orig k)))"
proof -
  let ?v = "conn_view (RewindConn nc bs)"
  have v: "content ?v = content orig" "is_err ?v = is_err orig"
    using assms conn_view_NewConn [of nc bs] by (simp_all add: RewindConn_def)
  obtain s1 where 1: "ReadFull ?v k = (take k (content orig),
      if k \<le> length (content orig) then None else Some (read_full_error ?v), s1)"
    "content s1 = drop k (content orig)"
    using ReadFull_spec [of ?v k] v by auto
  obtain s2 where 2: "ReadFull orig k = (take k (content orig),
      if k \<le> length (content orig) then None else Some (read_full_error orig), s2)"
    "content s2 = drop k (content orig)"
    using ReadFull_spec [of orig k] by auto
  have "read_full_error ?v = read_full_error orig" by (simp add: read_full_error_def v)
  with 1 2 rewind.ReadFull_via_view [OF TrueI 1(1)] show ?thesis by auto
qed

theorem rewind_preserves_data_witness:
  "\<exists>c'. ReadFull_via (\<lambda>c n. Returns (conn_Read c n))
      (RewindConn \<lparr>is_chunks = [[3], [4]], is_last = [], is_err = EOF\<rparr> [1, 2]) 3 =
      Some (Returns ([1, 2, 3], None, c')) \<and> content (conn_view c') = [4]"
proof -
  let ?nc = "\<lparr>is_chunks = [[3], [4]], is_last = [], is_err = EOF\<rparr>"
  let ?o = "\<lparr>is_chunks = [], is_last = [1, 2, 3, 4], is_err = EOF\<rparr>"
  have "content ?o = [1, 2] @ content ?nc" "is_err ?o = is_err ?nc" by (simp_all add: content_def)
  from rewind_preserves_data [OF this, of 3] ReadFull_spec [of ?o 3] show ?thesis
    by (auto simp: content_def)
qed

end
