(* ===== verification/Listener.thy ===== *)
theory Listener
  imports Trojan_Header Rawconn Caddy_Upstream "HOL-Library.Multiset"
begin

text \<open>
  The listener wrapper of \<open>modules/listener/listener.go\<close>. Each accepted connection is read
  one byte at a time us to the 58 bytes that make a key and its CRLF; a user is served the
  protocol, everybody else is handed to the web server on a connection that replays what was
  read. The goroutine of one connection is a function of what the peer sends, of the user
  store and of the environment of the tunnel; it returns what it did to the connection, in
  order. The queue of connections and the closing of the listener are a step relation.
\<close>

section \<open>Reading the prefix\<close>

datatype sniffed = SniffClose | SniffRewind bytes istream | SniffFull bytes istream

text \<open>
  The loop at index \<open>n\<close> of the buffer \<open>b\<close>. A read of no bytes without an error goes on with
  the next index, and leaves a zero byte behind.
\<close>

function sniff :: "istream \<Rightarrow> bytes \<Rightarrow> nat \<Rightarrow> sniffed" where
  "sniff s b n =
     (if n < HeaderLen + 2 then
        (case is_read s 1 of
           ((bs, err), s') \<Rightarrow>
             let b = copy_at b n bs; nr = length bs in
             case err of
               Some err \<Rightarrow>
                 if errors_Is err EOF then SniffClose else SniffRewind (take (n + nr) b) s'
             | None \<Rightarrow>
                 if nr = 0 then sniff s' b (n + 1)
                 else if b ! n = 0x0a \<and> n < HeaderLen + 1 then SniffRewind (take (n + 1) b) s'
                 else sniff s' b (n + 1))
      else SniffFull b s)"
  by pat_completeness auto
termination
  by (relation "measure (\<lambda>(s, b, n). HeaderLen + 2 - n)") auto

declare sniff.simps [simp del]

section \<open>One connection\<close>

definition blank :: bytes where "blank = replicate (HeaderLen + 2) 0"

lemma length_blank [simp]: "length blank = HeaderLen + 2"
  by (simp add: blank_def)

text \<open>What the goroutine does to the connection.\<close>

datatype conn_act =
    SniffDeadline
  | ClearDeadline
  | HandOver conn
  | Serve handled
  | CloseConn

definition sniffTimeout :: int where "sniffTimeout = 10 * second"

text \<open>
  The select statement: when the listener has been closed, either case may be taken;
  \<open>sent\<close> says which one is.
\<close>

definition hand_over :: "bool \<Rightarrow> istream \<Rightarrow> bytes \<Rightarrow> conn_act list" where
  "hand_over sent c b = [if sent then HandOver (RewindConn c b) else CloseConn]"

text \<open>
  What is done with a connection, when \<open>other\<close> ends its goroutine with these actions and
  \<open>tunnel\<close> goes on for the user with that key on the rest of the stream. The deferred reset of
  the deadline comes last on every path.
\<close>

definition with_user ::
  "'u upstream_ops \<Rightarrow> bool \<Rightarrow> istream \<Rightarrow> 'u \<Rightarrow> (conn_act list \<Rightarrow> 'a) \<Rightarrow> (string \<Rightarrow> istream \<Rightarrow> 'a) \<Rightarrow> 'a" where
  "with_user ops sent c us other tunnel =
     (case sniff c blank 0 of
        SniffClose \<Rightarrow> other [SniffDeadline, CloseConn, ClearDeadline]
      | SniffRewind b c \<Rightarrow> other ([SniffDeadline, ClearDeadline] @ hand_over sent c b @ [ClearDeadline])
      | SniffFull b c \<Rightarrow>
          let key = string_of_bytes (take HeaderLen b) in
          if b ! HeaderLen \<noteq> 0x0d \<or> b ! (HeaderLen + 1) \<noteq> 0x0a \<or> \<not> uo_Validate ops us key
          then other ([SniffDeadline, ClearDeadline] @ hand_over sent c b @ [ClearDeadline])
          else tunnel key c)"

text \<open>
  For a served connection the deferred \<open>Close\<close> comes before the reset of the deadline.
  \<open>meanwhile\<close> is what others do to the user store between \<open>Validate\<close> and \<open>Consume\<close>.
\<close>

definition serve_conn ::
  "'u upstream_ops \<Rightarrow> bool \<Rightarrow> ('u \<Rightarrow> 'u) \<Rightarrow> tcp_env \<Rightarrow> udp_env \<Rightarrow> istream \<Rightarrow> 'u
    \<Rightarrow> (conn_act list \<times> 'u) outcome" where
  "serve_conn ops sent meanwhile te ue c us =
     with_user ops sent c us (\<lambda>acts. Returns (acts, us)) (\<lambda>key c.
       and_then (HandleWithDialer c te ue) (\<lambda>h.
         Returns ([SniffDeadline, ClearDeadline, Serve h, CloseConn, ClearDeadline],
           snd (uo_Consume ops (meanwhile us) key
             (word_of_int (hw_nr h)) (word_of_int (hw_nw h))))))"

section \<open>The prefix is read without loss\<close>

text \<open>A connection that never returns zero bytes without an error.\<close>

definition no_empty_reads :: "istream \<Rightarrow> bool" where
  "no_empty_reads s \<longleftrightarrow> [] \<notin> set (is_chunks s)"

lemma is_read_1:
  assumes "no_empty_reads s" "is_read s 1 = ((bs, e), s')"
  shows "no_empty_reads s'" "e = None \<longrightarrow> (\<exists>x. bs = [x])"
    "e \<noteq> None \<longrightarrow> length bs \<le> 1 \<and> content s = bs"
proof -
  show "no_empty_reads s'" "e = None \<longrightarrow> (\<exists>x. bs = [x])"
    using assms
    by (auto simp: is_read_def no_empty_reads_def length_Suc_conv le_Suc_eq take_Suc
        split: list.splits if_splits)
  show "e \<noteq> None \<longrightarrow> length bs \<le> 1 \<and> content s = bs"
    using assms(2) by (auto simp: is_read_def content_def split: list.splits if_splits)
qed

lemma copy_at_take: "n + length bs \<le> length b \<Longrightarrow> take (n + length bs) (copy_at b n bs) = take n b @ bs"
  by (rule take_copy_at_end)

text \<open>
  Whatever the loop returns, the bytes it holds and those still to come are the bytes of the
  connection; a full prefix has no line feed before its last byte.
\<close>

lemma sniff_spec:
  assumes "no_empty_reads s" "length b = HeaderLen + 2" "n \<le> HeaderLen + 2"
    "0x0a \<notin> set (take (min n (HeaderLen + 1)) b)"
  shows "case sniff s b n of
      SniffClose \<Rightarrow> errors_Is (is_err s) EOF \<and> n + length (content s) \<le> HeaderLen + 2
    | SniffRewind bs s' \<Rightarrow> bs @ content s' = take n b @ content s \<and> is_err s' = is_err s
    | SniffFull bs s' \<Rightarrow> bs @ content s' = take n b @ content s \<and> is_err s' = is_err s \<and>
        length bs = HeaderLen + 2 \<and> 0x0a \<notin> set (take (HeaderLen + 1) bs)"
  using assms
proof (induction s b n rule: sniff.induct)
  case (1 s b n)
  show ?case
  proof (cases "n < HeaderLen + 2")
    case False
    then have n: "n = HeaderLen + 2" using "1.prems"(3) by simp
    have "sniff s b n = SniffFull b s" using False by (simp add: sniff.simps [of s b n])
    then show ?thesis using "1.prems"(2,4) n by simp
  next
    case True
    obtain bs e t where rd: "is_read s 1 = ((bs, e), t)" by (metis prod.exhaust)
    note spec = is_read_spec [OF rd] and one = is_read_1 [OF "1.prems"(1) rd]
    show ?thesis
    proof (cases e)
      case (Some x)
      then have x: "x = is_err s" "content t = []" using spec(4) by auto
      have "length bs \<le> 1" "content s = bs" using one(3) Some by auto
      then have "take (n + length bs) (copy_at b n bs) = take n b @ content s"
        using copy_at_take [of n bs b] True "1.prems"(2) by simp
      with Some x rd True spec(3) show ?thesis
        using \<open>length bs \<le> 1\<close> \<open>content s = bs\<close> by (simp add: sniff.simps [of s b n])
    next
      case None
      then obtain x where bs: "bs = [x]" using one(2) by blast
      let ?b = "copy_at b n [x]"
      have b: "take (n + 1) ?b = take n b @ [x]" "length ?b = HeaderLen + 2" "?b ! n = x"
        using copy_at_take [of n "[x]" b] nth_copy_at [of n "[x]" b 0] True "1.prems"(2) by simp_all
      have c: "content s = x # content t" "is_err t = is_err s" using spec(1,3) bs by simp_all
      show ?thesis
      proof (cases "x = 0x0a \<and> n < HeaderLen + 1")
        case True
        with None bs b rd c \<open>n < HeaderLen + 2\<close> show ?thesis
          by (simp add: sniff.simps [of s b n])
      next
        case False
        with None bs b rd \<open>n < HeaderLen + 2\<close> have run: "sniff s b n = sniff t ?b (n + 1)"
          by (auto simp: sniff.simps [of s b n] Let_def)
        have lf: "0x0a \<notin> set (take (min (n + 1) (HeaderLen + 1)) ?b)"
        proof (cases "n < HeaderLen + 1")
          case True
          with b(1) False "1.prems"(4) show ?thesis by (simp add: min_def)
        next
          case False
          with \<open>n < HeaderLen + 2\<close> have "n = HeaderLen + 1" by simp
          with "1.prems"(2,4) show ?thesis by simp
        qed
        note rd' = rd [unfolded bs None]
        have "case sniff t ?b (n + 1) of
            SniffClose \<Rightarrow> errors_Is (is_err t) EOF \<and> n + 1 + length (content t) \<le> HeaderLen + 2
          | SniffRewind bs s' \<Rightarrow> bs @ content s' = take (n + 1) ?b @ content t \<and> is_err s' = is_err t
          | SniffFull bs s' \<Rightarrow> bs @ content s' = take (n + 1) ?b @ content t \<and> is_err s' = is_err t \<and>
              length bs = HeaderLen + 2 \<and> 0x0a \<notin> set (take (HeaderLen + 1) bs)"
          by (rule "1.IH"(2) [OF True rd' [symmetric] refl refl refl refl])
            (use one(1) b False lf True in simp_all)
        then show ?thesis unfolding run b(1) using c by (simp split: sniffed.splits)
      qed
    qed
  qed
qed

section \<open>Users and everybody else\<close>

lemma sniff_start:
  assumes "no_empty_reads s"
  shows "case sniff s blank 0 of
      SniffClose \<Rightarrow> errors_Is (is_err s) EOF \<and> length (content s) \<le> HeaderLen + 2
    | SniffRewind bs s' \<Rightarrow> bs @ content s' = content s \<and> is_err s' = is_err s
    | SniffFull bs s' \<Rightarrow> bs @ content s' = content s \<and> is_err s' = is_err s \<and>
        length bs = HeaderLen + 2 \<and> 0x0a \<notin> set (take (HeaderLen + 1) bs)"
  using sniff_spec [OF assms, of blank 0] by (simp split: sniffed.splits)

lemma content_rewound: "content (conn_view (RewindConn c b)) = b @ content c"
  "is_err (conn_view (RewindConn c b)) = is_err c"
  by (simp_all add: RewindConn_def conn_view_NewConn)

text \<open>The first bytes of a user's connection.\<close>

definition greeting :: "string \<Rightarrow> bytes" where
  "greeting k = bytes_of_string k @ [0x0d, 0x0a]"

lemma length_greeting: "validStorageKey k \<Longrightarrow> length (greeting k) = HeaderLen + 2"
  by (simp add: greeting_def validStorageKey_def split: if_splits)

lemma greeting_split:
  assumes "length b = HeaderLen + 2" "b ! HeaderLen = 0x0d" "b ! (HeaderLen + 1) = 0x0a"
  shows "b = greeting (string_of_bytes (take HeaderLen b))"
proof -
  have "b = take HeaderLen b @ drop HeaderLen b" by simp
  also have "drop HeaderLen b = [b ! HeaderLen, b ! (HeaderLen + 1)]"
    using assms(1) by (simp add: Cons_nth_drop_Suc [symmetric])
  finally show ?thesis using assms(2,3) by (simp add: greeting_def)
qed

lemma with_user_cases:
  assumes "no_empty_reads c"
  obtains (closed) "with_user ops sent c us f g = f [SniffDeadline, CloseConn, ClearDeadline]"
      "errors_Is (is_err c) EOF" "length (content c) \<le> HeaderLen + 2"
  | (decoy) b c' where
      "with_user ops sent c us f g = f ([SniffDeadline, ClearDeadline] @ hand_over sent c' b @ [ClearDeadline])"
      "b @ content c' = content c" "is_err c' = is_err c"
  | (user) b c' where "with_user ops sent c us f g = g (string_of_bytes (take HeaderLen b)) c'"
      "b @ content c' = content c" "is_err c' = is_err c"
      "b = greeting (string_of_bytes (take HeaderLen b))" "length b = HeaderLen + 2"
      "uo_Validate ops us (string_of_bytes (take HeaderLen b))"
proof (cases "sniff c blank 0")
  case SniffClose
  with sniff_start [OF assms] show thesis by (intro closed) (auto simp: with_user_def)
next
  case (SniffRewind b c')
  with sniff_start [OF assms] show thesis by (intro decoy [of c' b]) (auto simp: with_user_def)
next
  case (SniffFull b c')
  with sniff_start [OF assms] have b: "b @ content c' = content c" "is_err c' = is_err c"
    "length b = HeaderLen + 2" by simp_all
  show thesis
  proof (cases "b ! HeaderLen \<noteq> 0x0d \<or> b ! (HeaderLen + 1) \<noteq> 0x0a \<or>
      \<not> uo_Validate ops us (string_of_bytes (take HeaderLen b))")
    case True
    with SniffFull b show thesis by (intro decoy [of c' b]) (auto simp: with_user_def)
  next
    case False
    with SniffFull b greeting_split [OF b(3)] show thesis
      by (intro user [of b c']) (auto simp: with_user_def)
  qed
qed

lemma serve_conn_cases:
  assumes "no_empty_reads c" "serve_conn ops sent mw te ue c us = Returns (acts, us')"
  obtains (closed) "acts = [SniffDeadline, CloseConn, ClearDeadline]" "us' = us"
      "errors_Is (is_err c) EOF" "length (content c) \<le> HeaderLen + 2"
  | (decoy) b c' where "acts = [SniffDeadline, ClearDeadline] @ hand_over sent c' b @ [ClearDeadline]"
      "us' = us" "b @ content c' = content c" "is_err c' = is_err c"
  | (user) b c' h where "acts = [SniffDeadline, ClearDeadline, Serve h, CloseConn, ClearDeadline]"
      "b @ content c' = content c" "is_err c' = is_err c"
      "b = greeting (string_of_bytes (take HeaderLen b))" "length b = HeaderLen + 2"
      "uo_Validate ops us (string_of_bytes (take HeaderLen b))"
      "HandleWithDialer c' te ue = Returns h"
      "us' = snd (uo_Consume ops (mw us) (string_of_bytes (take HeaderLen b))
        (word_of_int (hw_nr h)) (word_of_int (hw_nw h)))"
  using assms(1)
proof (cases rule: with_user_cases [where ops = ops and sent = sent and us = us and
    f = "\<lambda>acts. Returns (acts, us)" and g = "\<lambda>key c. and_then (HandleWithDialer c te ue) (\<lambda>h.
       Returns ([SniffDeadline, ClearDeadline, Serve h, CloseConn, ClearDeadline],
         snd (uo_Consume ops (mw us) key (word_of_int (hw_nr h)) (word_of_int (hw_nw h)))))"])
  case closed
  with assms(2) show thesis by (intro that(1)) (simp_all add: serve_conn_def)
next
  case (decoy b c')
  with assms(2) show thesis by (intro that(2) [of c' b]) (simp_all add: serve_conn_def)
next
  case (user b c')
  from user(1) assms(2) obtain h where "HandleWithDialer c' te ue = Returns h"
    "acts = [SniffDeadline, ClearDeadline, Serve h, CloseConn, ClearDeadline]"
    "us' = snd (uo_Consume ops (mw us) (string_of_bytes (take HeaderLen b))
      (word_of_int (hw_nr h)) (word_of_int (hw_nw h)))"
    by (auto simp: serve_conn_def outcome_simps)
  with user show thesis by (intro that(3)) auto
qed

lemma prefix_unique: "a @ x = b @ y \<Longrightarrow> length a = length b \<Longrightarrow> a = b \<and> x = y"
  by simp

lemma no_LF_greeting: "validStorageKey k \<Longrightarrow> 0x0a \<notin> set (take (HeaderLen + 1) (greeting k))"
proof -
  assume k: "validStorageKey k"
  have "hex_lower c \<Longrightarrow> (word_of_nat (of_char c) :: byte) \<noteq> 0x0a" for c
  proof
    assume h: "hex_lower c" and "(word_of_nat (of_char c) :: byte) = 0x0a"
    then have "unat (word_of_nat (of_char c) :: byte) = 10" by simp
    then have "(of_char c :: nat) = 10" by (simp only: unat_of_char)
    with h show False by (simp add: hex_lower_def)
  qed
  then have "0x0a \<notin> set (bytes_of_string k)"
    using k by (force simp: validStorageKey_def all_hex_lower_iff bytes_of_string_def split: if_splits)
  moreover have "length (bytes_of_string k) = HeaderLen"
    using k by (simp add: validStorageKey_def split: if_splits)
  ultimately show ?thesis by (simp add: greeting_def)
qed

text \<open>A prefix with no line feed before its last byte is read to the end.\<close>

lemma sniff_full:
  assumes "no_empty_reads s" "length b = HeaderLen + 2" "n \<le> HeaderLen + 2"
    "content s = xs @ rest" "n + length xs = HeaderLen + 2"
    "0x0a \<notin> set (take (HeaderLen + 1 - n) xs)"
    "rest \<noteq> [] \<or> is_last s = []"
  shows "\<exists>b' s'. sniff s b n = SniffFull b' s' \<and> b' = take n b @ xs \<and> content s' = rest \<and>
    is_err s' = is_err s"
  using assms
proof (induction s b n arbitrary: xs rule: sniff.induct)
  case (1 s b n)
  show ?case
  proof (cases "n < HeaderLen + 2")
    case False
    then have "n = HeaderLen + 2" "length xs = 0" using "1.prems"(3,5) by linarith+
    then have n: "n = HeaderLen + 2" "xs = []" by simp_all
    have "sniff s b n = SniffFull b s" using False by (simp add: sniff.simps [of s b n])
    then show ?thesis using "1.prems"(2,4) n by simp
  next
    case True
    then obtain x ys where xs: "xs = x # ys" using "1.prems"(5) by (cases xs) auto
    obtain bs e t where rd: "is_read s 1 = ((bs, e), t)" by (metis prod.exhaust)
    note spec = is_read_spec [OF rd] and one = is_read_1 [OF "1.prems"(1) rd]
    have none: "e = None"
    proof (rule ccontr)
      assume "e \<noteq> None"
      then have "content s = bs" "length bs \<le> 1" using one(3) by auto
      then have "rest = []" using "1.prems"(4) xs by (auto simp: le_Suc_eq length_Suc_conv)
      then have "is_last s = []" using "1.prems"(7) by simp
      then show False
        using rd \<open>content s = bs\<close> \<open>e \<noteq> None\<close> "1.prems"(4) xs
        by (auto simp: is_read_def content_def split: list.splits if_splits)
    qed
    then have bs: "bs = [x]" using one(2) spec(1) "1.prems"(4) xs by auto
    let ?b = "copy_at b n [x]"
    have b: "take (n + 1) ?b = take n b @ [x]" "length ?b = HeaderLen + 2" "?b ! n = x"
      using copy_at_take [of n "[x]" b] nth_copy_at [of n "[x]" b 0] True "1.prems"(2) by simp_all
    have c: "content t = ys @ rest" "is_err t = is_err s"
      using spec(1,3) bs "1.prems"(4) xs by simp_all
    have last: "rest \<noteq> [] \<or> is_last t = []"
      using rd "1.prems"(7) none by (auto simp: is_read_def split: list.splits if_splits)
    have lf: "\<not> (x = 0x0a \<and> n < HeaderLen + 1)"
      using "1.prems"(6) xs by (auto simp: take_Cons' split: if_splits)
    have run: "sniff s b n = sniff t ?b (n + 1)"
      using none bs b rd lf True by (auto simp: sniff.simps [of s b n] Let_def)
    have rest: "0x0a \<notin> set (take (HeaderLen + 1 - (n + 1)) ys)"
      using "1.prems"(6) xs by (auto simp: take_Cons' split: if_splits)
    have "\<exists>b' s'. sniff t ?b (n + 1) = SniffFull b' s' \<and> b' = take (n + 1) ?b @ ys \<and>
        content s' = rest \<and> is_err s' = is_err t"
      by (rule "1.IH"(2) [OF True rd [unfolded bs none, symmetric] refl refl refl refl])
        (use one(1) b c last lf rest True "1.prems"(5) xs in simp_all)
    then show ?thesis unfolding run b(1) using c xs by simp
  qed
qed

lemma sniff_greeting:
  assumes "no_empty_reads c" "content c = greeting k @ rest" "validStorageKey k"
    "rest \<noteq> [] \<or> is_last c = []"
  obtains c' where "sniff c blank 0 = SniffFull (greeting k) c'"
    "content c' = rest" "is_err c' = is_err c"
  using sniff_full [OF assms(1) _ _ assms(2), of blank 0]
    length_greeting [OF assms(3)] no_LF_greeting [OF assms(3)] assms(4) by auto

context upstream
begin

text \<open>Only users are served; the others leave no trace in the store.\<close>

lemma served_is_user:
  assumes "no_empty_reads c" "inv us" "serve_conn ops sent mw te ue c us = Returns (acts, us')"
    "Serve h \<in> set acts"
  shows "\<exists>k rest. content c = greeting k @ rest \<and> users us k \<noteq> None"
  using assms(1,3)
proof (cases rule: serve_conn_cases)
  case (user b c' h')
  from validate_only [OF assms(2) user(6)] have "users us (string_of_bytes (take HeaderLen b)) \<noteq> None" .
  with user(2,4) show ?thesis by metis
qed (use assms(4) in \<open>auto simp: hand_over_def split: if_splits\<close>)

lemma user_gets_tunnel:
  assumes "no_empty_reads c" "content c = greeting k @ rest" "validStorageKey k" "rest \<noteq> []"
    "inv us" "users us k \<noteq> None"
  shows "\<exists>c'. content c' = rest \<and> is_err c' = is_err c \<and> with_user ops sent c us f g = g k c'"
proof -
  obtain c' where c': "sniff c blank 0 = SniffFull (greeting k) c'"
    "content c' = rest" "is_err c' = is_err c"
    using sniff_greeting [OF assms(1-3)] assms(4) by blast
  have len: "length (bytes_of_string k) = HeaderLen"
    using assms(3) by (simp add: validStorageKey_def split: if_splits)
  then have g: "greeting k ! HeaderLen = 0x0d" "greeting k ! (HeaderLen + 1) = 0x0a"
    "take HeaderLen (greeting k) = bytes_of_string k"
    by (simp_all add: greeting_def nth_append)
  have "uo_Validate ops us k" using validate_law [OF assms(5,3)] assms(6) by simp
  then have "with_user ops sent c us f g = g k c'"
    unfolding with_user_def c'(1) sniffed.case Let_def g by simp
  with c' show ?thesis by blast
qed

lemma user_is_served:
  assumes "no_empty_reads c" "content c = greeting k @ rest" "validStorageKey k" "rest \<noteq> []"
    "inv us" "users us k \<noteq> None"
  shows "\<exists>c'. content c' = rest \<and> is_err c' = is_err c \<and>
    serve_conn ops sent mw te ue c us = and_then (HandleWithDialer c' te ue) (\<lambda>h.
      Returns ([SniffDeadline, ClearDeadline, Serve h, CloseConn, ClearDeadline],
        snd (uo_Consume ops (mw us) k (word_of_int (hw_nr h)) (word_of_int (hw_nw h)))))"
  unfolding serve_conn_def by (rule user_gets_tunnel [OF assms])

end

section \<open>The queue\<close>

text \<open>
  The life of the connections of one listener, each named by a number: those in the hands of
  the accepting loop's goroutines, the buffered channel of eight, those returned by
  \<open>Accept\<close>, and those that were closed (or, for a user, served and closed). \<open>Close\<close> closes
  the channel \<open>closed\<close> and nothing else: the loop still blocks in the inner listener's
  \<open>Accept\<close>, which may return further connections.
\<close>

record listener =
  ln_sniffing :: "nat list"
  ln_conns :: "nat list"
  ln_accepted :: "nat list"
  ln_gone :: "nat list"
  ln_closed :: bool

abbreviation conns_cap :: nat where "conns_cap \<equiv> 8"

definition NewListener :: listener where
  "NewListener = \<lparr>ln_sniffing = [], ln_conns = [], ln_accepted = [], ln_gone = [], ln_closed = False\<rparr>"

definition ln_Close :: "listener \<Rightarrow> listener" where
  "ln_Close l = (if ln_closed l then l else l\<lparr>ln_closed := True\<rparr>)"

text \<open>
  \<open>Accept\<close>: both cases of the select statement, of which any that is ready may be taken;
  \<open>None\<close> is \<open>os.ErrClosed\<close>.
\<close>

inductive ln_Accept :: "listener \<Rightarrow> nat option \<Rightarrow> listener \<Rightarrow> bool" where
  closed: "ln_closed l \<Longrightarrow> ln_Accept l None l"
| conn: "ln_conns l = c # cs \<Longrightarrow>
     ln_Accept l (Some c) (l\<lparr>ln_conns := cs, ln_accepted := ln_accepted l @ [c]\<rparr>)"

inductive ln_step :: "listener \<Rightarrow> listener \<Rightarrow> bool" where
  arrive: "ln_step l (l\<lparr>ln_sniffing := ln_sniffing l @ [c]\<rparr>)"
| enqueue: "ln_sniffing l = xs @ c # ys \<Longrightarrow> length (ln_conns l) < conns_cap \<Longrightarrow>
     ln_step l (l\<lparr>ln_sniffing := xs @ ys, ln_conns := ln_conns l @ [c]\<rparr>)"
| drop: "ln_sniffing l = xs @ c # ys \<Longrightarrow> ln_closed l \<Longrightarrow>
     ln_step l (l\<lparr>ln_sniffing := xs @ ys, ln_gone := ln_gone l @ [c]\<rparr>)"
| finish: "ln_sniffing l = xs @ c # ys \<Longrightarrow>
     ln_step l (l\<lparr>ln_sniffing := xs @ ys, ln_gone := ln_gone l @ [c]\<rparr>)"
| accept: "ln_Accept l r l' \<Longrightarrow> ln_step l l'"
| close: "ln_step l (ln_Close l)"

inductive_simps ln_Accept_simps: "ln_Accept l r l'"
inductive_cases ln_stepE: "ln_step l l'"

inductive ln_reachable :: "nat list \<Rightarrow> listener \<Rightarrow> bool" where
  new: "ln_reachable [] NewListener"
| step: "ln_reachable cs l \<Longrightarrow> ln_step l l' \<Longrightarrow>
     (cs' = (if length (ln_sniffing l) < length (ln_sniffing l') then cs @ [last (ln_sniffing l')] else cs))
     \<Longrightarrow> ln_reachable cs' l'"

definition ln_all :: "listener \<Rightarrow> nat multiset" where
  "ln_all l = mset (ln_sniffing l) + mset (ln_conns l) + mset (ln_accepted l) + mset (ln_gone l)"

lemma ln_step_all:
  "ln_step l l' \<Longrightarrow> ln_all l' =
    (if length (ln_sniffing l) < length (ln_sniffing l') then add_mset (last (ln_sniffing l')) (ln_all l)
     else ln_all l)"
  by (erule ln_stepE) (auto simp: ln_all_def ln_Accept_simps ln_Close_def)

lemma ln_step_bound: "ln_step l l' \<Longrightarrow> length (ln_conns l) \<le> conns_cap \<Longrightarrow> length (ln_conns l') \<le> conns_cap"
  by (erule ln_stepE) (auto simp: ln_Accept_simps ln_Close_def)

lemma ln_step_closed: "ln_step l l' \<Longrightarrow> ln_closed l \<Longrightarrow> ln_closed l'"
  by (erule ln_stepE) (auto simp: ln_Accept_simps ln_Close_def)

lemma ln_reachable_inv:
  "ln_reachable cs l \<Longrightarrow> ln_all l = mset cs \<and> length (ln_conns l) \<le> conns_cap"
proof (induction rule: ln_reachable.induct)
  case new
  then show ?case by (simp add: ln_all_def NewListener_def)
next
  case (step cs l l' cs')
  with ln_step_all [OF step.hyps(2)] ln_step_bound [OF step.hyps(2)] show ?case by simp
qed

section \<open>Properties of the listener\<close>

text \<open>
  C3: whoever is not a user gets the web server, and the web server gets everything: a
  connection that is handed over shows exactly the bytes the peer sent, complete and in
  order, and ends the same way; no sniffing deadline is in force when it is handed over; the
  user store has not changed.
\<close>

theorem decoy_sees_everything:
  assumes "no_empty_reads c" "serve_conn ops sent mw te ue c us = Returns (acts, us')"
    "HandOver rc \<in> set acts"
  shows "content (conn_view rc) = content c \<and> is_err (conn_view rc) = is_err c \<and> us' = us \<and>
    (\<exists>pre post. acts = pre @ [ClearDeadline, HandOver rc] @ post)"
  using assms(1,2)
proof (cases rule: serve_conn_cases)
  case (decoy b c')
  with assms(3) have "rc = RewindConn c' b" "sent" by (auto simp: hand_over_def split: if_splits)
  then have "acts = [SniffDeadline] @ [ClearDeadline, HandOver rc] @ [ClearDeadline]"
    using decoy(1) by (simp add: hand_over_def)
  with \<open>rc = RewindConn c' b\<close> decoy show ?thesis by (metis content_rewound)
qed (use assms(3) in auto)

definition probe :: istream where
  "probe = \<lparr>is_chunks = [[71, 69, 84, 0x0a, 33]], is_last = [], is_err = ErrDeadlineExceeded\<rparr>"

type_synonym demo_store = "(string \<times> bytes) list memory"

abbreviation demo_pops :: "(string \<times> bytes) list upstream_ops" where
  "demo_pops \<equiv> cu_ops list_storage Unmarshal"

definition alice :: demo_store where
  "alice = new_memory\<lparr>mm := [(GenKey ''alice'', no_traffic)]\<rparr>"

lemma alice_inv: "mem_inv alice"
  by (simp add: alice_def mem_inv_def)

lemma probe_facts: "no_empty_reads probe" "content probe = [71, 69, 84, 0x0a, 33]"
  "\<not> errors_Is (is_err probe) EOF"
  by (simp_all add: probe_def no_empty_reads_def content_def)

text \<open>A short connection that does not end is handed over.\<close>

lemma probe_handed_over:
  assumes "case sniff c blank 0 of SniffRewind b c' \<Rightarrow> True | _ \<Rightarrow> False"
  shows "\<exists>acts rc. serve_conn ops True mw te ue c us = Returns (acts, us) \<and> HandOver rc \<in> set acts"
  using assms by (auto simp: serve_conn_def with_user_def hand_over_def split: sniffed.splits)

theorem decoy_sees_everything_witness:
  "\<exists>acts rc. serve_conn (mem_ops demo_pops) True id demo_env demo_udp_env probe alice = Returns (acts, alice) \<and>
    HandOver rc \<in> set acts \<and> content (conn_view rc) = [71, 69, 84, 0x0a, 33]"
proof -
  have "case sniff probe blank 0 of SniffRewind b c' \<Rightarrow> True | _ \<Rightarrow> False"
    using sniff_start [OF probe_facts(1)] probe_facts
    by (auto simp: HeaderLen_def split: sniffed.splits dest: arg_cong [of _ _ length])
  from probe_handed_over [OF this, of "mem_ops demo_pops" id demo_env demo_udp_env alice]
  obtain acts rc where h: "serve_conn (mem_ops demo_pops) True id demo_env demo_udp_env probe alice =
      Returns (acts, alice)" "HandOver rc \<in> set acts" by blast
  from decoy_sees_everything [OF probe_facts(1) h] h probe_facts(2) show ?thesis by auto
qed

text \<open>
  C35: only users are served. If the tunnel was started, the connection began with the key of
  a user the store has and CRLF.
\<close>

theorem only_users_are_served:
  assumes "no_empty_reads c" "mem_inv m"
    "serve_conn (mem_ops pops) sent mw te ue c m = Returns (acts, m')" "Serve h \<in> set acts"
  shows "\<exists>k rest. content c = greeting k @ rest \<and> map_of (mm m) k \<noteq> None"
  by (rule mem.served_is_user [OF assms])

text \<open>
  A whole CONNECT session, from the first byte to the books. For a user of the store, a
  well-formed request and a remote that can be reached, the remote receives exactly the
  payload behind the request, the connection is closed, and the user is charged exactly the
  bytes that reached the remote and the client, modulo \<open>2 ^ 64\<close>.
\<close>

theorem connect_session:
  assumes "no_empty_reads c" "mem_inv m" "validStorageKey k" "map_of (mm m) k \<noteq> None"
    "content c = greeting k @ request CmdConnect (encode_addr h p) @ payload" "wf_host h"
    "Addr_String \<lparr>addr_data = encode_addr h p\<rparr> = Returns s" "tcp_connected te s" "good_writers te"
    "map_of (mm (mw m)) k = Some t"
  shows "\<exists>hd run m'. serve_conn (mem_ops pops) sent mw te ue c m =
      Returns ([SniffDeadline, ClearDeadline, Serve hd, CloseConn, ClearDeadline], m') \<and>
    hw_session hd = TcpSession run \<and> to_remote run = payload \<and>
    map_of (mm m') k = Some (add_traffic t (word_of_nat (length payload))
      (word_of_nat (length (to_client run))))"
proof -
  have "request CmdConnect (encode_addr h p) @ payload \<noteq> []" by (simp add: request_def)
  from mem.user_is_served [OF assms(1,5,3) this assms(2,4), of pops sent mw te ue]
  obtain c' where c': "content c' = request CmdConnect (encode_addr h p) @ payload"
    "serve_conn (mem_ops pops) sent mw te ue c m = and_then (HandleWithDialer c' te ue) (\<lambda>h.
      Returns ([SniffDeadline, ClearDeadline, Serve h, CloseConn, ClearDeadline],
        snd (uo_Consume (mem_ops pops) (mw m) k (word_of_int (hw_nr h)) (word_of_int (hw_nw h)))))"
    by blast
  have "CmdConnect = CmdConnect \<or> CmdConnect = CmdAssociate" by simp
  from HandleWithDialer_request [OF c'(1) this wf_encode_addr [OF assms(6)], of te ue]
  obtain r where r: "content r = payload"
    "HandleWithDialer c' te ue = run_command CmdConnect (encode_addr h p) r te ue" by metis
  have "tcp_connected (te\<lparr>up_src := r\<rparr>) s" "good_writers (te\<lparr>up_src := r\<rparr>)"
    using assms(8,9) by (simp_all add: tcp_connected_def good_writers_def)
  from HandleTCP_accounting [OF assms(7) this] obtain run
    where run: "HandleTCP (te\<lparr>up_src := r\<rparr>) \<lparr>addr_data = encode_addr h p\<rparr> = Returns run"
      "to_remote run = payload" "tcp_nr run = int (length (to_remote run))"
      "tcp_nw run = int (length (to_client run))" using r(1) by auto
  let ?h = "\<lparr>hw_nr = tcp_nr run, hw_nw = tcp_nw run,
    hw_err = map_option (Wrap ''handle tcp error'') (tcp_err run), hw_session = TcpSession run\<rparr>"
  have "HandleWithDialer c' te ue = Returns ?h"
    using r(2) run(1) by (simp add: run_command_def handle_connect_def)
  then have "serve_conn (mem_ops pops) sent mw te ue c m =
      Returns ([SniffDeadline, ClearDeadline, Serve ?h, CloseConn, ClearDeadline],
        snd (mem_Consume pops (mw m) k (word_of_nat (length payload))
          (word_of_nat (length (to_client run)))))"
    using c'(2) run(2-4) by (simp add: mem_ops_def)
  then show ?thesis
    using assms(10) run(2) by (auto simp: mem_Consume_users)
qed

definition demo_session :: istream where
  "demo_session =
     \<lparr>is_chunks = [greeting (GenKey ''alice'') @ request CmdConnect (encode_addr (HostDomain [104]) 80), [7, 8]],
      is_last = [], is_err = EOF\<rparr>"

lemma demo_session_facts:
  "no_empty_reads demo_session"
  "content demo_session =
    greeting (GenKey ''alice'') @ request CmdConnect (encode_addr (HostDomain [104]) 80) @ [7, 8]"
  "map_of (mm alice) (GenKey ''alice'') = Some no_traffic"
  by (simp_all add: demo_session_def no_empty_reads_def content_def greeting_def alice_def)

theorem connect_session_witness:
  "\<exists>hd run m'. serve_conn (mem_ops demo_pops) True id demo_env demo_udp_env demo_session alice =
      Returns ([SniffDeadline, ClearDeadline, Serve hd, CloseConn, ClearDeadline], m') \<and>
    hw_session hd = TcpSession run \<and> to_remote run = [7, 8]"
proof -
  have "map_of (mm alice) (GenKey ''alice'') \<noteq> None" "wf_host (HostDomain [104])"
    "map_of (mm (id alice)) (GenKey ''alice'') = Some no_traffic"
    by (simp_all add: demo_session_facts)
  from connect_session [where mw = id, OF demo_session_facts(1) alice_inv valid_GenKey this(1) demo_session_facts(2)
      this(2) demo_addr demo_connected demo_good this(3)]
  show ?thesis by blast
qed

theorem only_users_are_served_witness:
  "\<exists>k rest. content demo_session = greeting k @ rest \<and> map_of (mm alice) k \<noteq> None"
proof -
  have "map_of (mm alice) (GenKey ''alice'') \<noteq> None"
    "request CmdConnect (encode_addr (HostDomain [104]) 80) @ [7, 8] \<noteq> []"
    by (simp_all add: demo_session_facts request_def)
  from mem.user_is_served [OF demo_session_facts(1,2) valid_GenKey this(2) alice_inv this(1),
      of demo_pops True id demo_env demo_udp_env]
  obtain c' where c': "content c' = request CmdConnect (encode_addr (HostDomain [104]) 80) @ [7, 8]"
    "serve_conn (mem_ops demo_pops) True id demo_env demo_udp_env demo_session alice =
      and_then (HandleWithDialer c' demo_env demo_udp_env) (\<lambda>h.
      Returns ([SniffDeadline, ClearDeadline, Serve h, CloseConn, ClearDeadline],
        snd (uo_Consume (mem_ops demo_pops) (id alice) (GenKey ''alice'')
          (word_of_int (hw_nr h)) (word_of_int (hw_nw h)))))" by blast
  obtain r where "HandleWithDialer c' demo_env demo_udp_env =
      run_command CmdConnect (encode_addr (HostDomain [104]) 80) r demo_env demo_udp_env"
    using HandleWithDialer_request [OF c'(1), of demo_env demo_udp_env] by auto
  moreover have "tcp_connected (demo_env\<lparr>up_src := r\<rparr>) s" "good_writers (demo_env\<lparr>up_src := r\<rparr>)" for s
    by (simp_all add: demo_env_def tcp_connected_def good_writers_def)
  with HandleTCP_accounting [OF demo_addr] obtain run where
    "HandleTCP (demo_env\<lparr>up_src := r\<rparr>) \<lparr>addr_data = encode_addr (HostDomain [104]) 80\<rparr> = Returns run"
    by blast
  ultimately obtain h m' where "serve_conn (mem_ops demo_pops) True id demo_env demo_udp_env demo_session alice =
      Returns ([SniffDeadline, ClearDeadline, Serve h, CloseConn, ClearDeadline], m')"
    using c'(2) by (auto simp: run_command_def handle_connect_def)
  from only_users_are_served [OF demo_session_facts(1) alice_inv this] show ?thesis by simp
qed

text \<open>
  The rewind is not data-preserving for a connection whose first \<open>Read\<close> returns no bytes
  and no error, as the rewinding connection of this repository itself does at the end of its
  replay: the web server then sees a zero byte the peer never sent, in front of the data.
\<close>

theorem empty_read_adds_a_byte:
  assumes "no_empty_reads c"
    "serve_conn ops sent mw te ue (c\<lparr>is_chunks := [] # is_chunks c\<rparr>) us = Returns (acts, us')"
    "HandOver rc \<in> set acts"
  shows "content (conn_view rc) = 0 # content c"
proof -
  let ?c = "c\<lparr>is_chunks := [] # is_chunks c\<rparr>"
  have "is_read ?c 1 = (([], None), c)" by (simp add: is_read_def)
  moreover have "copy_at blank 0 [] = blank" by (simp add: copy_at_def)
  ultimately have run: "sniff ?c blank 0 = sniff c blank 1"
    by (simp add: sniff.simps [of ?c blank 0] Let_def)
  have "0x0a \<notin> set (take (min 1 (HeaderLen + 1)) blank)" "take 1 blank = [0]"
    by (simp_all add: blank_def)
  with sniff_spec [OF assms(1) length_blank, of 1] assms(2,3) show ?thesis
    unfolding serve_conn_def with_user_def run
    by (auto simp: hand_over_def outcome_simps content_rewound Let_def
        split: sniffed.splits if_splits)
qed

theorem empty_read_adds_a_byte_witness:
  "\<exists>acts rc. serve_conn (mem_ops demo_pops) True id demo_env demo_udp_env
      (probe\<lparr>is_chunks := [] # is_chunks probe\<rparr>) alice = Returns (acts, alice) \<and>
    HandOver rc \<in> set acts \<and> content (conn_view rc) = 0 # content probe"
proof -
  let ?c = "probe\<lparr>is_chunks := [] # is_chunks probe\<rparr>"
  have "is_read ?c 1 = (([], None), probe)" by (simp add: is_read_def)
  then have run: "sniff ?c blank 0 = sniff probe blank 1"
    by (simp add: sniff.simps [of ?c blank 0] Let_def copy_at_def)
  have "0x0a \<notin> set (take (min 1 (HeaderLen + 1)) blank)"
    by (simp add: blank_def)
  with sniff_spec [OF probe_facts(1) length_blank, of 1] probe_facts
  have "case sniff ?c blank 0 of SniffRewind b c' \<Rightarrow> True | _ \<Rightarrow> False"
    unfolding run by (auto simp: HeaderLen_def blank_def split: sniffed.splits dest: arg_cong [of _ _ length])
  from probe_handed_over [OF this, of "mem_ops demo_pops" id demo_env demo_udp_env alice]
  obtain acts rc where h: "serve_conn (mem_ops demo_pops) True id demo_env demo_udp_env ?c alice =
      Returns (acts, alice)" "HandOver rc \<in> set acts" by blast
  from empty_read_adds_a_byte [OF probe_facts(1) h] h show ?thesis by blast
qed


lemma reach_arrive:
  "ln_reachable cs l \<Longrightarrow> ln_reachable (cs @ [c]) (l\<lparr>ln_sniffing := ln_sniffing l @ [c]\<rparr>)"
  by (rule ln_reachable.step [OF _ ln_step.arrive]) auto

text \<open>
  After \<open>Close\<close> the loop still takes connections from the inner listener, and they may still
  end us in the queue, where nobody may ever fetch them.
\<close>

lemma closed_listener_still_enqueues:
  "\<exists>l. ln_reachable [7] l \<and> ln_closed l \<and> ln_conns l = [7] \<and> ln_sniffing l = []"
proof -
  let ?l0 = "ln_Close NewListener"
  let ?l1 = "?l0\<lparr>ln_sniffing := ln_sniffing ?l0 @ [7]\<rparr>"
  let ?l2 = "?l1\<lparr>ln_sniffing := [] @ [], ln_conns := ln_conns ?l1 @ [7]\<rparr>"
  have 0: "ln_reachable [] ?l0"
    by (rule ln_reachable.step [OF ln_reachable.new ln_step.close]) (simp add: ln_Close_def NewListener_def)
  from reach_arrive [OF 0, of 7] have 1: "ln_reachable [7] ?l1" by simp
  have "ln_step ?l1 ?l2"
    by (rule ln_step.enqueue) (simp_all add: ln_Close_def NewListener_def)
  then have "ln_reachable [7] ?l2"
    by (rule ln_reachable.step [OF 1]) (simp add: ln_Close_def NewListener_def)
  then show ?thesis by (rule exI [of _ ?l2, OF conjI]) (simp add: ln_Close_def NewListener_def)
qed


end
