(* ===== verification/Websocket.thy ===== *)
theory Websocket
  imports Go_IO
begin

text \<open>
  The stream over a websocket of \<open>pkgs/websocket/websocket.go\<close>. The library underneath is
  a parameter, given by what it delivers: the messages, each by the chunks its reader
  returns, and the error that ends the connection. As its documentation says, \<open>NextReader\<close>
  drops what is left of the previous message, returns a nil reader together with an error,
  and returns the same error ever after. A \<open>*websocket.CloseError\<close> is told apart because
  the code maps it to \<open>io.EOF\<close>.
\<close>

section \<open>The connection\<close>

datatype ws_error = CloseError | OtherError go_error

text \<open>
  The field \<open>Reader\<close>: the reader that is always at its end, the reader of a message by the
  chunks it has left, or the nil interface, whose method call panics.
\<close>

datatype ws_reader = EofReader | MessageReader "bytes list" | NilReader

record ws_conn =
  ws_reader :: ws_reader
  ws_msgs :: "bytes list list"
  ws_end :: ws_error

definition ws_NewConn :: "bytes list list \<Rightarrow> ws_error \<Rightarrow> ws_conn" where
  "ws_NewConn ms e = \<lparr>ws_reader = EofReader, ws_msgs = ms, ws_end = e\<rparr>"

text \<open>A \<open>Read\<close> of the current reader; its error is ignored by the code, and so it is here.\<close>

fun reader_Read :: "ws_reader \<Rightarrow> nat \<Rightarrow> (bytes \<times> ws_reader) outcome" where
  "reader_Read NilReader n = Panics NilDeref"
| "reader_Read EofReader n = Returns ([], EofReader)"
| "reader_Read (MessageReader []) n = Returns ([], MessageReader [])"
| "reader_Read (MessageReader (c # cs)) n =
     (if length c \<le> n then Returns (c, MessageReader cs)
      else Returns (take n c, MessageReader (drop n c # cs)))"

definition NextReader :: "ws_conn \<Rightarrow> ws_error option \<times> ws_conn" where
  "NextReader c =
     (case ws_msgs c of
        [] \<Rightarrow> (Some (ws_end c), c\<lparr>ws_reader := NilReader\<rparr>)
      | m # ms \<Rightarrow> (None, c\<lparr>ws_reader := MessageReader m, ws_msgs := ms\<rparr>))"

fun ws_io_error :: "ws_error \<Rightarrow> go_error" where
  "ws_io_error CloseError = EOF"
| "ws_io_error (OtherError e) = e"

definition ws_Read :: "ws_conn read_method" where
  "ws_Read c n =
     and_then (reader_Read (ws_reader c) n) (\<lambda>(bs, rd).
       let c = c\<lparr>ws_reader := rd\<rparr> in
       if bs \<noteq> [] then Returns ((bs, None), c)
       else case NextReader c of
              (Some e, c) \<Rightarrow> Returns (([], Some (ws_io_error e)), c)
            | (None, c) \<Rightarrow>
                and_then (reader_Read (ws_reader c) n) (\<lambda>(bs, rd).
                  Returns ((bs, None), c\<lparr>ws_reader := rd\<rparr>)))"

text \<open>\<open>Write\<close>, from the result of \<open>WriteMessage\<close>.\<close>

definition ws_Write :: "ws_error option \<Rightarrow> bytes \<Rightarrow> nat \<times> go_error option" where
  "ws_Write res b =
     (case res of
        Some e \<Rightarrow> (0, Some (ws_io_error e))
      | None \<Rightarrow> (length b, None))"

text \<open>
  \<open>Close\<close>: a close frame with status 1000 and no text, for which there are five seconds and whose
  error is ignored, and then the connection, whose error is the result.
\<close>

datatype ws_act = WriteControl nat string int | CloseWsConn

definition CloseNormalClosure :: nat where "CloseNormalClosure = 1000"

definition ws_Close :: "go_error option \<Rightarrow> go_error option \<Rightarrow> ws_act list \<times> go_error option" where
  "ws_Close control_err close_err =
     ([WriteControl CloseNormalClosure [] (5 * second), CloseWsConn], close_err)"

section \<open>The messages are one stream\<close>

definition reader_chunks :: "ws_reader \<Rightarrow> bytes list" where
  "reader_chunks rd = (case rd of MessageReader cs \<Rightarrow> cs | _ \<Rightarrow> [])"

text \<open>
  The script the wrapper shows: the chunks of the messages, where an empty message is one
  read of no bytes. The contract on the library is that a reader with something left
  delivers at least a byte.
\<close>

definition msg_chunks :: "bytes list \<Rightarrow> bytes list" where
  "msg_chunks m = (if m = [] then [[]] else m)"

definition ws_view :: "ws_conn \<Rightarrow> istream" where
  "ws_view c =
     \<lparr>is_chunks = reader_chunks (ws_reader c) @ concat (map msg_chunks (ws_msgs c)), is_last = [],
      is_err = ws_io_error (ws_end c)\<rparr>"

definition ws_inv :: "ws_conn \<Rightarrow> bool" where
  "ws_inv c \<longleftrightarrow> ws_reader c \<noteq> NilReader \<and>
     (\<forall>m \<in> set (reader_chunks (ws_reader c) # ws_msgs c). [] \<notin> set m)"

lemma reader_Read_empty:
  "reader_chunks rd = [] \<Longrightarrow> rd \<noteq> NilReader \<Longrightarrow> reader_Read rd n = Returns ([], rd)"
  by (cases "(rd, n)" rule: reader_Read.cases) (simp_all add: reader_chunks_def)

lemma ws_Read_view:
  assumes "ws_inv c" "0 < n" "is_read (ws_view c) n = ((bs, e), v)"
  shows "\<exists>c'. ws_Read c n = Returns ((bs, e), c') \<and> ws_view c' = v \<and>
    (e = None \<or> bs \<noteq> [] \<longrightarrow> ws_inv c')"
proof (cases "reader_chunks (ws_reader c)")
  case (Cons x xs)
  then have rd: "ws_reader c = MessageReader (x # xs)"
    by (auto simp: reader_chunks_def split: ws_reader.splits)
  with assms(1) have "x \<noteq> []" by (auto simp: ws_inv_def reader_chunks_def)
  with assms rd show ?thesis
    by (auto simp: ws_Read_def ws_view_def is_read_def ws_inv_def reader_chunks_def split: if_splits)
next
  case Nil
  have rd: "reader_Read (ws_reader c) n = Returns ([], ws_reader c)"
    using assms(1) by (intro reader_Read_empty [OF Nil]) (simp add: ws_inv_def)
  show ?thesis
  proof (cases "ws_msgs c")
    case Nil
    with \<open>reader_chunks (ws_reader c) = []\<close> rd assms show ?thesis
      by (auto simp: ws_Read_def NextReader_def ws_view_def is_read_def reader_chunks_def)
  next
    case (Cons m ms)
    have "[] \<notin> set m" "\<forall>m \<in> set ms. [] \<notin> set m" using assms(1) Cons by (auto simp: ws_inv_def)
    with Cons \<open>reader_chunks (ws_reader c) = []\<close> rd assms(2,3) show ?thesis
      by (cases m)
        (auto simp: ws_Read_def NextReader_def ws_view_def is_read_def reader_chunks_def
          msg_chunks_def ws_inv_def split: if_splits)
  qed
qed

interpretation ws: io_reader ws_Read ws_view ws_inv
  by unfold_locales (rule ws_Read_view)

lemma concat_msg_chunks: "concat (concat (map msg_chunks ms)) = concat (concat ms)"
  by (induction ms) (auto simp: msg_chunks_def)

lemma content_ws_NewConn: "content (ws_view (ws_NewConn ms e)) = concat (concat ms)"
  by (simp add: ws_view_def ws_NewConn_def content_def reader_chunks_def concat_msg_chunks)

text \<open>
  C28: a websocket carries the protocol as a byte stream: \<open>io.ReadFull\<close> through the wrapper
  returns the concatenation of the messages, however the client cut its data into messages
  and however the library delivers them, and a close frame is the end of the stream.
\<close>

theorem websocket_is_a_stream:
  assumes "\<forall>m \<in> set ms. [] \<notin> set m"
  shows "\<exists>c'. ReadFull_via ws_Read (ws_NewConn ms e) k =
    Some (Returns (take k (concat (concat ms)),
      if k \<le> length (concat (concat ms)) then None
      else if concat (concat ms) \<noteq> [] \<and> ws_io_error e = EOF then Some ErrUnexpectedEOF
      else Some (ws_io_error e), c')) \<and>
    content (ws_view c') = drop k (concat (concat ms))"
proof -
  let ?c = "ws_NewConn ms e"
  have inv: "ws_inv ?c" using assms by (simp add: ws_inv_def ws_NewConn_def reader_chunks_def)
  obtain v where v: "ReadFull (ws_view ?c) k = (take k (concat (concat ms)),
      if k \<le> length (concat (concat ms)) then None else Some (read_full_error (ws_view ?c)), v)"
    "content v = drop k (concat (concat ms))"
    using ReadFull_spec [of "ws_view ?c" k] by (auto simp: content_ws_NewConn)
  have "is_err (ws_view ?c) = ws_io_error e" by (simp add: ws_view_def ws_NewConn_def)
  then have err: "Some (read_full_error (ws_view ?c)) =
      (if concat (concat ms) \<noteq> [] \<and> ws_io_error e = EOF then Some ErrUnexpectedEOF
       else Some (ws_io_error e))"
    by (simp only: read_full_error_def content_ws_NewConn if_distrib [of Some])
  from ws.ReadFull_via_view [OF inv v(1)] v(2) show ?thesis
    unfolding err by metis
qed

theorem websocket_is_a_stream_witness:
  "\<exists>c'. ReadFull_via ws_Read (ws_NewConn [[[1]], [], [[2], [3, 4]]] CloseError) 3 =
      Some (Returns ([1, 2, 3], None, c')) \<and> content (ws_view c') = [4]"
  using websocket_is_a_stream [of "[[[1]], [], [[2], [3, 4]]]" CloseError 3] by simp

text \<open>
  A connection that has reported its end must not be read again: the error leaves a nil
  reader behind, and the next \<open>Read\<close> panics instead of reporting the error once more.
\<close>

theorem websocket_read_after_error_panics:
  assumes "ws_Read c n = Returns ((bs, Some e), c')"
  shows "ws_Read c' m = Panics NilDeref"
  using assms
  by (auto simp: ws_Read_def NextReader_def outcome_simps Let_def split: if_splits list.splits)

theorem websocket_read_after_error_panics_witness:
  "\<exists>c'. ws_Read (ws_NewConn [] CloseError) 1 = Returns (([], Some EOF), c') \<and>
    ws_Read c' 1 = Panics NilDeref"
proof -
  obtain c' where h: "ws_Read (ws_NewConn [] CloseError) 1 = Returns (([], Some EOF), c')"
    by (simp add: ws_Read_def ws_NewConn_def NextReader_def)
  from h websocket_read_after_error_panics [OF h] show ?thesis by blast
qed

end
