(* ===== verification/Rate_Limiter.thy ===== *)
theory Rate_Limiter
  imports Trojan_Prelude
begin

text \<open>
  The limiter of failed authentications in \<open>modules/handler/handler.go\<close>: its configuration
  with the defaults, the record kept for each source, the operations the request handler
  calls, and the clean-up of old records. Times are nanoseconds; the zero time, which the
  code tests for, is \<open>None\<close>. A map that is nil reads like an empty one and is created by the
  first write, so that the two are not told apart.
\<close>

section \<open>Configuration\<close>

abbreviation seconds :: "int \<Rightarrow> int" where "seconds n \<equiv> n * 1000000000"

definition connectFailLimit :: int where "connectFailLimit = 5"
definition connectFailWindow :: int where "connectFailWindow = seconds 10"
definition connectFailCooldown :: int where "connectFailCooldown = seconds 60"

record fail_config =
  failThreshold :: int
  failWindow :: int
  failCooldown :: int

definition failCfg :: "fail_config \<Rightarrow> int \<times> int \<times> int" where
  "failCfg m =
     (let threshold = failThreshold m;
          threshold = (if threshold \<le> 0 then connectFailLimit else threshold);
          window = failWindow m;
          window = (if window = 0 then connectFailWindow else window);
          cooldown = failCooldown m;
          cooldown = (if cooldown = 0 then connectFailCooldown else cooldown)
      in (threshold, window, cooldown))"

section \<open>Records\<close>

record failRecord =
  fr_count :: int
  firstFailure :: "int option"
  blockedUntil :: "int option"

type_synonym fail_state = "string \<rightharpoonup> failRecord"

definition new_record :: failRecord where
  "new_record = \<lparr>fr_count = 0, firstFailure = None, blockedUntil = None\<rparr>"

definition count_failure :: "fail_config \<Rightarrow> int \<Rightarrow> failRecord \<Rightarrow> failRecord" where
  "count_failure cfg now rec =
     (let (threshold, window, cooldown) = failCfg cfg;
          rec = (if (case firstFailure rec of None \<Rightarrow> True | Some t \<Rightarrow> window < now - t)
                 then \<lparr>fr_count = 0, firstFailure = Some now, blockedUntil = None\<rparr> else rec);
          rec = rec\<lparr>fr_count := fr_count rec + 1\<rparr>
      in if threshold \<le> fr_count rec \<and> blockedUntil rec = None
         then rec\<lparr>blockedUntil := Some (now + cooldown)\<rparr> else rec)"

definition recordFailure :: "fail_config \<Rightarrow> int \<Rightarrow> string \<Rightarrow> fail_state \<Rightarrow> fail_state" where
  "recordFailure cfg now addr st =
     (if addr = [] then st
      else let (threshold, window, cooldown) = failCfg cfg in
        if threshold \<le> 0 then st
        else st(addr \<mapsto> count_failure cfg now (case st addr of Some rec \<Rightarrow> rec | None \<Rightarrow> new_record)))"

definition isRateLimited :: "int \<Rightarrow> string \<Rightarrow> fail_state \<Rightarrow> bool \<times> fail_state" where
  "isRateLimited now addr st =
     (if addr = [] then (False, st)
      else case st addr of
             None \<Rightarrow> (False, st)
           | Some rec \<Rightarrow>
               (case blockedUntil rec of
                  None \<Rightarrow> (False, st)
                | Some t \<Rightarrow> if now < t then (True, st) else (False, st(addr := None))))"

definition cleanupTick :: "fail_config \<Rightarrow> int \<Rightarrow> fail_state \<Rightarrow> fail_state" where
  "cleanupTick cfg now st =
     (let (threshold, window, cooldown) = failCfg cfg in
      (\<lambda>addr. case st addr of
         None \<Rightarrow> None
       | Some rec \<Rightarrow>
           (case firstFailure rec of
              None \<Rightarrow> Some rec
            | Some t \<Rightarrow> if cooldown < now - t then None else Some rec)))"

text \<open>The period of the ticker in \<open>cleanupLoop\<close>; division truncates.\<close>

definition cleanup_interval :: "fail_config \<Rightarrow> int" where
  "cleanup_interval cfg =
     (let (threshold, window, cooldown) = failCfg cfg;
          interval = sgn cooldown * (\<bar>cooldown\<bar> div 2);
          interval = (if interval \<le> 0 then seconds 1 else interval);
          interval = (if seconds 60 < interval then seconds 60 else interval)
      in interval)"

text \<open>The clean-up goroutine of one handler, and \<open>Cleanup\<close>.\<close>

record limiter =
  lm_state :: fail_state
  lm_started :: bool
  lm_done :: bool

definition new_limiter :: limiter where
  "new_limiter = \<lparr>lm_state = Map.empty, lm_started = False, lm_done = False\<rparr>"

text \<open>\<open>spawnCleanupLoop\<close> runs its body once: it makes the channel and starts the goroutine.\<close>

definition spawnCleanupLoop :: "limiter \<Rightarrow> limiter" where
  "spawnCleanupLoop l = (if lm_started l then l else l\<lparr>lm_started := True, lm_done := False\<rparr>)"

lemma spawnCleanupLoop_simps [simp]:
  "lm_started (spawnCleanupLoop l)" "lm_state (spawnCleanupLoop l) = lm_state l"
  "lm_started l \<Longrightarrow> spawnCleanupLoop l = l"
  by (simp_all add: spawnCleanupLoop_def)

definition lm_record :: "fail_config \<Rightarrow> int \<Rightarrow> string \<Rightarrow> limiter \<Rightarrow> limiter" where
  "lm_record cfg now addr l =
     (if addr = [] \<or> fst (failCfg cfg) \<le> 0 then l
      else (spawnCleanupLoop l)\<lparr>lm_state := recordFailure cfg now addr (lm_state l)\<rparr>)"

definition lm_check :: "int \<Rightarrow> string \<Rightarrow> limiter \<Rightarrow> bool \<times> limiter" where
  "lm_check now addr l =
     (case isRateLimited now addr (lm_state l) of (b, st) \<Rightarrow> (b, l\<lparr>lm_state := st\<rparr>))"

definition lm_tick :: "fail_config \<Rightarrow> int \<Rightarrow> limiter \<Rightarrow> limiter" where
  "lm_tick cfg now l =
     (if lm_started l \<and> \<not> lm_done l then l\<lparr>lm_state := cleanupTick cfg now (lm_state l)\<rparr> else l)"

definition lm_Cleanup :: "limiter \<Rightarrow> limiter" where
  "lm_Cleanup l = l\<lparr>lm_done := lm_done l \<or> lm_started l, lm_state := Map.empty\<rparr>"

section \<open>Histories\<close>

text \<open>What can happen to a limiter, each event with its time.\<close>

datatype lm_event = Fail string | Check string | Tick | Unload

primrec lm_event_step :: "fail_config \<Rightarrow> int \<Rightarrow> lm_event \<Rightarrow> limiter \<Rightarrow> limiter" where
  "lm_event_step cfg now (Fail a) l = lm_record cfg now a l"
| "lm_event_step cfg now (Check a) l = snd (lm_check now a l)"
| "lm_event_step cfg now Tick l = lm_tick cfg now l"
| "lm_event_step cfg now Unload l = lm_Cleanup l"

definition lm_history :: "fail_config \<Rightarrow> (int \<times> lm_event) list \<Rightarrow> limiter \<Rightarrow> limiter" where
  "lm_history cfg = fold (\<lambda>(now, ev). lm_event_step cfg now ev)"

definition failures :: "string \<Rightarrow> (int \<times> lm_event) list \<Rightarrow> int list" where
  "failures a h = map fst (filter (\<lambda>x. snd x = Fail a) h)"

lemma failCfg_pos: "failCfg cfg = (n, w, c) \<Longrightarrow> 0 < n"
  by (auto simp: failCfg_def connectFailLimit_def Let_def split: if_splits)

text \<open>
  A record counts at most the failures of its own source, and blocks it only when they have
  reached the threshold.
\<close>

definition record_ok :: "int \<Rightarrow> nat \<Rightarrow> failRecord option \<Rightarrow> bool" where
  "record_ok threshold n r =
     (case r of
        None \<Rightarrow> True
      | Some r \<Rightarrow> fr_count r \<le> int n \<and> (blockedUntil r \<noteq> None \<longrightarrow> threshold \<le> int n))"

lemma record_ok_mono: "record_ok th n r \<Longrightarrow> n \<le> m \<Longrightarrow> record_ok th m r"
  by (auto simp: record_ok_def split: option.splits)

lemma count_failure_ok:
  assumes "failCfg cfg = (th, w, c)" "record_ok th n (Some r)"
  shows "record_ok th (Suc n) (Some (count_failure cfg now r))"
  using assms failCfg_pos [OF assms(1)]
  by (auto simp: count_failure_def record_ok_def Let_def split: option.splits if_splits)

lemma lm_event_ok:
  assumes "failCfg cfg = (th, w, c)" "record_ok th n (lm_state l a)"
  shows "record_ok th (n + (if ev = Fail a then 1 else 0)) (lm_state (lm_event_step cfg now ev l) a)"
proof (cases ev)
  case (Fail b)
  have new: "record_ok th n (Some new_record)" by (simp add: record_ok_def new_record_def)
  show ?thesis
  proof (cases "b = a")
    case True
    then show ?thesis
      using Fail assms count_failure_ok [OF assms(1), of n _ now] new
      by (auto simp: lm_record_def recordFailure_def assms(1) intro: record_ok_mono split: option.splits)
  next
    case False
    then show ?thesis
      using Fail assms by (auto simp: lm_record_def recordFailure_def)
  qed
next
  case (Check b)
  then show ?thesis
    using assms by (auto simp: lm_check_def isRateLimited_def record_ok_def split: option.splits)
next
  case Tick
  then show ?thesis
    using assms by (auto simp: lm_tick_def cleanupTick_def record_ok_def split: option.splits)
next
  case Unload
  then show ?thesis by (simp add: lm_Cleanup_def record_ok_def)
qed

lemma lm_history_ok:
  assumes "failCfg cfg = (th, w, c)" "record_ok th n (lm_state l a)"
  shows "record_ok th (n + length (failures a h)) (lm_state (lm_history cfg h l) a)"
  using assms(2)
proof (induction h arbitrary: n l)
  case Nil
  then show ?case by (simp add: lm_history_def failures_def)
next
  case (Cons x h)
  obtain now ev where x: "x = (now, ev)" by (metis prod.exhaust)
  from Cons.IH [OF lm_event_ok [OF assms(1) Cons.prems, of ev now]]
  show ?case by (simp add: lm_history_def failures_def x split: if_splits)
qed

text \<open>A run of failures of one source, within the window.\<close>

lemma count_failures:
  assumes "failCfg cfg = (th, w, c)" "\<forall>t \<in> set ts. t - t0 \<le> w" "int n + int (length ts) \<le> th"
    "int n < th \<or> ts = []" "0 < n"
  shows "fold (count_failure cfg) ts \<lparr>fr_count = int n, firstFailure = Some t0, blockedUntil = None\<rparr> =
    \<lparr>fr_count = int n + int (length ts), firstFailure = Some t0,
     blockedUntil = (if ts \<noteq> [] \<and> int n + int (length ts) = th then Some (last ts + c) else None)\<rparr>"
  using assms(2-5)
proof (induction ts arbitrary: n)
  case (Cons t ts)
  have one: "count_failure cfg t \<lparr>fr_count = int n, firstFailure = Some t0, blockedUntil = None\<rparr> =
      \<lparr>fr_count = int n + 1, firstFailure = Some t0,
       blockedUntil = (if int n + 1 = th then Some (t + c) else None)\<rparr>"
    using Cons.prems assms(1) by (auto simp: count_failure_def)
  show ?case
  proof (cases "ts = []")
    case True
    then show ?thesis using one by simp
  next
    case False
    then have "int n + 1 \<noteq> th" using Cons.prems(2) by (cases ts) auto
    with Cons.IH [of "Suc n"] Cons.prems False one show ?thesis by (auto simp: add.commute)
  qed
qed simp

lemma recordFailure_run:
  assumes "addr \<noteq> []" "st addr = Some r"
  shows "fold (\<lambda>t. recordFailure cfg t addr) ts st addr = Some (fold (count_failure cfg) ts r)"
  using assms(2)
proof (induction ts arbitrary: st r)
  case (Cons t ts)
  obtain th w c where cfg: "failCfg cfg = (th, w, c)" by (metis prod.exhaust)
  have "recordFailure cfg t addr st addr = Some (count_failure cfg t r)"
    using assms(1) Cons.prems failCfg_pos [OF cfg] by (simp add: recordFailure_def cfg)
  from Cons.IH [where st = "recordFailure cfg t addr st", OF this] show ?case by simp
qed simp

lemma threshold_run:
  assumes "failCfg cfg = (th, w, c)" "addr \<noteq> []" "st addr = None" "int (length ts) = th"
    "\<forall>t \<in> set ts. t - hd ts \<le> w"
  shows "fold (\<lambda>t. recordFailure cfg t addr) ts st addr =
    Some \<lparr>fr_count = th, firstFailure = Some (hd ts), blockedUntil = Some (last ts + c)\<rparr>"
proof -
  note pos = failCfg_pos [OF assms(1)]
  then obtain t us where ts: "ts = t # us" using assms(4) by (cases ts) auto
  let ?r = "\<lparr>fr_count = 1, firstFailure = Some t,
    blockedUntil = (if th = 1 then Some (t + c) else None)\<rparr>"
  have "recordFailure cfg t addr st addr = Some (count_failure cfg t new_record)"
    using assms(2,3) pos by (simp add: recordFailure_def assms(1))
  moreover have "count_failure cfg t new_record = ?r"
    using pos by (auto simp: count_failure_def assms(1) new_record_def)
  ultimately have first: "recordFailure cfg t addr st addr = Some ?r" by simp
  have "fold (\<lambda>t. recordFailure cfg t addr) ts st addr = Some (fold (count_failure cfg) us ?r)"
    using recordFailure_run [where st = "recordFailure cfg t addr st", OF assms(2) first] by (simp add: ts)
  moreover have "fold (count_failure cfg) us ?r =
      \<lparr>fr_count = th, firstFailure = Some t, blockedUntil = Some (last ts + c)\<rparr>"
  proof (cases "us = []")
    case True
    then show ?thesis using assms(4) by (simp add: ts)
  next
    case False
    then have "0 < length us" by simp
    then have "th \<noteq> 1" "int 1 < th \<or> us = []" "int 1 + int (length us) \<le> th" "\<forall>t' \<in> set us. t' - t \<le> w"
      using assms(4,5) by (auto simp: ts)
    from count_failures [OF assms(1) this(4,3,2)] this(1) False assms(4) show ?thesis
      by (simp add: ts)
  qed
  ultimately show ?thesis by (simp add: ts)
qed

section \<open>What the limiter remembers\<close>

text \<open>
  Every record goes back to a failure of its source, whose time it holds; records exist only
  when the loop has been started.
\<close>

definition remembers :: "(int \<times> lm_event) list \<Rightarrow> limiter \<Rightarrow> bool" where
  "remembers h l \<longleftrightarrow>
     (\<forall>a r. lm_state l a = Some r \<longrightarrow>
        lm_started l \<and> (\<exists>t. firstFailure r = Some t \<and> (t, Fail a) \<in> set h))"

lemma count_failure_time:
  "\<exists>t. firstFailure (count_failure cfg now r) = Some t \<and> (t = now \<or> firstFailure r = Some t)"
  by (auto simp: count_failure_def Let_def split: prod.splits option.splits)

lemma remembers_step:
  assumes "remembers h l"
  shows "remembers (h @ [(now, ev)]) (lm_event_step cfg now ev l)"
proof (cases ev)
  case (Fail b)
  then show ?thesis
    using assms count_failure_time [of cfg now]
    by (fastforce simp: remembers_def lm_record_def recordFailure_def new_record_def Let_def
        split: prod.splits option.splits if_splits)
next
  case (Check b)
  then show ?thesis
    using assms by (auto simp: remembers_def lm_check_def isRateLimited_def split: option.splits if_splits)
next
  case Tick
  then show ?thesis
    using assms
    by (auto simp: remembers_def lm_tick_def cleanupTick_def split: prod.splits option.splits if_splits)
next
  case Unload
  then show ?thesis by (simp add: remembers_def lm_Cleanup_def)
qed

lemma lm_history_snoc: "lm_history cfg (h @ [(now, ev)]) l = lm_event_step cfg now ev (lm_history cfg h l)"
  by (simp add: lm_history_def)

lemma remembers_history: "remembers h (lm_history cfg h new_limiter)"
proof (induction h rule: rev_induct)
  case Nil
  then show ?case by (simp add: remembers_def lm_history_def new_limiter_def)
next
  case (snoc x h)
  obtain now ev where "x = (now, ev)" by (metis prod.exhaust)
  with remembers_step [OF snoc.IH] show ?case by (simp add: lm_history_snoc)
qed

definition recent_failures :: "int \<Rightarrow> int \<Rightarrow> (int \<times> lm_event) list \<Rightarrow> string list" where
  "recent_failures cooldown now h =
     List.map_filter (\<lambda>(t, ev). case ev of Fail a \<Rightarrow> if now - t \<le> cooldown then Some a else None | _ \<Rightarrow> None) h"

lemma recent_failures_member:
  "(t, Fail a) \<in> set h \<Longrightarrow> now - t \<le> c \<Longrightarrow> a \<in> set (recent_failures c now h)"
  by (force simp: recent_failures_def List.map_filter_def)

lemma ticked_records_are_recent:
  assumes "\<not> lm_done (lm_history cfg h new_limiter)" "failCfg cfg = (th, w, c)"
    "lm_state (lm_history cfg (h @ [(now, Tick)]) new_limiter) a = Some r"
  shows "a \<in> set (recent_failures c now h)"
proof -
  let ?l = "lm_history cfg h new_limiter"
  have rem: "\<forall>a r. lm_state ?l a = Some r \<longrightarrow>
      lm_started ?l \<and> (\<exists>t. firstFailure r = Some t \<and> (t, Fail a) \<in> set h)"
    using remembers_history [of h cfg] unfolding remembers_def .
  have tick: "lm_state (lm_tick cfg now ?l) a = Some r"
    using assms(3) by (simp add: lm_history_snoc)
  show ?thesis
  proof (cases "lm_started ?l")
    case True
    with tick assms(1) have "cleanupTick cfg now (lm_state ?l) a = Some r" by (simp add: lm_tick_def)
    then obtain t where "firstFailure r = Some t" "(t, Fail a) \<in> set h" "now - t \<le> c"
      using rem by (fastforce simp: cleanupTick_def assms(2) split: option.splits if_splits)
    then show ?thesis by (intro recent_failures_member)
  next
    case False
    then show ?thesis using tick rem by (simp add: lm_tick_def)
  qed
qed

definition production :: fail_config where
  "production = \<lparr>failThreshold = 0, failWindow = 0, failCooldown = 0\<rparr>"

lemma production_cfg: "failCfg production = (5, seconds 10, seconds 60)"
  by (simp add: failCfg_def production_def connectFailLimit_def connectFailWindow_def
      connectFailCooldown_def)

section \<open>Properties of the limiter\<close>

text \<open>
  C19: sources cannot exhaust the memory. While the handler is loaded, whatever has happened, a
  round of the clean-up leaves records only of sources that failed within the cooldown, at most
  one for each such failure: a flood leaves nothing behind once it is older than that.
\<close>

theorem limiter_memory_is_bounded:
  assumes "\<not> lm_done (lm_history cfg h new_limiter)" "failCfg cfg = (th, w, c)"
  shows "dom (lm_state (lm_history cfg (h @ [(now, Tick)]) new_limiter)) \<subseteq> set (recent_failures c now h) \<and>
    card (dom (lm_state (lm_history cfg (h @ [(now, Tick)]) new_limiter))) \<le> length (recent_failures c now h)"
proof
  show sub: "dom (lm_state (lm_history cfg (h @ [(now, Tick)]) new_limiter)) \<subseteq> set (recent_failures c now h)"
    using ticked_records_are_recent [OF assms] by blast
  show "card (dom (lm_state (lm_history cfg (h @ [(now, Tick)]) new_limiter))) \<le> length (recent_failures c now h)"
    by (rule order_trans [OF card_mono [OF _ sub] card_length]) simp
qed

theorem limiter_memory_is_bounded_witness:
  "card (dom (lm_state (lm_history production
     ([(0, Fail ''h:1''), (seconds 1, Fail ''h:2''), (seconds 40, Fail ''h:3'')] @ [(seconds 62, Tick)]) new_limiter))) \<le> 1"
proof -
  let ?h = "[(0, Fail ''h:1''), (seconds 1, Fail ''h:2''), (seconds 40, Fail ''h:3'')]"
  have "\<not> lm_done (lm_history production ?h new_limiter)"
    by (simp add: lm_history_def lm_record_def new_limiter_def spawnCleanupLoop_def)
  from limiter_memory_is_bounded [OF this production_cfg, of "seconds 62"]
  show ?thesis by (simp add: recent_failures_def List.map_filter_def)
qed

text \<open>
  Not so for a failure that is counted after \<open>Cleanup\<close>, by a request that was still running: a
  loop that has been stopped is not started again, so that the record stays whatever else
  happens to other sources; and a loop that is started only then is never stopped.
\<close>

lemma other_events_keep:
  assumes "lm_done l" "lm_started l" "lm_state l a = Some r" "\<forall>x \<in> set h. snd x \<notin> {Fail a, Check a, Unload}"
  shows "lm_state (lm_history cfg h l) a = Some r"
  using assms
proof (induction h arbitrary: l)
  case (Cons x h)
  obtain now ev where x: "x = (now, ev)" by (metis prod.exhaust)
  let ?l = "lm_event_step cfg now ev l"
  have "lm_done ?l \<and> lm_started ?l \<and> lm_state ?l a = Some r"
    using Cons.prems unfolding x
    by (cases ev) (auto simp: lm_record_def recordFailure_def Let_def lm_check_def isRateLimited_def
        lm_tick_def lm_Cleanup_def spawnCleanupLoop_def split: prod.splits option.splits)
  with Cons.IH [of ?l] Cons.prems(4) show ?case by (simp add: lm_history_def x)
qed (simp add: lm_history_def)

lemma late_failures_stay:
  assumes "lm_started l" "a \<noteq> []" "\<forall>x \<in> set h. snd x \<notin> {Fail a, Check a, Unload}"
  shows "lm_state (lm_history cfg ((t, Fail a) # h) (lm_Cleanup l)) a \<noteq> None"
proof -
  obtain th w c where cfg: "failCfg cfg = (th, w, c)" by (metis prod.exhaust)
  let ?l = "lm_record cfg t a (lm_Cleanup l)"
  have "lm_done ?l" "lm_started ?l" "\<exists>r. lm_state ?l a = Some r"
    using assms(1,2) failCfg_pos [OF cfg]
    by (simp_all add: lm_record_def lm_Cleanup_def recordFailure_def cfg)
  with other_events_keep [of ?l a _ h cfg] assms(3) show ?thesis by (auto simp: lm_history_def)
qed

lemma late_loop_is_not_stopped:
  "a \<noteq> [] \<Longrightarrow> lm_started (lm_record cfg t a (lm_Cleanup new_limiter)) \<and>
    \<not> lm_done (lm_record cfg t a (lm_Cleanup new_limiter))"
  using failCfg_pos [of cfg]
  by (cases "failCfg cfg") (auto simp: lm_record_def lm_Cleanup_def new_limiter_def spawnCleanupLoop_def)

text \<open>
  A source whose failures reach the threshold within the window is blocked from the last
  of them on, for exactly the cooldown.
\<close>

theorem repeated_failures_block:
  assumes "failCfg cfg = (th, w, c)" "addr \<noteq> []" "st addr = None" "int (length ts) = th"
    "\<forall>t \<in> set ts. t - hd ts \<le> w"
  shows "fst (isRateLimited now addr (fold (\<lambda>t. recordFailure cfg t addr) ts st)) \<longleftrightarrow> now < last ts + c"
  using threshold_run [where st = st, OF assms] assms(2) by (simp add: isRateLimited_def)

definition burst :: "int list" where
  "burst = [0, seconds 1, seconds 2, seconds 8, seconds 9]"

theorem repeated_failures_block_witness:
  "fst (isRateLimited (seconds 68) ''h:1'' (fold (\<lambda>t. recordFailure production t ''h:1'') burst Map.empty)) \<and>
   \<not> fst (isRateLimited (seconds 69) ''h:1'' (fold (\<lambda>t. recordFailure production t ''h:1'') burst Map.empty))"
  using repeated_failures_block [where st = Map.empty, OF production_cfg, of "''h:1''" burst]
  by (simp add: burst_def)

text \<open>
  C18: nobody is blocked without cause: whatever happens to the limiter, a source with fewer
  failures in its whole history than the threshold is not limited; in particular failures of
  other sources do not count against it.
\<close>

theorem few_failures_never_block:
  assumes "int (length (failures addr h)) < fst (failCfg cfg)"
  shows "\<not> fst (isRateLimited now addr (lm_state (lm_history cfg h new_limiter)))"
proof -
  obtain th w c where cfg: "failCfg cfg = (th, w, c)" by (metis prod.exhaust)
  have "record_ok th 0 (lm_state new_limiter addr)" by (simp add: record_ok_def new_limiter_def)
  from lm_history_ok [OF cfg this, of h] assms cfg show ?thesis
    by (auto simp: isRateLimited_def record_ok_def split: option.splits)
qed

theorem few_failures_never_block_witness:
  "\<not> fst (isRateLimited 7 ''h:1'' (lm_state (lm_history production
     [(1, Fail ''h:1''), (2, Fail ''h:2''), (3, Fail ''h:2''), (4, Fail ''h:2''), (5, Fail ''h:2''),
      (6, Fail ''h:2''), (7, Check ''h:2'')] new_limiter)))"
  by (rule few_failures_never_block) (simp add: failures_def production_cfg)

lemma lifted_parts:
  assumes "failCfg cfg = (th, w, c)" "addr \<noteq> []" "st addr = None" "int (length ts) = th"
    "\<forall>t \<in> set ts. t - hd ts \<le> w" "hd ts + c < now" "now < last ts + c"
  shows "fst (isRateLimited now addr (fold (\<lambda>t. recordFailure cfg t addr) ts st))"
    "\<not> fst (isRateLimited now addr (cleanupTick cfg now (fold (\<lambda>t. recordFailure cfg t addr) ts st)))"
  using threshold_run [where st = st, OF assms(1-5)] assms(1,2,6,7)
  by (simp_all add: isRateLimited_def cleanupTick_def)

text \<open>
  C37: the clean-up lifts blocks that are still in force. It measures the age of a record from
  the first failure, a block lasts from the last: between the two ends a round of the
  clean-up deletes the record and the source is admitted again.
\<close>

theorem cleanup_lifts_blocks:
  assumes "failCfg cfg = (th, w, c)" "addr \<noteq> []" "st addr = None" "int (length ts) = th"
    "\<forall>t \<in> set ts. t - hd ts \<le> w" "hd ts + c < now" "now < last ts + c"
  shows "fst (isRateLimited now addr (fold (\<lambda>t. recordFailure cfg t addr) ts st)) \<and>
    \<not> fst (isRateLimited now addr (cleanupTick cfg now (fold (\<lambda>t. recordFailure cfg t addr) ts st)))"
  using lifted_parts [where st = st, OF assms] by blast

theorem cleanup_lifts_blocks_witness:
  "fst (isRateLimited (seconds 61) ''h:1'' (fold (\<lambda>t. recordFailure production t ''h:1'') burst Map.empty)) \<and>
   \<not> fst (isRateLimited (seconds 61) ''h:1'' (cleanupTick production (seconds 61)
        (fold (\<lambda>t. recordFailure production t ''h:1'') burst Map.empty)))"
  using cleanup_lifts_blocks [where st = Map.empty, OF production_cfg, of "''h:1''" burst "seconds 61"]
  by (simp add: burst_def)

text \<open>The period is positive, as \<open>time.NewTicker\<close> demands, but not at least a second.\<close>

lemma cleanup_interval_bounds: "0 < cleanup_interval cfg \<and> cleanup_interval cfg \<le> seconds 60"
  by (auto simp: cleanup_interval_def Let_def split: prod.splits)

lemma cleanup_interval_small:
  "cleanup_interval \<lparr>failThreshold = 0, failWindow = 0, failCooldown = 2\<rparr> = 1"
  by (simp add: cleanup_interval_def failCfg_def)

end
