(* ===== verification/Handler.thy ===== *)
theory Handler
  imports Listener Websocket Rate_Limiter
begin

text \<open>
  The HTTP handler of \<open>modules/handler/handler.go\<close>: the protocol over CONNECT requests of
  HTTP/2 and HTTP/3, where the key is the proxy authorization, and over websockets, where it
  is the start of the stream. What the handler sees of a request is a record; whether it asks
  for a websocket, and the connection the library makes of it, are answers of the websocket
  library. A websocket is read through its wrapper, whose script is \<open>ws_view\<close>. The two
  functions of the standard library behind \<open>checkOrigin\<close>, the host part of a parsed URL and
  the comparison under case folding, are arguments.
\<close>

section \<open>Requests\<close>

record http_request =
  rq_Method :: string
  rq_ProtoMajor :: nat
  rq_RemoteAddr :: string
  rq_ProxyAuthorization :: string
  rq_Origin :: string
  rq_Host :: string
  rq_Body :: istream
  rq_IsUpgrade :: bool
  rq_Upgrade :: "go_error + ws_conn"

record handler =
  h_WebSocket :: bool
  h_Connect :: bool
  h_OriginAllow :: "string list"
  h_fail :: fail_config

record go_url =
  url_host :: "string \<Rightarrow> go_error + string"
  EqualFold :: "string \<Rightarrow> string \<Rightarrow> bool"

definition checkOrigin :: "go_url \<Rightarrow> handler \<Rightarrow> http_request \<Rightarrow> bool" where
  "checkOrigin url m r =
     (let origin = rq_Origin r in
      if origin = [] then True
      else case url_host url origin of
             Inl err \<Rightarrow> False
           | Inr host \<Rightarrow>
               if list_ex (\<lambda>allow. EqualFold url host allow) (h_OriginAllow m) then True
               else EqualFold url host (rq_Host r))"

text \<open>The library refuses the upgrade of a request its \<open>CheckOrigin\<close> rejects.\<close>

definition Upgrade :: "go_url \<Rightarrow> handler \<Rightarrow> http_request \<Rightarrow> go_error + ws_conn" where
  "Upgrade url m r =
     (if checkOrigin url m r then rq_Upgrade r
      else Inl (Msg ''websocket: request origin not allowed by Upgrader.CheckOrigin''))"

section \<open>ServeHTTP\<close>

text \<open>
  How a request ends: in the next handler of the chain, with an error, silently (the websocket
  is closed), or as a tunnel. The actions are those on the websocket.
\<close>

datatype ws_act = SetHeaderDeadline | ClearHeaderDeadline | RunTunnel | CloseWebSocket

datatype served =
    Next
  | Failed go_error
  | Rejected "ws_act list"
  | Tunnel string handled "ws_act list"

text \<open>
  The three instants are those of the limiter's check and of the record of a failure, and
  \<open>meanwhile\<close> is what others do to the user store while the tunnel runs.
\<close>

definition connect_auth :: "http_request \<Rightarrow> string" where
  "connect_auth r = TrimPrefix (rq_ProxyAuthorization r) ''Basic ''"

text \<open>
  In the two functions below \<open>other\<close> ends the request and \<open>tunnel\<close> goes on for the user with
  that key on the stream given.
\<close>

definition with_connect ::
  "'u upstream_ops \<Rightarrow> handler \<Rightarrow> int \<Rightarrow> int \<Rightarrow> http_request \<Rightarrow> limiter \<Rightarrow> 'u
    \<Rightarrow> (served \<Rightarrow> limiter \<Rightarrow> 'a) \<Rightarrow> (string \<Rightarrow> limiter \<Rightarrow> istream \<Rightarrow> 'a) \<Rightarrow> 'a" where
  "with_connect ops m now1 now2 r lm us other tunnel =
     (if rq_ProtoMajor r = 1 then other Next lm
      else
        let (limited, lm) = lm_check now1 (rq_RemoteAddr r) lm in
        if limited then other Next lm
        else
          let auth = connect_auth r in
          if length auth \<noteq> HeaderLen
          then other Next (lm_record (h_fail m) now2 (rq_RemoteAddr r) lm)
          else if \<not> uo_Validate ops us auth
          then other Next (lm_record (h_fail m) now2 (rq_RemoteAddr r) lm)
          else tunnel auth lm (rq_Body r))"

text \<open>
  The deferred actions of the websocket case, in their order: the deadline is reset, then the
  connection is closed.
\<close>

definition with_websocket ::
  "'u upstream_ops \<Rightarrow> ws_conn \<Rightarrow> 'u \<Rightarrow> (served \<Rightarrow> 'a) \<Rightarrow> (string \<Rightarrow> ws_act list \<Rightarrow> istream \<Rightarrow> 'a) \<Rightarrow> 'a" where
  "with_websocket ops c us other tunnel =
     (let deferred = [ClearHeaderDeadline, CloseWebSocket] in
      case ReadFull (ws_view c) (HeaderLen + 2) of
        (b, Some err, s) \<Rightarrow> other (Rejected ([SetHeaderDeadline] @ deferred))
      | (b, None, s) \<Rightarrow>
          if b ! HeaderLen \<noteq> 0x0d \<or> b ! (HeaderLen + 1) \<noteq> 0x0a
          then other (Rejected ([SetHeaderDeadline] @ deferred))
          else
            let key = string_of_bytes (take HeaderLen b) in
            if \<not> uo_Validate ops us key
            then other (Rejected ([SetHeaderDeadline] @ deferred))
            else tunnel key ([SetHeaderDeadline, ClearHeaderDeadline, RunTunnel] @ deferred) s)"

definition with_http ::
  "go_url \<Rightarrow> 'u upstream_ops \<Rightarrow> handler \<Rightarrow> int \<Rightarrow> int \<Rightarrow> http_request \<Rightarrow> limiter \<Rightarrow> 'u
    \<Rightarrow> (served \<Rightarrow> limiter \<Rightarrow> 'a) \<Rightarrow> (string \<Rightarrow> ws_act list \<Rightarrow> limiter \<Rightarrow> istream \<Rightarrow> 'a) \<Rightarrow> 'a" where
  "with_http url ops m now1 now2 r lm us other tunnel =
     (if h_Connect m \<and> rq_Method r = ''CONNECT''
      then with_connect ops m now1 now2 r lm us other (\<lambda>key. tunnel key [])
      else if h_WebSocket m \<and> rq_IsUpgrade r then
        (case Upgrade url m r of
           Inl err \<Rightarrow> other (Failed err) lm
         | Inr c \<Rightarrow> with_websocket ops c us (\<lambda>v. other v lm) (\<lambda>key acts. tunnel key acts lm))
      else other Next lm)"

text \<open>The tunnel, and the traffic it is charged with.\<close>

definition ServeHTTP ::
  "go_url \<Rightarrow> 'u upstream_ops \<Rightarrow> ('u \<Rightarrow> 'u) \<Rightarrow> handler \<Rightarrow> int \<Rightarrow> int \<Rightarrow> tcp_env \<Rightarrow> udp_env
    \<Rightarrow> http_request \<Rightarrow> limiter \<Rightarrow> 'u \<Rightarrow> (served \<times> limiter \<times> 'u) outcome" where
  "ServeHTTP url ops meanwhile m now1 now2 te ue r lm us =
     with_http url ops m now1 now2 r lm us (\<lambda>v lm. Returns (v, lm, us)) (\<lambda>key acts lm s.
       and_then (HandleWithDialer s te ue) (\<lambda>h.
         Returns (Tunnel key h acts, lm,
           snd (uo_Consume ops (meanwhile us) key
             (word_of_int (hw_nr h)) (word_of_int (hw_nw h))))))"

section \<open>Who gets a tunnel\<close>

text \<open>
  The condition under which a request for a tunnel is granted to the user with key \<open>k\<close>, and
  the stream that is left for the tunnel.
\<close>

definition websocket_key :: "ws_conn \<Rightarrow> string \<Rightarrow> bytes \<Rightarrow> bool" where
  "websocket_key c k rest \<longleftrightarrow> content (ws_view c) = greeting k @ rest \<and> length k = HeaderLen"

definition connect_key :: "'u upstream_ops \<Rightarrow> handler \<Rightarrow> int \<Rightarrow> http_request \<Rightarrow> limiter \<Rightarrow> 'u \<Rightarrow> string \<Rightarrow> bool" where
  "connect_key ops m now1 r lm us k \<longleftrightarrow>
     rq_ProtoMajor r \<noteq> 1 \<and> \<not> fst (lm_check now1 (rq_RemoteAddr r) lm) \<and> k = connect_auth r \<and>
     length k = HeaderLen \<and> uo_Validate ops us k"

lemma with_connect_cases:
  obtains (other) lm' where "with_connect ops m now1 now2 r lm us f g = f Next lm'"
  | (user) lm' where "with_connect ops m now1 now2 r lm us f g = g (connect_auth r) lm' (rq_Body r)"
      "connect_key ops m now1 r lm us (connect_auth r)"
proof (cases "connect_key ops m now1 r lm us (connect_auth r)")
  case True
  then have "with_connect ops m now1 now2 r lm us f g =
      g (connect_auth r) (snd (lm_check now1 (rq_RemoteAddr r) lm)) (rq_Body r)"
    by (cases "lm_check now1 (rq_RemoteAddr r) lm") (simp add: with_connect_def connect_key_def Let_def)
  with True show thesis by (intro user)
next
  case False
  then have "\<exists>lm'. with_connect ops m now1 now2 r lm us f g = f Next lm'"
    by (auto simp: with_connect_def connect_key_def Let_def split: prod.split)
  then show thesis using other by blast
qed

lemma with_websocket_cases:
  obtains (other) acts where "with_websocket ops c us f g = f (Rejected acts)"
  | (user) k s where "with_websocket ops c us f g = g k
        [SetHeaderDeadline, ClearHeaderDeadline, RunTunnel, ClearHeaderDeadline, CloseWebSocket] s"
      "websocket_key c k (content s)" "is_err s = is_err (ws_view c)" "uo_Validate ops us k"
proof -
  obtain b e s where rd: "ReadFull (ws_view c) (HeaderLen + 2) = (b, e, s)" by (metis prod.exhaust)
  with ReadFull_spec [of "ws_view c" "HeaderLen + 2"]
  have s: "b = take (HeaderLen + 2) (content (ws_view c))"
    "content s = drop (HeaderLen + 2) (content (ws_view c))" "is_err s = is_err (ws_view c)"
    "e = None \<longrightarrow> HeaderLen + 2 \<le> length (content (ws_view c))" by (auto split: if_splits)
  note run = with_websocket_def [of ops c us f g, unfolded rd Let_def prod.case]
  show thesis
  proof (cases "e = None \<and> b ! HeaderLen = 0x0d \<and> b ! (HeaderLen + 1) = 0x0a \<and>
      uo_Validate ops us (string_of_bytes (take HeaderLen b))")
    case True
    then have len: "length b = HeaderLen + 2" using s(1,4) by simp
    have "content (ws_view c) = b @ content s" unfolding s(1,2) by (rule append_take_drop_id [symmetric])
    moreover have "b = greeting (string_of_bytes (take HeaderLen b))"
      "length (string_of_bytes (take HeaderLen b)) = HeaderLen"
      using greeting_split [OF len] True len by simp_all
    ultimately have "websocket_key c (string_of_bytes (take HeaderLen b)) (content s)"
      by (simp add: websocket_key_def)
    with True s(3) run show thesis by (intro user [of "string_of_bytes (take HeaderLen b)" s]) auto
  next
    case False
    with run show thesis by (intro other) (auto split: option.splits)
  qed
qed

lemma websocket_user:
  assumes "websocket_key c k rest" "uo_Validate ops us k"
  shows "\<exists>s. content s = rest \<and> is_err s = is_err (ws_view c) \<and>
    with_websocket ops c us f g = g k
      [SetHeaderDeadline, ClearHeaderDeadline, RunTunnel, ClearHeaderDeadline, CloseWebSocket] s"
proof -
  from assms(1) have c: "content (ws_view c) = greeting k @ rest" "length k = HeaderLen"
    by (simp_all add: websocket_key_def)
  have len: "length (greeting k) = HeaderLen + 2" by (simp add: greeting_def c(2))
  then have "HeaderLen + 2 \<le> length (content (ws_view c))" by (simp add: c(1))
  from ReadFull_enough [OF this] obtain s where s:
    "ReadFull (ws_view c) (HeaderLen + 2) = (take (HeaderLen + 2) (content (ws_view c)), None, s)"
    "content s = drop (HeaderLen + 2) (content (ws_view c))" "is_err s = is_err (ws_view c)" .
  have t: "take (HeaderLen + 2) (content (ws_view c)) = greeting k"
    "drop (HeaderLen + 2) (content (ws_view c)) = rest"
    by (simp_all only: c(1) len [symmetric] append_eq_conv_conj [THEN iffD1, OF refl]) simp_all
  have "greeting k ! HeaderLen = 0x0d" "greeting k ! (HeaderLen + 1) = 0x0a"
    "string_of_bytes (take HeaderLen (greeting k)) = k"
    using c(2) by (simp_all add: greeting_def nth_append)
  then show ?thesis
    using s t assms(2) by (intro exI [of _ s]) (simp add: with_websocket_def Let_def del: One_nat_def add_Suc_right)
qed

text \<open>A request for a tunnel is granted for a CONNECT request or for a websocket.\<close>

definition http_key ::
  "go_url \<Rightarrow> 'u upstream_ops \<Rightarrow> handler \<Rightarrow> int \<Rightarrow> http_request \<Rightarrow> limiter \<Rightarrow> 'u \<Rightarrow> string \<Rightarrow> istream \<Rightarrow> bool" where
  "http_key url ops m now1 r lm us k s \<longleftrightarrow>
     h_Connect m \<and> rq_Method r = ''CONNECT'' \<and> connect_key ops m now1 r lm us k \<and> s = rq_Body r \<or>
     \<not> (h_Connect m \<and> rq_Method r = ''CONNECT'') \<and>
       h_WebSocket m \<and> rq_IsUpgrade r \<and> checkOrigin url m r \<and>
       (\<exists>c. rq_Upgrade r = Inr c \<and> websocket_key c k (content s) \<and> is_err s = is_err (ws_view c)) \<and>
       uo_Validate ops us k"

lemma with_http_cases:
  obtains (other) v lm' where "with_http url ops m now1 now2 r lm us f g = f v lm'"
      "\<forall>k h acts. v \<noteq> Tunnel k h acts"
  | (user) k acts lm' s where "with_http url ops m now1 now2 r lm us f g = g k acts lm' s"
      "http_key url ops m now1 r lm us k s"
proof (cases "h_Connect m \<and> rq_Method r = ''CONNECT''")
  case True
  then have eq: "with_http url ops m now1 now2 r lm us f g =
      with_connect ops m now1 now2 r lm us f (\<lambda>key. g key [])" by (simp add: with_http_def)
  show thesis
  proof (rule with_connect_cases [of ops m now1 now2 r lm us f "\<lambda>key. g key []"])
    fix lm' assume "with_connect ops m now1 now2 r lm us f (\<lambda>key. g key []) = f Next lm'"
    with eq show thesis by (intro other [of Next lm']) simp_all
  next
    fix lm' assume "with_connect ops m now1 now2 r lm us f (\<lambda>key. g key []) = g (connect_auth r) [] lm' (rq_Body r)"
      "connect_key ops m now1 r lm us (connect_auth r)"
    with eq True show thesis by (intro user [of "connect_auth r" "[]" lm' "rq_Body r"]) (simp_all add: http_key_def)
  qed
next
  case False
  show thesis
  proof (cases "\<exists>c. h_WebSocket m \<and> rq_IsUpgrade r \<and> Upgrade url m r = Inr c")
    case True
    then obtain c where c: "h_WebSocket m" "rq_IsUpgrade r" "Upgrade url m r = Inr c" by blast
    let ?f = "\<lambda>v. f v lm" and ?g = "\<lambda>key acts. g key acts lm"
    from c False have eq: "with_http url ops m now1 now2 r lm us f g = with_websocket ops c us ?f ?g"
      by (auto simp: with_http_def)
    have up: "checkOrigin url m r" "rq_Upgrade r = Inr c"
      using c(3) by (simp_all add: Upgrade_def split: if_splits)
    show thesis
    proof (rule with_websocket_cases [of ops c us ?f ?g])
      fix acts assume "with_websocket ops c us ?f ?g = f (Rejected acts) lm"
      with eq show thesis by (intro other [of "Rejected acts" lm]) simp_all
    next
      fix k s assume "with_websocket ops c us ?f ?g = g k
          [SetHeaderDeadline, ClearHeaderDeadline, RunTunnel, ClearHeaderDeadline, CloseWebSocket] lm s"
        "websocket_key c k (content s)" "is_err s = is_err (ws_view c)" "uo_Validate ops us k"
      with eq c up False show thesis by (intro user [of k _ lm s]) (simp_all add: http_key_def)
    qed
  next
    case False
    with \<open>\<not> (h_Connect m \<and> rq_Method r = ''CONNECT'')\<close> show thesis
      by (intro that(1) [of "case Upgrade url m r of Inl e \<Rightarrow> if h_WebSocket m \<and> rq_IsUpgrade r then Failed e else Next
          | Inr _ \<Rightarrow> Next" lm]) (auto simp: with_http_def split: sum.splits)
  qed
qed

lemma http_tunnel_granted:
  assumes "ServeHTTP url ops mw m now1 now2 te ue r lm us = Returns (Tunnel k h acts, lm', us')"
  obtains s where "http_key url ops m now1 r lm us k s" "HandleWithDialer s te ue = Returns h"
    "us' = snd (uo_Consume ops (mw us) k (word_of_int (hw_nr h)) (word_of_int (hw_nw h)))"
proof (rule with_http_cases [of url ops m now1 now2 r lm us "\<lambda>v lm. Returns (v, lm, us)" "\<lambda>key acts lm s.
    and_then (HandleWithDialer s te ue) (\<lambda>h. Returns (Tunnel key h acts, lm,
      snd (uo_Consume ops (mw us) key (word_of_int (hw_nr h)) (word_of_int (hw_nw h)))))"])
qed (use assms that in \<open>auto simp: ServeHTTP_def outcome_simps\<close>)

section \<open>Properties of the handler\<close>

text \<open>
  C2: over HTTP, too, only users get a tunnel: a request that is answered with one carried
  the key of a user of the store, as its proxy authorization or as the start of its
  websocket stream with CRLF behind it, and that user is charged.
\<close>

theorem http_only_users_are_served:
  assumes "mem_inv us"
    "ServeHTTP url (mem_ops pops) mw m now1 now2 te ue r lm us = Returns (Tunnel k h acts, lm', us')"
  shows "map_of (mm us) k \<noteq> None \<and>
    (h_Connect m \<and> rq_Method r = ''CONNECT'' \<and> k = connect_auth r \<or>
     h_WebSocket m \<and> checkOrigin url m r \<and>
       (\<exists>c rest. rq_Upgrade r = Inr c \<and> content (ws_view c) = greeting k @ rest)) \<and>
    us' = snd (mem_Consume pops (mw us) k (word_of_int (hw_nr h)) (word_of_int (hw_nw h)))"
proof -
  obtain s where "http_key url (mem_ops pops) m now1 r lm us k s"
    "us' = snd (uo_Consume (mem_ops pops) (mw us) k (word_of_int (hw_nr h)) (word_of_int (hw_nw h)))"
    using assms(2) by (rule http_tunnel_granted)
  with mem.validate_only [OF assms(1)] show ?thesis
    by (auto simp: mem_ops_def http_key_def connect_key_def websocket_key_def)
qed

definition demo_url :: go_url where
  "demo_url = \<lparr>url_host = Inr, EqualFold = (=)\<rparr>"

definition demo_handler :: handler where
  "demo_handler = \<lparr>h_WebSocket = True, h_Connect = True, h_OriginAllow = [], h_fail = production\<rparr>"

definition demo_connect :: "string \<Rightarrow> http_request" where
  "demo_connect auth =
     \<lparr>rq_Method = ''CONNECT'', rq_ProtoMajor = 2, rq_RemoteAddr = ''h:1'',
      rq_ProxyAuthorization = ''Basic '' @ auth, rq_Origin = [], rq_Host = ''h'',
      rq_Body = demo_request, rq_IsUpgrade = False, rq_Upgrade = Inl EOF\<rparr>"

lemma demo_auth [simp]: "connect_auth (demo_connect k) = k"
  by (simp add: connect_auth_def TrimPrefix_def demo_connect_def)

text \<open>A user's CONNECT request that is not limited is given to the tunnel.\<close>

lemma connect_user:
  assumes "rq_ProtoMajor r \<noteq> 1" "lm_check now1 (rq_RemoteAddr r) lm = (False, lm')"
    "uo_Validate ops us (connect_auth r)" "length (connect_auth r) = HeaderLen"
    "h_Connect m" "rq_Method r = ''CONNECT''"
  shows "with_http url ops m now1 now2 r lm us f g = g (connect_auth r) [] lm' (rq_Body r)"
  using assms by (simp add: with_http_def with_connect_def Let_def)

lemma http_key_granted:
  assumes "http_key url ops m now1 r lm us k s"
  shows "\<exists>acts lm' s'. content s' = content s \<and> is_err s' = is_err s \<and>
    with_http url ops m now1 now2 r lm us f g = g k acts lm' s'"
proof (cases "h_Connect m \<and> rq_Method r = ''CONNECT''")
  case True
  with assms have key: "connect_key ops m now1 r lm us k" "s = rq_Body r" by (simp_all add: http_key_def)
  obtain limited lm' where check: "lm_check now1 (rq_RemoteAddr r) lm = (limited, lm')" by (metis prod.exhaust)
  with key True show ?thesis
    using connect_user [of r now1 lm lm' ops us m url now2 f g] by (auto simp: connect_key_def)
next
  case False
  with assms obtain c where c: "h_WebSocket m" "rq_IsUpgrade r" "checkOrigin url m r" "rq_Upgrade r = Inr c"
    "websocket_key c k (content s)" "is_err s = is_err (ws_view c)" "uo_Validate ops us k"
    by (auto simp: http_key_def)
  from websocket_user [OF c(5,7), of "\<lambda>v. f v lm" "\<lambda>key acts. g key acts lm"] c False show ?thesis
    by (fastforce simp: with_http_def Upgrade_def)
qed

theorem http_only_users_are_served_witness:
  "\<exists>h acts lm' us'. ServeHTTP demo_url (mem_ops demo_pops) id demo_handler 0 0 demo_env demo_udp_env
      (demo_connect (GenKey ''alice'')) new_limiter alice = Returns (Tunnel (GenKey ''alice'') h acts, lm', us') \<and>
    map_of (mm alice) (GenKey ''alice'') \<noteq> None"
proof -
  let ?r = "demo_connect (GenKey ''alice'')"
  obtain s where "HandleWithDialer demo_request demo_env demo_udp_env =
      run_command 1 (encode_addr (HostDomain [104]) 80) s demo_env demo_udp_env"
    using HandleWithDialer_request [OF content_demo_request, of demo_env demo_udp_env]
    by (auto simp: CmdConnect_def)
  moreover have "tcp_connected (demo_env\<lparr>up_src := s\<rparr>) x" "good_writers (demo_env\<lparr>up_src := s\<rparr>)" for x
    by (simp_all add: demo_env_def tcp_connected_def good_writers_def)
  with HandleTCP_accounting [OF demo_addr] obtain run where
    "HandleTCP (demo_env\<lparr>up_src := s\<rparr>) \<lparr>addr_data = encode_addr (HostDomain [104]) 80\<rparr> = Returns run"
    by blast
  ultimately obtain h where h: "HandleWithDialer (rq_Body ?r) demo_env demo_udp_env = Returns h"
    by (auto simp: run_command_def handle_connect_def CmdConnect_def demo_connect_def)
  have "rq_ProtoMajor ?r \<noteq> 1" "lm_check 0 (rq_RemoteAddr ?r) new_limiter = (False, new_limiter)"
    "uo_Validate (mem_ops demo_pops) alice (connect_auth ?r)" "length (connect_auth ?r) = HeaderLen"
    "h_Connect demo_handler" "rq_Method ?r = ''CONNECT''"
    by (simp_all add: demo_connect_def lm_check_def isRateLimited_def new_limiter_def mem_ops_def
        mem_Validate_def alice_def connect_auth_def TrimPrefix_def demo_handler_def)
  note granted = connect_user [OF this, of demo_url 0]
  obtain lm' us' where run: "ServeHTTP demo_url (mem_ops demo_pops) id demo_handler 0 0 demo_env demo_udp_env ?r
      new_limiter alice = Returns (Tunnel (GenKey ''alice'') h [], lm', us')"
    unfolding ServeHTTP_def granted using h by simp
  from http_only_users_are_served [OF alice_inv run] run show ?thesis by blast
qed

text \<open>
  A source that has failed often enough is not even looked at: while it is blocked, its
  CONNECT requests go to the next handler whatever they carry, without a question to the user
  store and without prolonging the block.
\<close>

theorem blocked_source_is_passed_on:
  assumes "failCfg (h_fail m) = (th, w, c)" "rq_RemoteAddr r \<noteq> []" "lm_state lm (rq_RemoteAddr r) = None"
    "int (length ts) = th" "\<forall>t \<in> set ts. t - hd ts \<le> w" "now1 < last ts + c"
    "h_Connect m" "rq_Method r = ''CONNECT''"
    "lm' = fold (\<lambda>t. lm_record (h_fail m) t (rq_RemoteAddr r)) ts lm"
  shows "ServeHTTP url ops mw m now1 now2 te ue r lm' us = Returns (Next, lm', us)"
proof -
  have state: "lm_state (fold (\<lambda>t. lm_record (h_fail m) t (rq_RemoteAddr r)) ts l) =
      fold (\<lambda>t. recordFailure (h_fail m) t (rq_RemoteAddr r)) ts (lm_state l)" for ts l
    using failCfg_pos [OF assms(1)] assms(1,2)
    by (induction ts arbitrary: l) (simp_all add: lm_record_def)
  have "lm_state lm' (rq_RemoteAddr r) =
      Some \<lparr>fr_count = th, firstFailure = Some (hd ts), blockedUntil = Some (last ts + c)\<rparr>"
    unfolding assms(9) state
    by (rule threshold_run [where st = "lm_state lm", OF assms(1-5)])
  then have "lm_check now1 (rq_RemoteAddr r) lm' = (True, lm')"
    using assms(2,6) by (simp add: lm_check_def isRateLimited_def)
  then show ?thesis using assms(7,8) by (simp add: ServeHTTP_def with_http_def with_connect_def)
qed

theorem blocked_source_is_passed_on_witness:
  "ServeHTTP demo_url (mem_ops demo_pops) id demo_handler (seconds 60) 0 demo_env demo_udp_env
      (demo_connect (GenKey ''alice''))
      (fold (\<lambda>t. lm_record production t ''h:1'') burst new_limiter) alice =
    Returns (Next, fold (\<lambda>t. lm_record production t ''h:1'') burst new_limiter, alice)"
proof -
  have "failCfg (h_fail demo_handler) = (5, seconds 10, seconds 60)"
    using production_cfg by (simp add: demo_handler_def)
  then show ?thesis
    by (rule blocked_source_is_passed_on [where lm = new_limiter and ts = burst])
      (simp_all add: demo_connect_def new_limiter_def burst_def demo_handler_def)
qed

text \<open>
  A browser cannot use the handler across sites: with an \<open>Origin\<close> whose host is neither
  that of the request nor in the allow list, or cannot be parsed, no websocket is opened;
  without an \<open>Origin\<close>, or from the site itself, it is.
\<close>

theorem cross_site_is_refused:
  assumes "\<not> (h_Connect m \<and> rq_Method r = ''CONNECT'')" "h_WebSocket m" "rq_IsUpgrade r"
    "rq_Origin r \<noteq> []"
    "\<forall>host. url_host url (rq_Origin r) = Inr host \<longrightarrow>
      \<not> EqualFold url host (rq_Host r) \<and> (\<forall>a \<in> set (h_OriginAllow m). \<not> EqualFold url host a)"
  shows "\<exists>e. ServeHTTP url ops mw m now1 now2 te ue r lm us = Returns (Failed e, lm, us)"
proof -
  have "\<not> checkOrigin url m r"
    using assms(4,5) by (auto simp: checkOrigin_def list_ex_iff Let_def split: sum.splits)
  then show ?thesis using assms(1-3) by (auto simp: ServeHTTP_def with_http_def Upgrade_def)
qed

definition demo_browser :: http_request where
  "demo_browser = (demo_connect [])\<lparr>rq_Method := ''GET'', rq_Origin := ''evil'', rq_IsUpgrade := True\<rparr>"

theorem cross_site_is_refused_witness:
  "\<exists>e. ServeHTTP demo_url (mem_ops demo_pops) id demo_handler 0 0 demo_env demo_udp_env demo_browser
    new_limiter alice = Returns (Failed e, new_limiter, alice)"
  by (rule cross_site_is_refused)
    (simp_all add: demo_browser_def demo_connect_def demo_handler_def demo_url_def)

end
