(* ===== verification/Dialers.thy ===== *)
theory Dialers
  imports Go_IO
begin

text \<open>
  What a proxy is to the rest of the program (\<open>Proxy\<close> in \<open>app/proxy.go\<close>: a \<open>trojan.Dialer\<close>
  that can be closed), the network the proxies act on, and the two proxies that do nothing
  of their own, \<open>NoProxy\<close> and \<open>DropProxy\<close>. The network is a script of what the coming
  dials find and the list of all connections made so far, each with what arrives on it, what
  was written to it and whether it is open; a connection is its position in that list. The
  locale \<open>dialer\<close> is the contract every proxy owes its caller: \<open>Dial\<close> returns, leaves the
  connections that were there before alone, and leaves exactly the connection it returns
  open, none when it fails.
\<close>

section \<open>Computations that may panic or not return\<close>

text \<open>\<open>None\<close> is a computation that does not return.\<close>

type_synonym 'a run = "'a outcome option"

abbreviation ret :: "'a \<Rightarrow> 'a run" where
  "ret x \<equiv> Some (Returns x)"

fun cont :: "'a run \<Rightarrow> ('a \<Rightarrow> 'b run) \<Rightarrow> 'b run" where
  "cont None f = None"
| "cont (Some (Panics p)) f = Some (Panics p)"
| "cont (Some (Returns x)) f = f x"

text \<open>Calling a method of an interface value that may be nil.\<close>

definition on_proxy :: "'a option \<Rightarrow> ('a \<Rightarrow> 'b run) \<Rightarrow> 'b run" where
  "on_proxy x f = (case x of None \<Rightarrow> Some (Panics NilDeref) | Some p \<Rightarrow> f p)"

lemma on_proxy_simps [simp]: "on_proxy (Some p) f = f p" "on_proxy None f = Some (Panics NilDeref)"
  by (simp_all add: on_proxy_def)

lemma cont_ret_iff [outcome_simps]: "cont m f = ret y \<longleftrightarrow> (\<exists>x. m = ret x \<and> f x = ret y)"
  by (cases m; cases "the m") auto

lemma cont_returns:
  "cont m f \<noteq> None \<longleftrightarrow> m \<noteq> None \<and> (\<forall>x. m = ret x \<longrightarrow> f x \<noteq> None)"
  by (cases m; cases "the m") auto

section \<open>The network\<close>

text \<open>
  \<open>nc_wres\<close> holds the failures of the coming writes: \<open>None\<close> for a write that succeeds, else
  how many bytes still get through and the error. A script that has run out succeeds.
\<close>

record netconn =
  nc_in :: istream
  nc_out :: bytes
  nc_wres :: "(nat \<times> go_error) option list"
  nc_open :: bool

record net =
  nt_dials :: "(go_error + netconn) list"
  nt_log :: "(string \<times> string) list"
  nt_conns :: "netconn list"

definition ErrUnreachable :: go_error where
  "ErrUnreachable = Msg ''connect: network is unreachable''"

text \<open>\<open>net.Dial\<close> and \<open>net.ListenPacket\<close>: the next answer of the script.\<close>

definition net_Dial :: "string \<Rightarrow> string \<Rightarrow> net \<Rightarrow> (go_error + nat) \<times> net" where
  "net_Dial network addr w =
     (let w = w\<lparr>nt_log := nt_log w @ [(network, addr)]\<rparr>
      in case nt_dials w of
           [] \<Rightarrow> (Inl ErrUnreachable, w)
         | Inl e # ds \<Rightarrow> (Inl e, w\<lparr>nt_dials := ds\<rparr>)
         | Inr c # ds \<Rightarrow>
             (Inr (length (nt_conns w)),
              w\<lparr>nt_dials := ds, nt_conns := nt_conns w @ [c\<lparr>nc_open := True\<rparr>]\<rparr>))"

definition net_upd :: "nat \<Rightarrow> (netconn \<Rightarrow> netconn) \<Rightarrow> net \<Rightarrow> net" where
  "net_upd h f w =
     (if h < length (nt_conns w) then w\<lparr>nt_conns := (nt_conns w)[h := f (nt_conns w ! h)]\<rparr> else w)"

definition net_Close :: "nat \<Rightarrow> net \<Rightarrow> net" where
  "net_Close h = net_upd h (\<lambda>c. c\<lparr>nc_open := False\<rparr>)"

definition net_Write :: "nat \<Rightarrow> bytes \<Rightarrow> net \<Rightarrow> go_error option \<times> net" where
  "net_Write h bs w =
     (if \<not> (h < length (nt_conns w) \<and> nc_open (nt_conns w ! h)) then (Some ErrClosed, w)
      else let c = nt_conns w ! h; next = (case nc_wres c of [] \<Rightarrow> None | r # _ \<Rightarrow> r)
           in (map_option snd next,
               net_upd h (\<lambda>c. c\<lparr>nc_out := nc_out c @ (case next of None \<Rightarrow> bs | Some (n, _) \<Rightarrow> take n bs),
                              nc_wres := drop 1 (nc_wres c)\<rparr>) w))"

section \<open>Who owns what\<close>

text \<open>The connections made between two states that are still open.\<close>

definition new_open :: "net \<Rightarrow> net \<Rightarrow> nat list" where
  "new_open w w' =
     filter (\<lambda>i. nc_open (nt_conns w' ! i)) [length (nt_conns w)..<length (nt_conns w')]"

definition keeps :: "net \<Rightarrow> net \<Rightarrow> bool" where
  "keeps w w' \<longleftrightarrow> take (length (nt_conns w)) (nt_conns w') = nt_conns w"

text \<open>The caller owns the connection it is given, and there is nothing else to close.\<close>

definition owns :: "net \<Rightarrow> (go_error + nat) \<Rightarrow> net \<Rightarrow> bool" where
  "owns w r w' \<longleftrightarrow>
     keeps w w' \<and> new_open w w' = (case r of Inl _ \<Rightarrow> [] | Inr h \<Rightarrow> [h])"

lemma keeps_refl [simp]: "keeps w w"
  by (simp add: keeps_def)

lemma keeps_length: "keeps w w' \<Longrightarrow> length (nt_conns w) \<le> length (nt_conns w')"
  by (metis keeps_def length_take min.cobounded1 min.commute)

lemma owns_failed [simp]: "owns w (Inl e) w"
  by (simp add: owns_def new_open_def)

lemma owns_result:
  assumes "owns w (Inr h) w'"
  shows "length (nt_conns w) \<le> h" "h < length (nt_conns w')" "nc_open (nt_conns w' ! h)"
proof -
  from assms have "h \<in> set (new_open w w')" by (simp add: owns_def)
  then show "length (nt_conns w) \<le> h" "h < length (nt_conns w')" "nc_open (nt_conns w' ! h)"
    by (simp_all add: new_open_def)
qed

lemma net_upd_keeps: "keeps w w' \<Longrightarrow> length (nt_conns w) \<le> h \<Longrightarrow> keeps w (net_upd h f w')"
  by (simp add: keeps_def net_upd_def)

text \<open>Work on the connection one owns: it stays the only open one as long as it stays open.\<close>

lemma new_open_upd:
  assumes "h < length (nt_conns w')"
  shows "new_open w (net_upd h f w') =
    filter (\<lambda>i. if i = h then nc_open (f (nt_conns w' ! h)) else nc_open (nt_conns w' ! i))
      [length (nt_conns w)..<length (nt_conns w')]"
  unfolding new_open_def
  by (rule filter_cong) (use assms in \<open>auto simp: net_upd_def nth_list_update\<close>)

lemma owns_upd:
  assumes "owns w (Inr h) w'" "nc_open (f (nt_conns w' ! h))"
  shows "owns w (Inr h) (net_upd h f w')"
proof -
  note r = owns_result [OF assms(1)]
  have "new_open w (net_upd h f w') = new_open w w'"
    unfolding new_open_upd [OF r(2)] unfolding new_open_def
    by (rule filter_cong) (use assms(2) r(3) in auto)
  with assms(1) net_upd_keeps [of w w' h f] r(1) show ?thesis by (simp add: owns_def)
qed

lemma owns_Close:
  assumes "owns w (Inr h) w'"
  shows "owns w (Inl e) (net_Close h w')"
proof -
  note r = owns_result [OF assms]
  have "new_open w (net_Close h w') = filter (\<lambda>i. i \<noteq> h) (new_open w w')"
    unfolding net_Close_def new_open_upd [OF r(2)] unfolding new_open_def filter_filter
    by (rule filter_cong) auto
  with assms net_upd_keeps [of w w' h] r(1) show ?thesis by (simp add: owns_def net_Close_def)
qed

lemma owns_Write:
  assumes "owns w (Inr h) w'" "net_Write h bs w' = (e, w'')"
  shows "owns w (Inr h) w''"
  using assms owns_result [OF assms(1)] owns_upd [OF assms(1)]
  by (auto simp: net_Write_def Let_def split: if_splits)

lemma owns_mono: "owns w r w' \<Longrightarrow> nt_conns v = nt_conns w \<Longrightarrow> nt_conns v' = nt_conns w' \<Longrightarrow> owns v r v'"
  by (simp add: owns_def keeps_def new_open_def)

section \<open>Proxies\<close>

record proxy_ops =
  px_Close :: "net \<Rightarrow> (go_error option \<times> net) run"
  px_Dial :: "string \<Rightarrow> string \<Rightarrow> net \<Rightarrow> ((go_error + nat) \<times> net) run"
  px_ListenPacket :: "string \<Rightarrow> string \<Rightarrow> net \<Rightarrow> ((go_error + nat) \<times> net) run"

locale dialer =
  fixes p :: proxy_ops
  assumes dial_returns: "px_Dial p network addr w \<noteq> None"
    and dial_owns: "px_Dial p network addr w = ret (r, w') \<Longrightarrow> owns w r w'"
begin

lemma failed_dial_leaks_nothing:
  "px_Dial p network addr w = ret (Inl e, w') \<Longrightarrow> new_open w w' = []"
  using dial_owns [of network addr w "Inl e" w'] by (simp add: owns_def)

lemma dialed_connection_is_open:
  assumes "px_Dial p network addr w = ret (Inr h, w')"
  shows "length (nt_conns w) \<le> h" "h < length (nt_conns w')" "nc_open (nt_conns w' ! h)"
  using owns_result [OF dial_owns [OF assms]] by blast+

end

subsection \<open>NoProxy and DropProxy\<close>

definition NoProxy_Close :: "net \<Rightarrow> (go_error option \<times> net) run" where
  "NoProxy_Close w = ret (None, w)"

definition NoProxy_Dial :: "string \<Rightarrow> string \<Rightarrow> net \<Rightarrow> ((go_error + nat) \<times> net) run" where
  "NoProxy_Dial network addr w = ret (net_Dial network addr w)"

definition NoProxy_ListenPacket :: "string \<Rightarrow> string \<Rightarrow> net \<Rightarrow> ((go_error + nat) \<times> net) run" where
  "NoProxy_ListenPacket network addr w = ret (net_Dial network addr w)"

definition NoProxy :: proxy_ops where
  "NoProxy = \<lparr>px_Close = NoProxy_Close, px_Dial = NoProxy_Dial, px_ListenPacket = NoProxy_ListenPacket\<rparr>"

definition DropProxy_Close :: "net \<Rightarrow> (go_error option \<times> net) run" where
  "DropProxy_Close w = ret (None, w)"

definition DropProxy_Dial :: "string \<Rightarrow> string \<Rightarrow> net \<Rightarrow> ((go_error + nat) \<times> net) run" where
  "DropProxy_Dial network addr w = ret (Inl (Msg ''drop connection''), w)"

definition DropProxy_ListenPacket :: "string \<Rightarrow> string \<Rightarrow> net \<Rightarrow> ((go_error + nat) \<times> net) run" where
  "DropProxy_ListenPacket network addr w = ret (Inl (Msg ''drop connection''), w)"

definition DropProxy :: proxy_ops where
  "DropProxy = \<lparr>px_Close = DropProxy_Close, px_Dial = DropProxy_Dial, px_ListenPacket = DropProxy_ListenPacket\<rparr>"

lemma owns_net_Dial: "net_Dial network addr w = (r, w') \<Longrightarrow> owns w r w'"
  by (auto simp: net_Dial_def Let_def owns_def keeps_def new_open_def nth_append
      split: list.splits sum.splits)

interpretation direct: dialer NoProxy
  by unfold_locales (simp_all add: NoProxy_def NoProxy_Dial_def owns_net_Dial)

interpretation drop: dialer DropProxy
  by unfold_locales (auto simp: DropProxy_def DropProxy_Dial_def)

end
