(* ===== verification/Go_Net.thy ===== *)
theory Go_Net
  imports Socks_Addr
begin

text \<open>
  What the proxies use of the standard library to take addresses apart: \<open>net.SplitHostPort\<close>,
  \<open>net.ParseIP\<close>, \<open>strconv.Atoi\<close> and \<open>base64.StdEncoding\<close>, with the case distinctions of the
  library. Strings are byte strings, positions are indices into them.
\<close>

section \<open>SplitHostPort\<close>

text \<open>\<open>IndexByte\<close> and \<open>LastIndexByte\<close>; \<open>None\<close> is the result \<open>-1\<close>.\<close>

fun IndexByte :: "string \<Rightarrow> char \<Rightarrow> nat option" where
  "IndexByte [] c = None"
| "IndexByte (x # xs) c = (if x = c then Some 0 else map_option Suc (IndexByte xs c))"

definition LastIndexByte :: "string \<Rightarrow> char \<Rightarrow> nat option" where
  "LastIndexByte s c = map_option (\<lambda>i. length s - 1 - i) (IndexByte (rev s) c)"

definition addrErr :: "string \<Rightarrow> string \<Rightarrow> go_error" where
  "addrErr addr why = Msg (''address '' @ addr @ '': '' @ why)"

definition missingPort :: string where "missingPort = ''missing port in address''"
definition tooManyColons :: string where "tooManyColons = ''too many colons in address''"

text \<open>The last two checks, from the positions \<open>j\<close> and \<open>k\<close> on.\<close>

definition split_rest :: "string \<Rightarrow> string \<Rightarrow> nat \<Rightarrow> nat \<Rightarrow> nat \<Rightarrow> go_error + string \<times> string" where
  "split_rest hostport host i j k =
     (if IndexByte (drop j hostport) CHR ''['' \<noteq> None
      then Inl (addrErr hostport ''unexpected '[' in address'')
      else if IndexByte (drop k hostport) CHR '']'' \<noteq> None
      then Inl (addrErr hostport ''unexpected ']' in address'')
      else Inr (host, drop (i + 1) hostport))"

definition SplitHostPort :: "string \<Rightarrow> go_error + string \<times> string" where
  "SplitHostPort hostport =
     (case LastIndexByte hostport CHR '':'' of
        None \<Rightarrow> Inl (addrErr hostport missingPort)
      | Some i \<Rightarrow>
          if hostport ! 0 = CHR ''['' then
            (case IndexByte hostport CHR '']'' of
               None \<Rightarrow> Inl (addrErr hostport ''missing ']' in address'')
             | Some end \<Rightarrow>
                 if end + 1 = length hostport then Inl (addrErr hostport missingPort)
                 else if end + 1 = i
                 then split_rest hostport (take (end - 1) (drop 1 hostport)) i 1 (end + 1)
                 else if hostport ! (end + 1) = CHR '':''
                 then Inl (addrErr hostport tooManyColons)
                 else Inl (addrErr hostport missingPort))
          else
            let host = take i hostport in
            if IndexByte host CHR '':'' \<noteq> None then Inl (addrErr hostport tooManyColons)
            else split_rest hostport host i 0 0)"

lemma IndexByte_None [simp]: "IndexByte s c = None \<longleftrightarrow> c \<notin> set s"
  by (induction s) auto

lemma IndexByte_append: "c \<notin> set s \<Longrightarrow> IndexByte (s @ c # t) c = Some (length s)"
  by (induction s) auto

lemma LastIndexByte_append: "c \<notin> set t \<Longrightarrow> LastIndexByte (s @ c # t) c = Some (length s)"
  by (simp add: LastIndexByte_def IndexByte_append)

text \<open>A host that needs no brackets, or gets them from \<open>JoinHostPort\<close>, comes back.\<close>

definition plain_host :: "string \<Rightarrow> bool" where
  "plain_host h \<longleftrightarrow> CHR ''['' \<notin> set h \<and> CHR '']'' \<notin> set h"

definition plain_port :: "string \<Rightarrow> bool" where
  "plain_port p \<longleftrightarrow> plain_host p \<and> CHR '':'' \<notin> set p"

lemma Split_Join:
  assumes "plain_host h" "plain_port p"
  shows "SplitHostPort (JoinHostPort h p) = Inr (h, p)"
proof (cases "CHR '':'' \<in> set h")
  case True
  let ?s = "''['' @ h @ '']:'' @ p"
  have l: "LastIndexByte ?s CHR '':'' = Some (length h + 2)"
    using LastIndexByte_append [of "CHR '':''" p "''['' @ h @ '']''"] assms(2)
    by (simp add: plain_port_def)
  have e: "IndexByte ?s CHR '']'' = Some (length h + 1)"
    using IndexByte_append [of "CHR '']''" "''['' @ h" "'':'' @ p"] assms(1)
    by (simp add: plain_host_def)
  have "CHR ''['' \<notin> set (h @ '']:'' @ p)" "CHR '']'' \<notin> set (CHR '':'' # p)"
    using assms by (auto simp: plain_host_def plain_port_def)
  then have "split_rest ?s h (length h + 2) 1 (length h + 2) = Inr (h, p)"
    by (simp add: split_rest_def)
  moreover have "SplitHostPort ?s = split_rest ?s h (length h + 2) 1 (length h + 2)"
    unfolding SplitHostPort_def l e by simp
  ultimately show ?thesis using True by (simp add: JoinHostPort_def)
next
  case False
  let ?s = "h @ '':'' @ p"
  have l: "LastIndexByte ?s CHR '':'' = Some (length h)"
    using LastIndexByte_append [of "CHR '':''" p h] assms(2) by (simp add: plain_port_def)
  have "?s ! 0 \<noteq> CHR ''[''"
    using assms(1) by (cases h) (auto simp: plain_host_def)
  moreover have "split_rest ?s h (length h) 0 0 = Inr (h, p)"
    using assms by (auto simp: split_rest_def plain_host_def plain_port_def)
  ultimately have "SplitHostPort ?s = Inr (h, p)"
    using False unfolding SplitHostPort_def l by (simp add: Let_def)
  then show ?thesis using False by (simp add: JoinHostPort_def)
qed

section \<open>Atoi\<close>

definition is_digit :: "char \<Rightarrow> bool" where
  "is_digit c \<longleftrightarrow> 48 \<le> (of_char c :: nat) \<and> (of_char c :: nat) \<le> 57"

definition digit_value :: "char \<Rightarrow> nat" where
  "digit_value c = of_char c - 48"

definition digits_value :: "string \<Rightarrow> nat" where
  "digits_value s = fold (\<lambda>c n. 10 * n + digit_value c) s 0"

text \<open>An optional sign and at least one digit, in the range of \<open>int\<close>.\<close>

definition Atoi :: "string \<Rightarrow> go_error + int" where
  "Atoi s =
     (let neg = (s \<noteq> [] \<and> hd s = CHR ''-'');
          ds = (if s \<noteq> [] \<and> (hd s = CHR ''-'' \<or> hd s = CHR ''+'') then tl s else s);
          n = int (digits_value ds); v = (if neg then - n else n)
      in if ds = [] \<or> \<not> list_all is_digit ds then Inl (Msg ''invalid syntax'')
         else if v < - (2 ^ 63) \<or> 2 ^ 63 \<le> v then Inl (Msg ''value out of range'')
         else Inr v)"

lemma digit_char_value: "n < 10 \<Longrightarrow> is_digit (digit_char n) \<and> digit_value (digit_char n) = n"
  by (auto simp: less_Suc_eq numeral_eq_Suc digit_char_def is_digit_def digit_value_def)

lemma itoa_digits: "list_all is_digit (itoa n) \<and> digits_value (itoa n) = n"
proof (induction n rule: itoa.induct)
  case (1 n)
  show ?case
  proof (cases "n < 10")
    case True
    then show ?thesis using digit_char_value [OF True] by (simp add: itoa.simps digits_value_def)
  next
    case False
    then have "itoa n = itoa (n div 10) @ [digit_char (n mod 10)]" by (subst itoa.simps) simp
    with "1.IH" [OF False] digit_char_value [of "n mod 10"] show ?thesis
      by (simp add: digits_value_def)
  qed
qed

lemma itoa_is_digit: "c \<in> set (itoa n) \<Longrightarrow> is_digit c"
  using itoa_digits [of n] by (simp add: list_all_iff)

lemma digit_plain: "is_digit c \<Longrightarrow> c \<noteq> CHR ''['' \<and> c \<noteq> CHR '']'' \<and> c \<noteq> CHR '':'' \<and> c \<noteq> CHR ''-'' \<and> c \<noteq> CHR ''+'' \<and> c \<noteq> CHR ''.''"
  by (auto simp: is_digit_def)

lemma plain_port_itoa [simp]: "plain_port (itoa n)"
  using digit_plain itoa_is_digit by (fastforce simp: plain_port_def plain_host_def)

lemma Atoi_itoa:
  assumes "n < 2 ^ 63"
  shows "Atoi (itoa n) = Inr (int n)"
proof -
  have "hd (itoa n) \<noteq> CHR ''-'' \<and> hd (itoa n) \<noteq> CHR ''+''"
    using digit_plain [OF itoa_is_digit [of "hd (itoa n)" n]] by simp
  moreover have "int n < int (2 ^ 63)" using assms by (simp only: of_nat_less_iff)
  ultimately show ?thesis
    using itoa_digits [of n] by (simp add: Atoi_def Let_def)
qed

section \<open>ParseIP\<close>

text \<open>
  Four decimal fields of at most three digits, each without a leading zero and at most 255.
\<close>

fun split_on :: "char \<Rightarrow> string \<Rightarrow> string list" where
  "split_on c [] = [[]]"
| "split_on c (x # xs) =
     (if x = c then [] # split_on c xs
      else case split_on c xs of [] \<Rightarrow> [[x]] | y # ys \<Rightarrow> (x # y) # ys)"

definition ip4_field :: "string \<Rightarrow> byte option" where
  "ip4_field f =
     (if f = [] \<or> \<not> list_all is_digit f \<or> 255 < digits_value f \<or> (hd f = CHR ''0'' \<and> 1 < length f)
      then None else Some (word_of_nat (digits_value f)))"

definition parseIPv4 :: "string \<Rightarrow> bytes option" where
  "parseIPv4 s =
     (let fs = split_on CHR ''.'' s in
      if length fs = 4 \<and> list_all (\<lambda>f. ip4_field f \<noteq> None) fs then Some (map (the \<circ> ip4_field) fs)
      else None)"

definition hex_value :: "char \<Rightarrow> nat option" where
  "hex_value c =
     (let n = of_char c :: nat in
      if 48 \<le> n \<and> n \<le> 57 then Some (n - 48)
      else if 97 \<le> n \<and> n \<le> 102 then Some (n - 87)
      else if 65 \<le> n \<and> n \<le> 70 then Some (n - 55)
      else None)"

abbreviation hex_run :: "string \<Rightarrow> string" where
  "hex_run s \<equiv> takeWhile (\<lambda>c. hex_value c \<noteq> None) s"

definition hex_number :: "string \<Rightarrow> nat" where
  "hex_number s = fold (\<lambda>c n. 16 * n + the (hex_value c)) s 0"

text \<open>
  The loop of \<open>parseIPv6\<close>: the rest of the text, the bytes so far and the position of the
  ellipsis. The result is what the loop leaves, \<open>None\<close> an error. It ends because every
  round consumes a digit.
\<close>

function ip6_loop :: "string \<Rightarrow> bytes \<Rightarrow> nat option \<Rightarrow> (string \<times> bytes \<times> nat option) option" where
  "ip6_loop s ip ell =
     (if length ip < 16 then
        (let h = hex_run s; off = length h; s' = drop off s in
         if off = 0 \<or> 4 < off then None
         else if s' \<noteq> [] \<and> hd s' = CHR ''.'' then
           (if (ell = None \<and> length ip \<noteq> 12) \<or> 16 < length ip + 4 then None
            else map_option (\<lambda>v4. ([], ip @ v4, ell)) (parseIPv4 s))
         else
           let ip = ip @ [word_of_nat (hex_number h div 256), word_of_nat (hex_number h)] in
           if s' = [] then Some ([], ip, ell)
           else if hd s' \<noteq> CHR '':'' \<or> length s' = 1 then None
           else if s' ! 1 = CHR '':'' then
             (if ell \<noteq> None then None
              else if length s' = 2 then Some ([], ip, Some (length ip))
              else ip6_loop (drop 2 s') ip (Some (length ip)))
           else ip6_loop (drop 1 s') ip ell)
      else Some (s, ip, ell))"
  by pat_completeness auto
termination
  by (relation "measure (\<lambda>(s, ip, ell). length s)")
    (auto simp: Let_def length_takeWhile_le neq_Nil_conv)

declare ip6_loop.simps [simp del]

definition parseIPv6 :: "string \<Rightarrow> bytes option" where
  "parseIPv6 s =
     (let lead = (2 \<le> length s \<and> take 2 s = ''::'');
          s = (if lead then drop 2 s else s);
          ell = (if lead then Some 0 else None) in
      if lead \<and> s = [] then Some (replicate 16 0)
      else case ip6_loop s [] ell of
             None \<Rightarrow> None
           | Some (s, ip, ell) \<Rightarrow>
               if s \<noteq> [] then None
               else if length ip < 16 then
                 (case ell of
                    None \<Rightarrow> None
                  | Some e \<Rightarrow> Some (take e ip @ replicate (16 - length ip) 0 @ drop e ip))
               else if ell \<noteq> None then None
               else Some ip)"

text \<open>
  The first of \<open>.\<close>, \<open>:\<close> and \<open>%\<close> decides; an address with a zone is refused. The result
  always has sixteen bytes.
\<close>

fun ParseIP_from :: "string \<Rightarrow> string \<Rightarrow> bytes option" where
  "ParseIP_from s [] = None"
| "ParseIP_from s (c # cs) =
     (if c = CHR ''.'' then map_option (\<lambda>v4. v4InV6Prefix @ v4) (parseIPv4 s)
      else if c = CHR '':'' then (if CHR ''%'' \<in> set s then None else parseIPv6 s)
      else if c = CHR ''%'' then None
      else ParseIP_from s cs)"

definition ParseIP :: "string \<Rightarrow> bytes option" where
  "ParseIP s = ParseIP_from s s"

lemma ip4_field_itoa: "ip4_field (itoa (unat (b :: byte))) = Some b"
proof -
  have zero: "hd (itoa n) = CHR ''0'' \<longrightarrow> length (itoa n) = 1 \<and> n = 0" for n
  proof (induction n rule: itoa.induct)
    case (1 n)
    show ?case
    proof (cases "n < 10")
      case True
      then show ?thesis
        by (auto simp: itoa.simps less_Suc_eq numeral_eq_Suc digit_char_def)
    next
      case False
      then have eq: "itoa n = itoa (n div 10) @ [digit_char (n mod 10)]" by (subst itoa.simps) simp
      then have "hd (itoa n) = hd (itoa (n div 10))" by simp
      moreover have "n div 10 \<noteq> 0" using False by simp
      ultimately show ?thesis using "1.IH" [OF False] by simp
    qed
  qed
  have "\<not> 255 < unat b" using unat_byte_le [of b] by linarith
  with zero [of "unat b"] itoa_digits [of "unat b"] show ?thesis
    by (auto simp: ip4_field_def)
qed

lemma split_on_append: "c \<notin> set s \<Longrightarrow> split_on c (s @ c # t) = s # split_on c t"
  by (induction s) auto

lemma split_on_none: "c \<notin> set s \<Longrightarrow> split_on c s = [s]"
  by (induction s) auto

lemma no_dot_itoa: "CHR ''.'' \<notin> set (itoa n)"
  using digit_plain itoa_is_digit by blast

lemma parseIPv4_dotted:
  assumes "length ip = 4"
  shows "parseIPv4 (dotted ip) = Some ip"
proof -
  obtain a b c d where ip: "ip = [a, b, c, d]"
    using assms by (auto simp: length_Suc_conv eval_nat_numeral)
  have "split_on CHR ''.'' (dotted ip) =
      [itoa (unat a), itoa (unat b), itoa (unat c), itoa (unat d)]"
    by (simp add: ip dotted_def join_def split_on_append split_on_none no_dot_itoa)
  then show ?thesis by (simp add: parseIPv4_def ip4_field_itoa ip Let_def)
qed

lemma ParseIP_from_dot:
  assumes "\<forall>c \<in> set xs. is_digit c"
  shows "ParseIP_from s (xs @ CHR ''.'' # ys) = map_option (\<lambda>v4. v4InV6Prefix @ v4) (parseIPv4 s)"
  using assms
proof (induction xs)
  case (Cons x xs)
  then have "x \<noteq> CHR ''.''" "x \<noteq> CHR '':''" "x \<noteq> CHR ''%''" by (auto simp: is_digit_def)
  with Cons show ?case by simp
qed simp

text \<open>The text of an IPv4 address is parsed as that address, in its sixteen-byte form.\<close>

lemma ParseIP_dotted:
  assumes "length ip = 4"
  shows "ParseIP (dotted ip) = Some (v4InV6Prefix @ ip)"
proof -
  obtain a b c d where ip: "ip = [a, b, c, d]"
    using assms by (auto simp: length_Suc_conv eval_nat_numeral)
  obtain ys where "dotted ip = itoa (unat a) @ CHR ''.'' # ys"
    by (simp add: ip dotted_def join_def)
  then show ?thesis
    using ParseIP_from_dot [of "itoa (unat a)" "dotted ip" ys] itoa_is_digit
      parseIPv4_dotted [OF assms] by (simp add: ParseIP_def)
qed

lemma parseIPv4_length: "parseIPv4 s = Some ip \<Longrightarrow> length ip = 4"
  by (auto simp: parseIPv4_def Let_def split: if_splits)

lemma ip6_loop_length:
  "ip6_loop s ip ell = Some (s', ip', ell') \<Longrightarrow> even (length ip) \<Longrightarrow> length ip \<le> 16 \<Longrightarrow>
    even (length ip') \<and> length ip' \<le> 16"
proof (induction s ip ell rule: ip6_loop.induct)
  case (1 s ip ell)
  show ?case
  proof (cases "length ip < 16")
    case True
    then have "length ip + 2 \<le> 16" using "1.prems"(2) by presburger
    with "1.prems" "1.IH" [OF True refl refl refl] True show ?thesis
      by (auto simp: ip6_loop.simps [of s ip ell] Let_def parseIPv4_length split: if_splits)
  next
    case False
    with "1.prems" show ?thesis by (simp add: ip6_loop.simps [of s ip ell])
  qed
qed

lemma parseIPv6_length: "parseIPv6 s = Some ip \<Longrightarrow> length ip = 16"
  by (auto simp: parseIPv6_def Let_def split: if_splits option.splits dest!: ip6_loop_length)

lemma ParseIP_length:
  assumes "ParseIP s = Some ip"
  shows "length ip = 16"
proof -
  have "ParseIP_from s t = Some ip \<Longrightarrow> length ip = 16" for t
    by (induction s t rule: ParseIP_from.induct)
      (auto simp: parseIPv6_length v4InV6Prefix_def dest: parseIPv4_length split: if_splits)
  with assms show ?thesis by (simp add: ParseIP_def)
qed

lemma To4_mapped: "length ip = 4 \<Longrightarrow> To4 (v4InV6Prefix @ ip) = Some ip"
  by (simp add: To4_def v4InV6Prefix_def)

section \<open>Base64\<close>

definition b64_char :: "nat \<Rightarrow> char" where
  "b64_char n =
     (if n < 26 then char_of (65 + n)
      else if n < 52 then char_of (97 + (n - 26))
      else if n < 62 then char_of (48 + (n - 52))
      else if n = 62 then CHR ''+'' else CHR ''/'')"

fun b64_Encode :: "bytes \<Rightarrow> string" where
  "b64_Encode (a # b # c # rest) =
     (let v = unat a * 65536 + unat b * 256 + unat c
      in [b64_char (v div 262144), b64_char (v div 4096 mod 64), b64_char (v div 64 mod 64),
          b64_char (v mod 64)] @ b64_Encode rest)"
| "b64_Encode [a, b] =
     (let v = unat a * 65536 + unat b * 256
      in [b64_char (v div 262144), b64_char (v div 4096 mod 64), b64_char (v div 64 mod 64), CHR ''=''])"
| "b64_Encode [a] =
     (let v = unat a * 65536
      in [b64_char (v div 262144), b64_char (v div 4096 mod 64), CHR ''='', CHR ''=''])"
| "b64_Encode [] = []"

end
