(* ===== verification/Http_Response.thy ===== *)
theory Http_Response
  imports Go_Net
begin

text \<open>
  What \<open>HttpProxy\<close> uses of the standard library to talk to a proxy: the buffered reader of
  package \<open>bufio\<close> over a connection, the line reader of \<open>net/textproto\<close>,
  \<open>http.ReadResponse\<close> up to the end of the response head, and the text \<open>WriteProxy\<close>
  sends for a \<open>CONNECT\<close>. The loops are written as the library has them, so that their
  return is a theorem; the results are stated on the bytes of the stream alone, whatever
  the sizes in which they arrive.
\<close>

section \<open>bufio.Reader\<close>

definition ErrNoProgress :: go_error where
  "ErrNoProgress = Msg ''multiple Read calls return no data or error''"

definition defaultBufSize :: nat where "defaultBufSize = 4096"
definition maxConsecutiveEmptyReads :: nat where "maxConsecutiveEmptyReads = 100"

record bufio =
  bf_buf :: bytes
  bf_err :: "go_error option"
  bf_rd :: istream

definition NewReader :: "istream \<Rightarrow> bufio" where
  "NewReader s = \<lparr>bf_buf = [], bf_err = None, bf_rd = s\<rparr>"

definition Buffered :: "bufio \<Rightarrow> nat" where
  "Buffered b = length (bf_buf b)"

definition Peek :: "bufio \<Rightarrow> nat \<Rightarrow> bytes" where
  "Peek b n = take n (bf_buf b)"

text \<open>\<open>fill\<close>, the argument counts the reads that are left.\<close>

primrec bf_fill :: "nat \<Rightarrow> bufio \<Rightarrow> bufio" where
  "bf_fill 0 b = b\<lparr>bf_err := Some ErrNoProgress\<rparr>"
| "bf_fill (Suc i) b =
     (case is_read (bf_rd b) (defaultBufSize - length (bf_buf b)) of
        ((bs, e), rd) \<Rightarrow>
          let b = b\<lparr>bf_buf := bf_buf b @ bs, bf_rd := rd\<rparr>
          in if e \<noteq> None then b\<lparr>bf_err := e\<rparr> else if bs \<noteq> [] then b else bf_fill i b)"

definition until_LF :: "bytes \<Rightarrow> bytes" where
  "until_LF bs = takeWhile (\<lambda>c. c \<noteq> 0x0a) bs @ [0x0a]"

text \<open>\<open>ReadSlice('\n')\<close>; the flag is the error \<open>ErrBufferFull\<close>.\<close>

partial_function (option) bf_ReadSlice :: "bufio \<Rightarrow> (bytes \<times> bool \<times> go_error option \<times> bufio) option" where
  "bf_ReadSlice b =
     (if 0x0a \<in> set (bf_buf b)
      then let line = until_LF (bf_buf b)
           in Some (line, False, None, b\<lparr>bf_buf := drop (length line) (bf_buf b)\<rparr>)
      else if bf_err b \<noteq> None
      then Some (bf_buf b, False, bf_err b, b\<lparr>bf_buf := [], bf_err := None\<rparr>)
      else if defaultBufSize \<le> length (bf_buf b)
      then Some (bf_buf b, True, None, b\<lparr>bf_buf := []\<rparr>)
      else bf_ReadSlice (bf_fill maxConsecutiveEmptyReads b))"

text \<open>\<open>ReadLine\<close>: the line without its end, whether it goes on, the error.\<close>

definition strip_eol :: "bytes \<Rightarrow> bytes" where
  "strip_eol line =
     (if line \<noteq> [] \<and> last line = 0x0a
      then let l = butlast line in if l \<noteq> [] \<and> last l = 0x0d then butlast l else l
      else line)"

definition bf_ReadLine :: "bufio \<Rightarrow> (bytes \<times> bool \<times> go_error option \<times> bufio) option" where
  "bf_ReadLine b =
     (case bf_ReadSlice b of
        None \<Rightarrow> None
      | Some (line, full, err, b) \<Rightarrow>
          if full then
            (if line \<noteq> [] \<and> last line = 0x0d
             then Some (butlast line, True, None, b\<lparr>bf_buf := 0x0d # bf_buf b\<rparr>)
             else Some (line, True, None, b))
          else if line = [] then Some ([], False, err, b)
          else Some (strip_eol line, False, None, b))"

section \<open>textproto and http.ReadResponse\<close>

partial_function (option) tp_ReadLine :: "bytes \<Rightarrow> bufio \<Rightarrow> ((go_error + bytes) \<times> bufio) option" where
  "tp_ReadLine acc b =
     (case bf_ReadLine b of
        None \<Rightarrow> None
      | Some (l, isPrefix, err, b) \<Rightarrow>
          if err \<noteq> None then Some (Inl (the err), b)
          else if isPrefix then tp_ReadLine (acc @ l) b
          else Some (Inr (acc @ l), b))"

text \<open>The lines of the header, up to the empty line that ends it.\<close>

partial_function (option) tp_header :: "bytes list \<Rightarrow> bufio \<Rightarrow> ((go_error + bytes list) \<times> bufio) option" where
  "tp_header acc b =
     (case tp_ReadLine [] b of
        None \<Rightarrow> None
      | Some (Inl e, b) \<Rightarrow> Some (Inl e, b)
      | Some (Inr l, b) \<Rightarrow> if l = [] then Some (Inr acc, b) else tp_header (acc @ [l]) b)"

definition unexpected :: "go_error \<Rightarrow> go_error" where
  "unexpected e = (if e = EOF then ErrUnexpectedEOF else e)"

text \<open>\<open>strings.Cut\<close> at a blank.\<close>

definition cut_blank :: "string \<Rightarrow> (string \<times> string) option" where
  "cut_blank s =
     (if CHR '' '' \<in> set s
      then Some (takeWhile (\<lambda>c. c \<noteq> CHR '' '') s, tl (dropWhile (\<lambda>c. c \<noteq> CHR '' '') s))
      else None)"

definition ParseHTTPVersion :: "string \<Rightarrow> bool" where
  "ParseHTTPVersion v \<longleftrightarrow>
     length v = 8 \<and> take 5 v = ''HTTP/'' \<and> v ! 6 = CHR ''.'' \<and> is_digit (v ! 5) \<and> is_digit (v ! 7)"

definition malformed :: "string \<Rightarrow> go_error" where
  "malformed what = Msg (''malformed HTTP '' @ what)"

text \<open>The status line: a version and a code of three characters.\<close>

definition parse_status :: "string \<Rightarrow> go_error + int" where
  "parse_status line =
     (case cut_blank line of
        None \<Rightarrow> Inl (malformed ''response'')
      | Some (proto, rest) \<Rightarrow>
          let status = dropWhile (\<lambda>c. c = CHR '' '') rest;
              code = takeWhile (\<lambda>c. c \<noteq> CHR '' '') status
          in if length code \<noteq> 3 then Inl (malformed ''status code'')
             else (case Atoi code of
                    Inl _ \<Rightarrow> Inl (malformed ''status code'')
                  | Inr n \<Rightarrow>
                      if n < 0 then Inl (malformed ''status code'')
                      else if \<not> ParseHTTPVersion proto then Inl (malformed ''version'')
                      else Inr n))"

text \<open>
  \<open>ReadResponse\<close>. The parameter \<open>bad_header\<close> is the verdict of the library on the header
  fields (their syntax and the transfer encoding they announce). The body is not read.
\<close>

definition ReadResponse ::
  "(bytes list \<Rightarrow> go_error option) \<Rightarrow> bufio \<Rightarrow> ((go_error + int) \<times> bufio) option" where
  "ReadResponse bad_header b =
     (case tp_ReadLine [] b of
        None \<Rightarrow> None
      | Some (Inl e, b) \<Rightarrow> Some (Inl (unexpected e), b)
      | Some (Inr line, b) \<Rightarrow>
         (case parse_status (string_of_bytes line) of
            Inl e \<Rightarrow> Some (Inl e, b)
          | Inr code \<Rightarrow>
             (case tp_header [] b of
                None \<Rightarrow> None
              | Some (Inl e, b) \<Rightarrow> Some (Inl (unexpected e), b)
              | Some (Inr hdr, b) \<Rightarrow>
                 (case bad_header hdr of
                    Some e \<Rightarrow> Some (Inl e, b)
                  | None \<Rightarrow> Some (Inr code, b)))))"

section \<open>The loops return\<close>

definition pending :: "bufio \<Rightarrow> bytes" where
  "pending b = bf_buf b @ content (bf_rd b)"

text \<open>The stream behind the buffer, and whether its end has been seen.\<close>

definition behind :: "bufio \<Rightarrow> nat" where
  "behind b = length (content (bf_rd b)) + (if bf_err b = None then 1 else 0)"

lemma length_pending_push: "length (pending (b\<lparr>bf_buf := c # bf_buf b\<rparr>)) = Suc (length (pending b))"
  by (simp add: pending_def)

lemma bf_fill_pending [simp]: "pending (bf_fill i b) = pending b"
proof (induction i arbitrary: b)
  case (Suc i)
  obtain bs e rd where r: "is_read (bf_rd b) (defaultBufSize - length (bf_buf b)) = ((bs, e), rd)"
    by (metis prod.exhaust)
  with is_read_spec(1) [OF r] Suc show ?case by (simp add: pending_def Let_def)
qed (simp add: pending_def)

lemma bf_fill_progress: "bf_err b = None \<Longrightarrow> behind (bf_fill i b) < behind b"
proof (induction i arbitrary: b)
  case (Suc i)
  obtain bs e rd where r: "is_read (bf_rd b) (defaultBufSize - length (bf_buf b)) = ((bs, e), rd)"
    by (metis prod.exhaust)
  let ?b = "b\<lparr>bf_buf := bf_buf b @ bs, bf_rd := rd\<rparr>"
  have "behind (bf_fill i ?b) < behind ?b" using Suc by simp
  with r is_read_spec(1) [OF r] Suc.prems show ?case
    by (auto simp: behind_def Let_def)
qed (simp add: behind_def)

lemma length_until_LF: "c = 0x0a \<Longrightarrow> c \<in> set bs \<Longrightarrow> length (until_LF bs) \<le> length bs"
  by (induction bs) (auto simp: until_LF_def)

lemma bf_ReadSlice_returns:
  "\<exists>line full e b'. bf_ReadSlice b = Some (line, full, e, b') \<and>
     length (pending b) = length line + length (pending b') \<and> (full \<longrightarrow> 4096 \<le> length line) \<and>
     (e = None \<and> \<not> full \<longrightarrow> line \<noteq> [])"
proof (induction "behind b" arbitrary: b rule: less_induct)
  case less
  consider "0x0a \<in> set (bf_buf b)" | "0x0a \<notin> set (bf_buf b)" "bf_err b \<noteq> None \<or> defaultBufSize \<le> length (bf_buf b)"
    | "0x0a \<notin> set (bf_buf b)" "bf_err b = None" "\<not> defaultBufSize \<le> length (bf_buf b)" by blast
  then show ?case
  proof cases
    case 1
    then show ?thesis
      using length_until_LF [OF refl 1]
      by (simp add: bf_ReadSlice.simps [of b] pending_def Let_def) (auto simp: until_LF_def)
  next
    case 2
    then show ?thesis
      by (cases "bf_err b"; simp add: bf_ReadSlice.simps [of b] pending_def defaultBufSize_def; blast)
  next
    case 3
    then show ?thesis
      using less [OF bf_fill_progress [OF 3(2)], of maxConsecutiveEmptyReads]
      by (simp add: bf_ReadSlice.simps [of b])
  qed
qed

lemma length_strip_eol: "length (strip_eol l) \<le> length l"
  by (auto simp: strip_eol_def Let_def)

lemma bf_ReadLine_returns:
  "\<exists>l isPrefix e b'. bf_ReadLine b = Some (l, isPrefix, e, b') \<and>
     length (pending b') \<le> length (pending b) \<and>
     (isPrefix \<or> e = None \<and> l \<noteq> [] \<longrightarrow> length (pending b') < length (pending b))"
proof -
  obtain line full e b' where s: "bf_ReadSlice b = Some (line, full, e, b')"
    "length (pending b) = length line + length (pending b')" "full \<longrightarrow> 4096 \<le> length line"
    using bf_ReadSlice_returns [of b] by blast
  consider "full" "line \<noteq> [] \<and> last line = 0x0d" | "full" "\<not> (line \<noteq> [] \<and> last line = 0x0d)"
    | "\<not> full" "line = []" | "\<not> full" "line \<noteq> []" by blast
  then show ?thesis
  proof cases
    case 1
    with s(1) have "bf_ReadLine b = Some (butlast line, True, None, b'\<lparr>bf_buf := 0x0d # bf_buf b'\<rparr>)"
      by (simp add: bf_ReadLine_def)
    moreover have "length (pending (b'\<lparr>bf_buf := 0x0d # bf_buf b'\<rparr>)) < length (pending b)"
      using 1 s(2,3) by (simp add: length_pending_push)
    ultimately show ?thesis using less_imp_le by blast
  next
    case 2
    then have "bf_ReadLine b = Some (line, True, None, b')" using s(1) by (auto simp: bf_ReadLine_def)
    moreover have "length (pending b') < length (pending b)" using 2 s(2,3) by (cases line) simp_all
    ultimately show ?thesis using less_imp_le by blast
  next
    case 3
    with s(1) have "bf_ReadLine b = Some ([], False, e, b')" by (simp add: bf_ReadLine_def)
    moreover have "length (pending b') \<le> length (pending b)" using s(2) by simp
    ultimately show ?thesis by blast
  next
    case 4
    with s(1) have "bf_ReadLine b = Some (strip_eol line, False, None, b')" by (simp add: bf_ReadLine_def)
    moreover have "length (pending b') < length (pending b)" using 4 s(2) by simp
    ultimately show ?thesis using less_imp_le by blast
  qed
qed

lemma tp_ReadLine_returns:
  "\<exists>r b'. tp_ReadLine acc b = Some (r, b') \<and> length (pending b') \<le> length (pending b) \<and>
     (\<forall>l. r = Inr l \<and> l \<noteq> acc \<longrightarrow> length (pending b') < length (pending b))"
proof (induction "length (pending b)" arbitrary: acc b rule: less_induct)
  case less
  obtain l isPrefix e b' where r: "bf_ReadLine b = Some (l, isPrefix, e, b')"
    "length (pending b') \<le> length (pending b)"
    "isPrefix \<or> e = None \<and> l \<noteq> [] \<longrightarrow> length (pending b') < length (pending b)"
    using bf_ReadLine_returns [of b] by blast
  show ?case
  proof (cases "e = None \<and> isPrefix")
    case True
    with less [of b' "acc @ l"] r obtain x b'' where
      "tp_ReadLine (acc @ l) b' = Some (x, b'')" "length (pending b'') \<le> length (pending b')"
      by blast
    with True r show ?thesis by (auto simp: tp_ReadLine.simps [of acc b])
  next
    case False
    with r show ?thesis by (cases e) (auto simp: tp_ReadLine.simps [of acc b])
  qed
qed

lemma tp_header_returns: "\<exists>r b'. tp_header acc b = Some (r, b')"
proof (induction "length (pending b)" arbitrary: acc b rule: less_induct)
  case less
  obtain x b' where r: "tp_ReadLine [] b = Some (x, b')"
    "\<forall>l. x = Inr l \<and> l \<noteq> [] \<longrightarrow> length (pending b') < length (pending b)"
    using tp_ReadLine_returns [of "[]" b] by blast
  show ?case
  proof (cases x)
    case (Inl e)
    with r show ?thesis by (simp add: tp_header.simps [of acc b])
  next
    case (Inr l)
    with r less [of b' "acc @ [l]"] show ?thesis
      by (cases "l = []") (simp_all add: tp_header.simps [of acc b])
  qed
qed

lemma ReadResponse_returns: "\<exists>r b'. ReadResponse bad b = Some (r, b')"
proof -
  obtain x b1 where 1: "tp_ReadLine [] b = Some (x, b1)" using tp_ReadLine_returns [of "[]" b] by blast
  obtain y b2 where 2: "tp_header [] b1 = Some (y, b2)" using tp_header_returns [of "[]" b1] by blast
  show ?thesis
    by (auto simp: ReadResponse_def 1 2 split: sum.splits option.splits)
qed

section \<open>What the head is\<close>

text \<open>
  The library gives up on a connection that returns nothing a hundred times in a row; a
  \<open>net.Conn\<close> does not, and a rewound one does so once.
\<close>

definition empties :: "istream \<Rightarrow> nat" where
  "empties s = length (filter (\<lambda>c. c = []) (is_chunks s))"

definition calm :: "go_error \<Rightarrow> bufio \<Rightarrow> bool" where
  "calm e b \<longleftrightarrow> is_err (bf_rd b) = e \<and> empties (bf_rd b) < 100 \<and> (bf_err b \<noteq> None \<longrightarrow> content (bf_rd b) = [])"

lemma calm_NewReader [simp]: "calm e (NewReader s) \<longleftrightarrow> is_err s = e \<and> empties s < 100"
  by (simp add: calm_def NewReader_def)

lemma pending_NewReader [simp]: "pending (NewReader s) = content s"
  by (simp add: pending_def NewReader_def)

lemma calm_push [simp]: "calm e (b\<lparr>bf_buf := x\<rparr>) = calm e b"
  by (simp add: calm_def)

lemma is_read_empties:
  "is_read s n = ((bs, e), s') \<Longrightarrow> 0 < n \<Longrightarrow>
    empties s' \<le> empties s \<and> (bs = [] \<and> e = None \<longrightarrow> Suc (empties s') = empties s)"
  by (auto simp: is_read_def empties_def split: list.splits if_splits)

lemma bf_fill_calm:
  assumes "length (bf_buf b) < defaultBufSize" "bf_err b = None" "empties (bf_rd b) < i"
  shows "is_err (bf_rd (bf_fill i b)) = is_err (bf_rd b) \<and>
    empties (bf_rd (bf_fill i b)) \<le> empties (bf_rd b) \<and>
    (bf_err (bf_fill i b) \<noteq> None \<longrightarrow> content (bf_rd (bf_fill i b)) = [])"
  using assms
proof (induction i arbitrary: b)
  case (Suc i)
  obtain bs e rd where r: "is_read (bf_rd b) (defaultBufSize - length (bf_buf b)) = ((bs, e), rd)"
    by (metis prod.exhaust)
  note em = is_read_empties [OF r] and sp = is_read_spec [OF r]
  show ?case
  proof (cases "e = None \<and> bs = []")
    case True
    let ?b = "b\<lparr>bf_buf := bf_buf b @ bs, bf_rd := rd\<rparr>"
    have "empties (bf_rd ?b) < i" using em True Suc.prems by simp
    with Suc.IH [of ?b] True Suc.prems em sp(3) r show ?thesis by (simp add: Let_def)
  next
    case False
    with r em sp Suc.prems show ?thesis by (cases e) (auto simp: Let_def)
  qed
qed simp

lemma takeWhile_to: "c \<notin> set us \<Longrightarrow> takeWhile (\<lambda>x. x \<noteq> c) (us @ c # vs) = us"
  by (induction us) auto

lemma dropWhile_to: "c \<notin> set us \<Longrightarrow> dropWhile (\<lambda>x. x \<noteq> c) (us @ c # vs) = c # vs"
  by (induction us) auto

lemma append_eq_with_LF:
  assumes "xs @ ys = l @ c # rest" "c \<notin> set l"
  shows "c \<in> set xs \<Longrightarrow> takeWhile (\<lambda>x. x \<noteq> c) xs = l \<and> drop (Suc (length l)) xs @ ys = rest"
    and "c \<notin> set xs \<Longrightarrow> \<exists>l'. l = xs @ l' \<and> ys = l' @ c # rest"
proof -
  assume "c \<in> set xs"
  then obtain us vs where xs: "xs = us @ c # vs" "c \<notin> set us" by (meson split_list_first)
  with assms takeWhile_to [OF xs(2), of "vs @ ys"] takeWhile_to [OF assms(2), of rest]
  have "us = l" by simp
  with xs assms(1) show "takeWhile (\<lambda>x. x \<noteq> c) xs = l \<and> drop (Suc (length l)) xs @ ys = rest"
    by (simp add: takeWhile_to)
next
  assume c: "c \<notin> set xs"
  from assms(1) obtain us where
    "xs = l @ us \<and> us @ ys = c # rest \<or> xs @ us = l \<and> ys = us @ c # rest"
    by (auto simp: append_eq_append_conv2)
  with c show "\<exists>l'. l = xs @ l' \<and> ys = l' @ c # rest"
    by (cases us) auto
qed

lemma bf_ReadSlice_line:
  assumes "calm e b" "pending b = l @ 0x0a # rest" "0x0a \<notin> set l"
  shows "\<exists>b'. calm e b' \<and>
    (bf_ReadSlice b = Some (l @ [0x0a], False, None, b') \<and> pending b' = rest \<or>
     (\<exists>c l'. l = c @ l' \<and> 4096 \<le> length c \<and> bf_ReadSlice b = Some (c, True, None, b') \<and>
        bf_buf b' = [] \<and> pending b' = l' @ 0x0a # rest))"
  using assms
proof (induction "behind b" arbitrary: b rule: less_induct)
  case less
  have p: "bf_buf b @ content (bf_rd b) = l @ 0x0a # rest" using less.prems(2) by (simp add: pending_def)
  consider "0x0a \<in> set (bf_buf b)" | "0x0a \<notin> set (bf_buf b)" "bf_err b \<noteq> None"
    | "0x0a \<notin> set (bf_buf b)" "bf_err b = None" "defaultBufSize \<le> length (bf_buf b)"
    | "0x0a \<notin> set (bf_buf b)" "bf_err b = None" "length (bf_buf b) < defaultBufSize" by fastforce
  then show ?case
  proof cases
    case 1
    from append_eq_with_LF(1) [OF p less.prems(3) 1] have
      "until_LF (bf_buf b) = l @ [0x0a]" "drop (Suc (length l)) (bf_buf b) @ content (bf_rd b) = rest"
      by (simp_all add: until_LF_def)
    with 1 less.prems(1) show ?thesis
      by (simp add: bf_ReadSlice.simps [of b] Let_def pending_def)
  next
    case 2
    with less.prems(1) p show ?thesis by (auto simp: calm_def)
  next
    case 3
    from append_eq_with_LF(2) [OF p less.prems(3) 3(1)] 3 less.prems(1) show ?thesis
      by (force simp: bf_ReadSlice.simps [of b] pending_def defaultBufSize_def)
  next
    case 4
    let ?b = "bf_fill maxConsecutiveEmptyReads b"
    have "calm e ?b"
      using bf_fill_calm [OF 4(3,2), of maxConsecutiveEmptyReads] less.prems(1)
      by (simp add: calm_def maxConsecutiveEmptyReads_def)
    from less.hyps [OF bf_fill_progress [OF 4(2)] this _ less.prems(3)] less.prems(2) 4 show ?thesis
      by (simp add: bf_ReadSlice.simps [of b])
  qed
qed

definition strip_cr :: "bytes \<Rightarrow> bytes" where
  "strip_cr l = (if l \<noteq> [] \<and> last l = 0x0d then butlast l else l)"

lemma strip_eol_LF: "strip_eol (l @ [0x0a]) = strip_cr l"
  by (simp add: strip_eol_def strip_cr_def Let_def)

lemma strip_cr_append: "l' \<noteq> [] \<Longrightarrow> strip_cr (c @ l') = c @ strip_cr l'"
  by (simp add: strip_cr_def butlast_append)

lemma tp_ReadLine_line:
  assumes "calm e b" "pending b = l @ 0x0a # rest" "0x0a \<notin> set l"
  shows "\<exists>b'. tp_ReadLine acc b = Some (Inr (acc @ strip_cr l), b') \<and> calm e b' \<and> pending b' = rest"
  using assms
proof (induction "length l" arbitrary: acc b l rule: less_induct)
  case less
  from bf_ReadSlice_line [OF less.prems] obtain b' where "calm e b'" and
    "bf_ReadSlice b = Some (l @ [0x0a], False, None, b') \<and> pending b' = rest \<or>
     (\<exists>c l'. l = c @ l' \<and> 4096 \<le> length c \<and> bf_ReadSlice b = Some (c, True, None, b') \<and>
        bf_buf b' = [] \<and> pending b' = l' @ 0x0a # rest)" by blast
  from this(2) show ?case
  proof (elim disjE exE conjE)
    assume "bf_ReadSlice b = Some (l @ [0x0a], False, None, b')" "pending b' = rest"
    with \<open>calm e b'\<close> show ?thesis
      by (simp add: tp_ReadLine.simps [of acc b] bf_ReadLine_def strip_eol_LF)
  next
    fix c l'
    assume c: "l = c @ l'" "4096 \<le> length c" "bf_ReadSlice b = Some (c, True, None, b')"
      "bf_buf b' = []" "pending b' = l' @ 0x0a # rest"
    have ne: "c \<noteq> []" using c(2) by (cases c) simp_all
    show ?thesis
    proof (cases "last c = 0x0d")
      case True
      let ?b = "b'\<lparr>bf_buf := [0x0d]\<rparr>"
      have "pending ?b = (0x0d # l') @ 0x0a # rest" using c by (simp add: pending_def)
      moreover have "0x0a \<notin> set (0x0d # l' :: bytes)" using less.prems(3) c by simp
      moreover have "length (0x0d # l') < length l" using c by simp
      ultimately obtain b'' where "tp_ReadLine (acc @ butlast c) ?b =
          Some (Inr ((acc @ butlast c) @ strip_cr (0x0d # l')), b'')" "calm e b''" "pending b'' = rest"
        using less.hyps [of "0x0d # l'" ?b "acc @ butlast c"] \<open>calm e b'\<close> by auto
      moreover have "l = butlast c @ 0x0d # l'" using c(1) ne True
        by (metis append.assoc append_Cons append_Nil append_butlast_last_id)
      from arg_cong [OF this, of strip_cr] have "strip_cr l = butlast c @ strip_cr (0x0d # l')"
        using strip_cr_append [of "0x0d # l'" "butlast c"] by simp
      ultimately show ?thesis using c(3,4) True ne
        by (simp add: tp_ReadLine.simps [of acc b] bf_ReadLine_def)
    next
      case False
      have "length l' < length l" using c(1) ne by simp
      with less.hyps [OF this \<open>calm e b'\<close> c(5), of "acc @ c"] less.prems(3) c(1) obtain b'' where
        "tp_ReadLine (acc @ c) b' = Some (Inr ((acc @ c) @ strip_cr l'), b'')" "calm e b''" "pending b'' = rest"
        by auto
      moreover have "strip_cr l = c @ strip_cr l'"
        using c(1) ne False by (cases "l' = []") (auto simp: strip_cr_append, simp add: strip_cr_def)
      ultimately show ?thesis using c(3) False ne
        by (simp add: tp_ReadLine.simps [of acc b] bf_ReadLine_def)
    qed
  qed
qed

definition CRLF :: bytes where "CRLF = [0x0d, 0x0a]"

definition head_lines :: "bytes list \<Rightarrow> bytes" where
  "head_lines ls = concat (map (\<lambda>l. l @ CRLF) ls)"

text \<open>A response head: status line, header lines, empty line.\<close>

definition response_head :: "bytes \<Rightarrow> bytes list \<Rightarrow> bytes" where
  "response_head status hdr = head_lines (status # hdr) @ CRLF"

definition header_line :: "bytes \<Rightarrow> bool" where
  "header_line l \<longleftrightarrow> l \<noteq> [] \<and> 0x0a \<notin> set l"

lemma tp_ReadLine_CRLF:
  assumes "calm e b" "pending b = l @ CRLF @ rest" "0x0a \<notin> set l"
  shows "\<exists>b'. tp_ReadLine [] b = Some (Inr l, b') \<and> calm e b' \<and> pending b' = rest"
  using tp_ReadLine_line [OF assms(1), of "l @ [0x0d]" rest "[]"] assms
  by (simp add: CRLF_def strip_cr_def)

lemma tp_header_lines:
  assumes "calm e b" "pending b = head_lines hdr @ CRLF @ rest" "\<forall>l \<in> set hdr. header_line l"
  shows "\<exists>b'. tp_header acc b = Some (Inr (acc @ hdr), b') \<and> calm e b' \<and> pending b' = rest"
  using assms
proof (induction hdr arbitrary: acc b)
  case Nil
  with tp_ReadLine_CRLF [of e b "[]" rest] show ?case
    by (auto simp: tp_header.simps [of acc b] head_lines_def)
next
  case (Cons h hdr)
  then have "pending b = h @ CRLF @ (head_lines hdr @ CRLF @ rest)" "0x0a \<notin> set h" "h \<noteq> []"
    by (simp_all add: head_lines_def header_line_def)
  from tp_ReadLine_CRLF [OF Cons.prems(1) this(1,2)] obtain b' where b':
    "tp_ReadLine [] b = Some (Inr h, b')" "calm e b'" "pending b' = head_lines hdr @ CRLF @ rest" by blast
  from Cons.IH [OF this(2,3), of "acc @ [h]"] Cons.prems(3) b'(1) \<open>h \<noteq> []\<close> show ?case
    by (simp add: tp_header.simps [of acc b])
qed

text \<open>The head is consumed to its last byte, and nothing behind it is lost.\<close>

lemma ReadResponse_head:
  assumes "calm e b" "pending b = response_head status hdr @ rest" "0x0a \<notin> set status"
    "\<forall>l \<in> set hdr. header_line l" "parse_status (string_of_bytes status) = Inr code" "bad hdr = None"
  shows "\<exists>b'. ReadResponse bad b = Some (Inr code, b') \<and> calm e b' \<and> pending b' = rest"
proof -
  have "pending b = status @ CRLF @ (head_lines hdr @ CRLF @ rest)"
    using assms(2) by (simp add: response_head_def head_lines_def)
  from tp_ReadLine_CRLF [OF assms(1) this assms(3)] obtain b1 where b1:
    "tp_ReadLine [] b = Some (Inr status, b1)" "calm e b1" "pending b1 = head_lines hdr @ CRLF @ rest" by blast
  from tp_header_lines [OF b1(2,3) assms(4), of "[]"] b1(1) assms(5,6) show ?thesis
    by (auto simp: ReadResponse_def)
qed

end
