(* ===== verification/Proxies.thy ===== *)
theory Proxies
  imports Dialers Http_Response Json_Utils Domaintree Rawconn
begin

text \<open>
  The proxies of \<open>app/proxy.go\<close> beyond the two trivial ones: \<open>EnvProxy\<close> and \<open>SocksProxy\<close>,
  whose dialers are third-party code and parameters here, \<open>HttpProxy\<close> with the request it
  writes and the response it reads, and \<open>BlockDomain\<close> in front of another proxy. A value of
  one of these types is the record of its fields; a field that holds an interface is an
  option, and a method called on a nil one panics. \<open>LoadModule\<close> is a parameter.
\<close>

type_synonym dial_fun = "string \<Rightarrow> string \<Rightarrow> net \<Rightarrow> ((go_error + nat) \<times> net) run"
type_synonym loader = "json \<Rightarrow> go_error + proxy_ops"

text \<open>\<open>proxy_or_none\<close> is the choice of \<open>p.proxy\<close> that every \<open>Provision\<close> starts with.\<close>

definition proxy_or_none :: "loader \<Rightarrow> json option \<Rightarrow> go_error + proxy_ops" where
  "proxy_or_none LoadModule raw = (case raw of None \<Rightarrow> Inr NoProxy | Some r \<Rightarrow> LoadModule r)"

definition close_proxy :: "proxy_ops option \<Rightarrow> net \<Rightarrow> (go_error option \<times> net) run" where
  "close_proxy px w = on_proxy px (\<lambda>p. px_Close p w)"

section \<open>EnvProxy\<close>

record env_proxy =
  ep_ProxyRaw :: "json option"
  ep_proxy :: "proxy_ops option"
  ep_dialer :: "dial_fun option"

definition EnvProxy_Provision ::
  "loader \<Rightarrow> (proxy_ops \<Rightarrow> dial_fun) \<Rightarrow> dial_fun \<Rightarrow> env_proxy \<Rightarrow> go_error + env_proxy" where
  "EnvProxy_Provision LoadModule FromEnvironmentUsing FromEnvironment p =
     (case ep_ProxyRaw p of
        Some raw \<Rightarrow>
          (case LoadModule raw of
             Inl e \<Rightarrow> Inl e
           | Inr px \<Rightarrow> Inr (p\<lparr>ep_proxy := Some px, ep_dialer := Some (FromEnvironmentUsing px)\<rparr>))
      | None \<Rightarrow> Inr (p\<lparr>ep_proxy := Some NoProxy, ep_dialer := Some FromEnvironment\<rparr>))"

definition EnvProxy_Dial :: "env_proxy \<Rightarrow> dial_fun" where
  "EnvProxy_Dial p network addr w = on_proxy (ep_dialer p) (\<lambda>d. d network addr w)"

definition EnvProxy_ListenPacket :: "env_proxy \<Rightarrow> dial_fun" where
  "EnvProxy_ListenPacket p network addr w =
     ret (Inl (Msg ''proxy from environment does not support UDP''), w)"

definition EnvProxy_Close :: "env_proxy \<Rightarrow> net \<Rightarrow> (go_error option \<times> net) run" where
  "EnvProxy_Close p = close_proxy (ep_proxy p)"

definition EnvProxy :: "env_proxy \<Rightarrow> proxy_ops" where
  "EnvProxy p = \<lparr>px_Close = EnvProxy_Close p, px_Dial = EnvProxy_Dial p,
     px_ListenPacket = EnvProxy_ListenPacket p\<rparr>"

section \<open>SocksProxy\<close>

text \<open>User and password are both given or both missing.\<close>

definition auth_error :: "string \<Rightarrow> string \<Rightarrow> go_error option" where
  "auth_error user password =
     (if user = [] \<and> password \<noteq> [] then Some (Msg ''empty user'')
      else if user \<noteq> [] \<and> password = [] then Some (Msg ''empty password'')
      else None)"

record socks_proxy =
  sk_ProxyRaw :: "json option"
  sk_Server :: string
  sk_User :: string
  sk_Password :: string
  sk_proxy :: "proxy_ops option"
  sk_dialer :: "dial_fun option"

type_synonym socks5 = "string \<Rightarrow> string \<Rightarrow> (string \<times> string) option \<Rightarrow> proxy_ops \<Rightarrow> go_error + dial_fun"

definition SocksProxy_Provision :: "loader \<Rightarrow> socks5 \<Rightarrow> socks_proxy \<Rightarrow> go_error + socks_proxy" where
  "SocksProxy_Provision LoadModule SOCKS5 p =
     (case auth_error (sk_User p) (sk_Password p) of
        Some e \<Rightarrow> Inl e
      | None \<Rightarrow>
         (case proxy_or_none LoadModule (sk_ProxyRaw p) of
            Inl e \<Rightarrow> Inl e
          | Inr px \<Rightarrow>
             (case SOCKS5 ''tcp'' (sk_Server p)
                     (if sk_User p = [] \<and> sk_Password p = [] then None
                      else Some (sk_User p, sk_Password p)) px of
                Inl e \<Rightarrow> Inl e
              | Inr d \<Rightarrow> Inr (p\<lparr>sk_proxy := Some px, sk_dialer := Some d\<rparr>))))"

definition SocksProxy_Dial :: "socks_proxy \<Rightarrow> dial_fun" where
  "SocksProxy_Dial p network addr w = on_proxy (sk_dialer p) (\<lambda>d. d network addr w)"

definition SocksProxy_ListenPacket :: "socks_proxy \<Rightarrow> dial_fun" where
  "SocksProxy_ListenPacket p network addr w =
     ret (Inl (Msg ''socks5 UDP Associate not supported''), w)"

definition SocksProxy_Close :: "socks_proxy \<Rightarrow> net \<Rightarrow> (go_error option \<times> net) run" where
  "SocksProxy_Close p = close_proxy (sk_proxy p)"

definition SocksProxy :: "socks_proxy \<Rightarrow> proxy_ops" where
  "SocksProxy p = \<lparr>px_Close = SocksProxy_Close p, px_Dial = SocksProxy_Dial p,
     px_ListenPacket = SocksProxy_ListenPacket p\<rparr>"

section \<open>HttpProxy\<close>

record http_proxy =
  hp_ProxyRaw :: "json option"
  hp_Server :: string
  hp_User :: string
  hp_Password :: string
  hp_proxy :: "proxy_ops option"
  hp_basicAuth :: string
  hp_tcpURL :: string

definition HttpProxy_Provision :: "loader \<Rightarrow> http_proxy \<Rightarrow> go_error + http_proxy" where
  "HttpProxy_Provision LoadModule p =
     (case auth_error (hp_User p) (hp_Password p) of
        Some e \<Rightarrow> Inl e
      | None \<Rightarrow>
         (case proxy_or_none LoadModule (hp_ProxyRaw p) of
            Inl e \<Rightarrow> Inl e
          | Inr px \<Rightarrow>
              Inr (p\<lparr>hp_proxy := Some px,
                     hp_basicAuth :=
                       (if hp_User p \<noteq> [] \<and> hp_Password p \<noteq> []
                        then ''basic '' @ b64_Encode (bytes_of_string (hp_User p @ '':'' @ hp_Password p))
                        else hp_basicAuth p),
                     hp_tcpURL := ''http://'' @ hp_Server p\<rparr>)))"

definition validateProxyTarget :: "string \<Rightarrow> go_error option" where
  "validateProxyTarget addr =
     (if set addr \<inter> {CHR 0x0D, CHR 0x0A, CHR 0x00, CHR '' '', CHR 0x09} \<noteq> {}
      then Some (Msg ''invalid target address: control characters are not allowed'')
      else None)"

text \<open>
  What the HTTP library is asked: \<open>NewRequest\<close> parses the URL of the proxy (a host without a
  path) and gives the host it sends, and it judges the header of the response.
\<close>

record http_lib =
  hl_NewRequest :: "string \<Rightarrow> go_error + string"
  hl_bad_header :: "bytes list \<Rightarrow> go_error option"

definition crlf :: string where "crlf = [CHR 0x0D, CHR 0x0A]"

definition control_char :: "char \<Rightarrow> bool" where
  "control_char c \<longleftrightarrow> (of_char c :: nat) < 32 \<or> (of_char c :: nat) = 127"

text \<open>The text of \<open>WriteProxy\<close> for a \<open>CONNECT\<close> whose URL has the opaque part \<open>opaque\<close>.\<close>

definition connect_request :: "string \<Rightarrow> string \<Rightarrow> string \<Rightarrow> string" where
  "connect_request host uri auth =
     ''CONNECT '' @ uri @ '' HTTP/1.1'' @ crlf @
     ''Host: '' @ host @ crlf @
     ''User-Agent: Go-http-client/1.1'' @ crlf @
     (if auth = [] then [] else ''Proxy-Authorization: '' @ auth @ crlf) @ crlf"

definition WriteProxy :: "string \<Rightarrow> string \<Rightarrow> string \<Rightarrow> nat \<Rightarrow> net \<Rightarrow> go_error option \<times> net" where
  "WriteProxy host opaque auth h w =
     (let uri = (if opaque = [] then ''http://'' @ host @ ''/'' else opaque) in
      if \<not> list_all (\<lambda>c. \<not> control_char c) uri
      then (Some (Msg ''net/http: can't write control character in Request.URL''), w)
      else net_Write h (bytes_of_string (connect_request host uri auth)) w)"

definition StatusOK :: int where "StatusOK = 200"

text \<open>The connection handed out reads what the reader has left, first what is buffered.\<close>

definition rest_of :: "bufio \<Rightarrow> istream" where
  "rest_of br = (if 0 < Buffered br then conn_view (NewConn (bf_rd br) (Peek br (Buffered br))) else bf_rd br)"

text \<open>The exchange on the connection to the proxy: every failure closes it.\<close>

definition http_connect ::
  "http_lib \<Rightarrow> http_proxy \<Rightarrow> string \<Rightarrow> nat \<Rightarrow> net \<Rightarrow> ((go_error + nat) \<times> net) run" where
  "http_connect lib p addr h w =
     (case hl_NewRequest lib (hp_tcpURL p) of
        Inl e \<Rightarrow> ret (Inl (Wrap ''request error: '' e), net_Close h w)
      | Inr host \<Rightarrow>
         (case WriteProxy host addr (hp_basicAuth p) h w of
            (Some e, w) \<Rightarrow> ret (Inl (Wrap ''write request error: '' e), net_Close h w)
          | (None, w) \<Rightarrow>
             (case ReadResponse (hl_bad_header lib) (NewReader (nc_in (nt_conns w ! h))) of
                None \<Rightarrow> None
              | Some (resp, br) \<Rightarrow>
                  let w = net_upd h (\<lambda>c. c\<lparr>nc_in := rest_of br\<rparr>) w in
                  (case resp of
                     Inl e \<Rightarrow> ret (Inl (Wrap ''read response error: '' e), net_Close h w)
                   | Inr code \<Rightarrow>
                       if code \<noteq> StatusOK
                       then ret (Inl (Msg (''server status code error: '' @ itoa (nat code))),
                                 net_Close h w)
                       else ret (Inr h, w)))))"

definition HttpProxy_Dial :: "http_lib \<Rightarrow> http_proxy \<Rightarrow> dial_fun" where
  "HttpProxy_Dial lib p network addr w =
     (case validateProxyTarget addr of
        Some e \<Rightarrow> ret (Inl e, w)
      | None \<Rightarrow> on_proxy (hp_proxy p) (\<lambda>px.
          cont (px_Dial px ''tcp'' (hp_Server p) w) (\<lambda>(r, w).
            case r of Inl e \<Rightarrow> ret (Inl e, w) | Inr h \<Rightarrow> http_connect lib p addr h w)))"

definition HttpProxy_ListenPacket :: "http_proxy \<Rightarrow> dial_fun" where
  "HttpProxy_ListenPacket p network addr w =
     ret (Inl (Msg ''does not support UDP for http proxy''), w)"

definition HttpProxy_Close :: "http_proxy \<Rightarrow> net \<Rightarrow> (go_error option \<times> net) run" where
  "HttpProxy_Close p = close_proxy (hp_proxy p)"

definition HttpProxy :: "http_lib \<Rightarrow> http_proxy \<Rightarrow> proxy_ops" where
  "HttpProxy lib p = \<lparr>px_Close = HttpProxy_Close p, px_Dial = HttpProxy_Dial lib p,
     px_ListenPacket = HttpProxy_ListenPacket p\<rparr>"

section \<open>BlockDomain\<close>

record block_domain =
  bd_ProxyRaw :: "json option"
  bd_DomainList :: "string list"
  bd_proxy :: "proxy_ops option"
  bd_node :: nodep

text \<open>\<open>JSONModuleObject\<close> of caddy: the JSON of a value, and the field that names its module.\<close>

type_synonym module_object = "json \<Rightarrow> string \<Rightarrow> string \<Rightarrow> json"

definition BlockDomain_Provision ::
  "loader \<Rightarrow> module_object \<Rightarrow> block_domain \<Rightarrow> (go_error + block_domain) outcome" where
  "BlockDomain_Provision LoadModule JSONModuleObject p =
     (let raw = (case bd_ProxyRaw p of
                   None \<Rightarrow> JSONModuleObject (JObj []) ''proxy'' ''none'' | Some r \<Rightarrow> r)
      in case LoadModule raw of
           Inl e \<Rightarrow> Returns (Inl e)
         | Inr px \<Rightarrow>
             and_then (put_all (Some NewNode) (bd_DomainList p)) (\<lambda>nd.
               Returns (Inr (p\<lparr>bd_ProxyRaw := Some raw, bd_proxy := Some px, bd_node := nd\<rparr>))))"

definition Exist :: "block_domain \<Rightarrow> string \<Rightarrow> bool outcome" where
  "Exist d domain = Get (bd_node d) domain"

definition BlockDomain_Dial :: "block_domain \<Rightarrow> dial_fun" where
  "BlockDomain_Dial d network addr w =
     (case SplitHostPort addr of
        Inl e \<Rightarrow> ret (Inl (Wrap (''dial '' @ addr @ '' error: '') e), w)
      | Inr (address, _) \<Rightarrow>
          cont (Some (Exist d address)) (\<lambda>blocked.
            if blocked then ret (Inl (Msg ''blocked domain''), w)
            else on_proxy (bd_proxy d) (\<lambda>px. px_Dial px network addr w)))"

definition BlockDomain_ListenPacket :: "block_domain \<Rightarrow> dial_fun" where
  "BlockDomain_ListenPacket d network addr w =
     (case SplitHostPort addr of
        Inl e \<Rightarrow>
          if addr = [] then on_proxy (bd_proxy d) (\<lambda>px. px_ListenPacket px network addr w)
          else ret (Inl (Wrap (''listenPacket '' @ addr @ '' error: '') e), w)
      | Inr (address, _) \<Rightarrow>
          cont (Some (Exist d address)) (\<lambda>blocked.
            if blocked then ret (Inl (Msg ''blocked domain''), w)
            else on_proxy (bd_proxy d) (\<lambda>px. px_ListenPacket px network addr w)))"

definition BlockDomain_Close :: "block_domain \<Rightarrow> net \<Rightarrow> (go_error option \<times> net) run" where
  "BlockDomain_Close p = close_proxy (bd_proxy p)"

definition BlockDomain :: "block_domain \<Rightarrow> proxy_ops" where
  "BlockDomain d = \<lparr>px_Close = BlockDomain_Close d, px_Dial = BlockDomain_Dial d,
     px_ListenPacket = BlockDomain_ListenPacket d\<rparr>"

section \<open>Closing a chain\<close>

lemmas close_defs = close_proxy_def EnvProxy_Close_def SocksProxy_Close_def HttpProxy_Close_def
  BlockDomain_Close_def

text \<open>
  The packet connections that \<open>SocksProxy\<close> and \<open>HttpProxy\<close> return together with an error: empty
  structs, whose \<open>WriteTo\<close> and \<open>ReadFrom\<close> do nothing and report no error, and whose embedded
  connections are nil, so that closing one panics. A nil interface is \<open>None\<close>.
\<close>

record socks_packet_conn =
  sp_PacketConn :: "nat option"
  sp_conn :: "nat option"

definition socksPacketConn_WriteTo :: "socks_packet_conn \<Rightarrow> bytes \<Rightarrow> string \<Rightarrow> nat \<times> go_error option" where
  "socksPacketConn_WriteTo c b addr = (0, None)"

definition socksPacketConn_ReadFrom ::
  "socks_packet_conn \<Rightarrow> bytes \<Rightarrow> nat \<times> string option \<times> go_error option" where
  "socksPacketConn_ReadFrom c b = (0, None, None)"

definition socksPacketConn_Close :: "socks_packet_conn \<Rightarrow> net \<Rightarrow> (go_error option \<times> net) run" where
  "socksPacketConn_Close c w =
     on_proxy (sp_conn c) (\<lambda>h. on_proxy (sp_PacketConn c) (\<lambda>pc. ret (None, net_Close pc (net_Close h w))))"

record http_packet_conn =
  hpc_Conn :: "nat option"

definition httpPacketConn_WriteTo :: "http_packet_conn \<Rightarrow> bytes \<Rightarrow> string \<Rightarrow> nat \<times> go_error option" where
  "httpPacketConn_WriteTo c b addr = (0, None)"

definition httpPacketConn_ReadFrom ::
  "http_packet_conn \<Rightarrow> bytes \<Rightarrow> nat \<times> string option \<times> go_error option" where
  "httpPacketConn_ReadFrom c b = (0, None, None)"

lemma empty_packet_conn_close:
  "socksPacketConn_Close \<lparr>sp_PacketConn = None, sp_conn = None\<rparr> w = Some (Panics NilDeref)"
  by (simp add: socksPacketConn_Close_def)

section \<open>The contract of a dialer\<close>

lemma owns_error: "owns w (Inl e) w' \<Longrightarrow> owns w (Inl e') w'"
  by (simp add: owns_def)

lemma owns_WriteProxy:
  "owns w (Inr h) w1 \<Longrightarrow> WriteProxy host addr auth h w1 = (e, w2) \<Longrightarrow> owns w (Inr h) w2"
  by (auto simp: WriteProxy_def Let_def owns_Write split: if_splits)

lemma http_connect_returns: "http_connect lib p addr h w \<noteq> None"
proof (cases "hl_NewRequest lib (hp_tcpURL p)")
  case (Inr host)
  obtain e w2 where wr: "WriteProxy host addr (hp_basicAuth p) h w = (e, w2)" by (metis prod.exhaust)
  obtain resp br where
    "ReadResponse (hl_bad_header lib) (NewReader (nc_in (nt_conns w2 ! h))) = Some (resp, br)"
    using ReadResponse_returns by blast
  with Inr wr show ?thesis
    by (cases e; cases resp) (simp_all add: http_connect_def Let_def)
qed (simp add: http_connect_def)

lemma http_connect_owns:
  assumes own: "owns w (Inr h) w1" and run: "http_connect lib p addr h w1 = ret (r, w')"
  shows "owns w r w'"
proof (cases "hl_NewRequest lib (hp_tcpURL p)")
  case (Inl e)
  with run own show ?thesis by (auto simp: http_connect_def owns_Close)
next
  case (Inr host)
  obtain e w2 where wr: "WriteProxy host addr (hp_basicAuth p) h w1 = (e, w2)" by (metis prod.exhaust)
  have w2: "owns w (Inr h) w2" by (rule owns_WriteProxy [OF own wr])
  show ?thesis
  proof (cases e)
    case (Some x)
    with run Inr wr w2 show ?thesis by (auto simp: http_connect_def owns_Close)
  next
    case None
    obtain resp br where rr:
      "ReadResponse (hl_bad_header lib) (NewReader (nc_in (nt_conns w2 ! h))) = Some (resp, br)"
      using ReadResponse_returns by blast
    let ?w3 = "net_upd h (\<lambda>c. c\<lparr>nc_in := rest_of br\<rparr>) w2"
    have "owns w (Inr h) ?w3"
      using owns_upd [OF w2] owns_result(3) [OF w2] by simp
    with run Inr wr None rr show ?thesis
      by (auto simp: http_connect_def Let_def owns_Close split: sum.splits if_splits)
  qed
qed

context dialer
begin

lemma http_dial_returns: "hp_proxy hp = Some p \<Longrightarrow> HttpProxy_Dial lib hp network addr w \<noteq> None"
  by (auto simp: HttpProxy_Dial_def cont_returns dial_returns http_connect_returns
      simp del: not_None_eq split: option.splits sum.splits)

lemma http_dial_owns:
  assumes "hp_proxy hp = Some p" "HttpProxy_Dial lib hp network addr w = ret (r, w')"
  shows "owns w r w'"
proof (cases "validateProxyTarget addr")
  case None
  with assms obtain r1 w1 where 1: "px_Dial p ''tcp'' (hp_Server hp) w = ret (r1, w1)"
    "(case r1 of Inl e \<Rightarrow> ret (Inl e, w1) | Inr h \<Rightarrow> http_connect lib hp addr h w1) = ret (r, w')"
    by (auto simp: HttpProxy_Dial_def cont_ret_iff)
  with dial_owns [OF 1(1)] show ?thesis
    by (cases r1) (auto dest: http_connect_owns)
qed (use assms in \<open>auto simp: HttpProxy_Dial_def\<close>)

lemma block_dial_returns: "bd_proxy d = Some p \<Longrightarrow> BlockDomain_Dial d network addr w \<noteq> None"
  by (auto simp: BlockDomain_Dial_def cont_returns dial_returns
      simp del: not_None_eq split: sum.splits)

lemma block_dial_owns:
  assumes "bd_proxy d = Some p" "BlockDomain_Dial d network addr w = ret (r, w')"
  shows "owns w r w'"
  using assms
  by (auto simp: BlockDomain_Dial_def cont_ret_iff split: sum.splits if_splits dest: dial_owns)

end

text \<open>A proxy in front of another proxy that keeps the contract keeps it.\<close>

locale http_chain = dialer p for p :: proxy_ops +
  fixes lib :: http_lib and hp :: http_proxy
  assumes over: "hp_proxy hp = Some p"

sublocale http_chain \<subseteq> http: dialer "HttpProxy lib hp"
  by unfold_locales
    (simp_all add: HttpProxy_def http_dial_returns [OF over] http_dial_owns [OF over])

context http_chain
begin

lemma is_dialer: "dialer (HttpProxy lib hp)"
  by (rule http.dialer_axioms)

end

locale block_chain = dialer p for p :: proxy_ops +
  fixes d :: block_domain
  assumes behind: "bd_proxy d = Some p"

sublocale block_chain \<subseteq> block: dialer "BlockDomain d"
  by unfold_locales
    (simp_all add: BlockDomain_def block_dial_returns [OF behind] block_dial_owns [OF behind])

context block_chain
begin

lemma is_dialer: "dialer (BlockDomain d)"
  by (rule block.dialer_axioms)

end

interpretation http_direct: http_chain NoProxy lib "hp\<lparr>hp_proxy := Some NoProxy\<rparr>" for lib hp
  by unfold_locales simp

interpretation block_direct: block_chain NoProxy "d\<lparr>bd_proxy := Some NoProxy\<rparr>" for d
  by unfold_locales simp

section \<open>Through an HTTP proxy\<close>

lemma pending_rest_of:
  "content (rest_of br) = pending br" "is_err (rest_of br) = is_err (bf_rd br)"
  by (auto simp: rest_of_def pending_def Buffered_def Peek_def conn_view_NewConn)

lemma validated_target:
  "validateProxyTarget addr = None \<longleftrightarrow>
    (\<forall>c \<in> set addr. c \<notin> {CHR 0x0D, CHR 0x0A, CHR 0x00, CHR '' '', CHR 0x09})"
  by (auto simp: validateProxyTarget_def)

text \<open>
  When the proxy answers a CONNECT with a well-formed head of status 200, however the
  answer is cut into packets, the dial succeeds with the connection to the proxy and nothing
  else left open; what was written is the request for exactly that target; and the connection
  reads precisely the bytes behind the head, those that arrived together with it included.
\<close>

lemma http_tunnel:
  assumes px: "hp_proxy p = Some px" "dialer px"
      "px_Dial px ''tcp'' (hp_Server p) w = ret (Inr h, w1)"
    and target: "validateProxyTarget addr = None" "addr \<noteq> []" "list_all (\<lambda>c. \<not> control_char c) addr"
    and host: "hl_NewRequest lib (hp_tcpURL p) = Inr host"
    and peer: "nc_wres (nt_conns w1 ! h) = []" "empties (nc_in (nt_conns w1 ! h)) < 100"
      "content (nc_in (nt_conns w1 ! h)) = response_head status hdr @ payload"
    and head: "0x0a \<notin> set status" "\<forall>l \<in> set hdr. header_line l"
      "parse_status (string_of_bytes status) = Inr StatusOK" "hl_bad_header lib hdr = None"
  shows "\<exists>w'. HttpProxy_Dial lib p network addr w = ret (Inr h, w') \<and> new_open w w' = [h] \<and>
    nc_out (nt_conns w' ! h) =
      nc_out (nt_conns w1 ! h) @ bytes_of_string (connect_request host addr (hp_basicAuth p)) \<and>
    content (nc_in (nt_conns w' ! h)) = payload \<and>
    is_err (nc_in (nt_conns w' ! h)) = is_err (nc_in (nt_conns w1 ! h))"
proof -
  let ?c = "nt_conns w1 ! h" and ?req = "bytes_of_string (connect_request host addr (hp_basicAuth p))"
  note own = dialer.dial_owns [OF px(2,3)]
  note h = owns_result [OF own]
  obtain w2 where w2: "WriteProxy host addr (hp_basicAuth p) h w1 = (None, w2)"
    "w2 = net_upd h (\<lambda>c. c\<lparr>nc_out := nc_out c @ ?req, nc_wres := drop 1 (nc_wres c)\<rparr>) w1"
    using h target peer(1) by (simp add: WriteProxy_def net_Write_def Let_def)
  then have c2: "nc_in (nt_conns w2 ! h) = nc_in ?c" "nc_out (nt_conns w2 ! h) = nc_out ?c @ ?req"
    "h < length (nt_conns w2)" using h(2) by (simp_all add: net_upd_def)
  have "calm (is_err (nc_in ?c)) (NewReader (nc_in ?c))" using peer(2) by simp
  moreover have "pending (NewReader (nc_in ?c)) = response_head status hdr @ payload"
    using peer(3) by simp
  ultimately obtain br where br:
    "ReadResponse (hl_bad_header lib) (NewReader (nc_in ?c)) = Some (Inr StatusOK, br)"
    "calm (is_err (nc_in ?c)) br" "pending br = payload"
    using ReadResponse_head [where bad = "hl_bad_header lib", OF _ _ head] by blast
  let ?w = "net_upd h (\<lambda>c. c\<lparr>nc_in := rest_of br\<rparr>) w2"
  have "http_connect lib p addr h w1 = ret (Inr h, ?w)"
    using host w2(1) br(1) c2(1) by (simp add: http_connect_def Let_def)
  then have run: "HttpProxy_Dial lib p network addr w = ret (Inr h, ?w)"
    using px target(1) by (simp add: HttpProxy_Dial_def)
  have "new_open w ?w = [h]"
    using http_connect_owns [OF own \<open>http_connect lib p addr h w1 = _\<close>] by (simp add: owns_def)
  moreover have "nt_conns ?w ! h = (nt_conns w2 ! h)\<lparr>nc_in := rest_of br\<rparr>"
    using c2(3) by (simp add: net_upd_def)
  ultimately show ?thesis
    using run c2 br pending_rest_of [of br] by (simp add: calm_def)
qed

definition sample_proxy :: http_proxy where
  "sample_proxy = \<lparr>hp_ProxyRaw = None, hp_Server = ''p:80'', hp_User = [], hp_Password = [],
     hp_proxy = Some NoProxy, hp_basicAuth = [], hp_tcpURL = ''http://p:80''\<rparr>"

definition sample_lib :: http_lib where
  "sample_lib = \<lparr>hl_NewRequest = (\<lambda>u. Inr (drop 7 u)), hl_bad_header = (\<lambda>_. None)\<rparr>"

text \<open>An answer in three packets, the second with the end of the head and the first data.\<close>

definition sample_peer :: netconn where
  "sample_peer =
     \<lparr>nc_in = \<lparr>is_chunks = [bytes_of_string ''HTTP/1.1 200 '', bytes_of_string ''OK'' @ CRLF @ CRLF @ [1, 2], [3]],
               is_last = [], is_err = EOF\<rparr>,
      nc_out = [], nc_wres = [], nc_open = True\<rparr>"

definition sample_net :: net where
  "sample_net = \<lparr>nt_dials = [Inr sample_peer], nt_log = [], nt_conns = []\<rparr>"

abbreviation "sample_dialed \<equiv>
  \<lparr>nt_dials = [], nt_log = [(''tcp'', ''p:80'')], nt_conns = [sample_peer]\<rparr>"

abbreviation "sample_status \<equiv> bytes_of_string ''HTTP/1.1 200 OK''"

lemma sample_exchange:
  "hp_proxy sample_proxy = Some NoProxy"
  "px_Dial NoProxy ''tcp'' (hp_Server sample_proxy) sample_net = ret (Inr 0, sample_dialed)"
  "hl_NewRequest sample_lib (hp_tcpURL sample_proxy) = Inr ''p:80''"
  "nc_wres (nt_conns sample_dialed ! 0) = []" "empties (nc_in (nt_conns sample_dialed ! 0)) < 100"
  "content (nc_in (nt_conns sample_dialed ! 0)) = response_head sample_status [] @ [1, 2, 3]"
  "0x0a \<notin> set sample_status" "\<forall>l \<in> set []. header_line l"
  "hl_bad_header sample_lib [] = None" "hp_basicAuth sample_proxy = []"
  by (simp_all add: sample_proxy_def NoProxy_def NoProxy_Dial_def net_Dial_def sample_net_def
      sample_peer_def sample_lib_def empties_def content_def response_head_def head_lines_def
      bytes_of_string_def)

lemma sample_status_ok: "parse_status (string_of_bytes sample_status) = Inr StatusOK"
  by (simp add: parse_status_def cut_blank_def Atoi_def is_digit_def digits_value_def
      digit_value_def ParseHTTPVersion_def StatusOK_def)

text \<open>
  A target that passes the check cannot break out of the request line: the first line of
  the request is \<open>CONNECT\<close>, the target and the version, and the target is its second word,
  unchanged.
\<close>

theorem target_stays_in_its_line:
  assumes "validateProxyTarget addr = None"
  shows "takeWhile (\<lambda>c. c \<noteq> CHR 0x0A) (connect_request host addr auth) =
      ''CONNECT '' @ addr @ '' HTTP/1.1'' @ [CHR 0x0D] \<and>
    cut_blank (''CONNECT '' @ addr @ '' HTTP/1.1'') = Some (''CONNECT'', addr @ '' HTTP/1.1'') \<and>
    cut_blank (addr @ '' HTTP/1.1'') = Some (addr, ''HTTP/1.1'')"
proof -
  have no: "CHR 0x0A \<notin> set addr" "CHR '' '' \<notin> set addr"
    using assms by (auto simp: validated_target)
  have "takeWhile (\<lambda>c. c \<noteq> CHR 0x0A) ((''CONNECT '' @ addr @ '' HTTP/1.1'' @ [CHR 0x0D]) @ CHR 0x0A # r) =
      ''CONNECT '' @ addr @ '' HTTP/1.1'' @ [CHR 0x0D]" for r
    by (rule takeWhile_to) (use no in auto)
  then have "takeWhile (\<lambda>c. c \<noteq> CHR 0x0A) (connect_request host addr auth) =
      ''CONNECT '' @ addr @ '' HTTP/1.1'' @ [CHR 0x0D]"
    by (simp add: connect_request_def crlf_def)
  moreover have "cut_blank (addr @ '' HTTP/1.1'') = Some (addr, ''HTTP/1.1'')"
    using takeWhile_to [OF no(2), of "''HTTP/1.1''"] dropWhile_to [OF no(2), of "''HTTP/1.1''"]
    by (simp add: cut_blank_def)
  ultimately show ?thesis by (simp add: cut_blank_def)
qed

theorem target_stays_in_its_line_witness:
  "cut_blank (''a.b:1'' @ '' HTTP/1.1'') = Some (''a.b:1'', ''HTTP/1.1'')"
proof -
  have "validateProxyTarget ''a.b:1'' = None" by (simp add: validateProxyTarget_def)
  from target_stays_in_its_line [OF this, of "''h''" "[]"] show ?thesis by blast
qed

section \<open>Behind a block list\<close>

lemma SplitHostPort_empty: "\<exists>e. SplitHostPort [] = Inl e"
  by (simp add: SplitHostPort_def LastIndexByte_def)

text \<open>
  A \<open>BlockDomain\<close> provisioned with a list without wildcards refuses a dial, without
  touching the network, exactly when the labels of the host are the last labels of a listed
  domain, and hands any other dial on unchanged. The packet socket of a UDP session is never
  refused, since it is asked for without an address: the list does not apply to datagrams.
\<close>

theorem blocked_domains_are_not_dialed:
  assumes "BlockDomain_Provision LoadModule jmo d0 = Returns (Inr d)"
    "\<forall>x \<in> set (bd_DomainList d0). no_wildcard x" "plain_host host" "plain_port port"
  shows "\<exists>px. bd_proxy d = Some px \<and>
    px_Dial (BlockDomain d) network (JoinHostPort host port) w =
      (if \<exists>x \<in> set (bd_DomainList d0). suffix (labels host) (labels x)
       then ret (Inl (Msg ''blocked domain''), w)
       else px_Dial px network (JoinHostPort host port) w) \<and>
    px_ListenPacket (BlockDomain d) ''udp'' [] w = px_ListenPacket px ''udp'' [] w"
proof -
  obtain nd where nd: "put_all (Some NewNode) (bd_DomainList d0) = Returns nd" "plain nd"
    "\<And>js. has_path nd js \<longleftrightarrow> js = [] \<or> (\<exists>x \<in> set (bd_DomainList d0). suffix js (labels x))"
    using put_all_plain [OF plain_NewNode assms(2)] by auto
  with assms(1) obtain px where d: "bd_proxy d = Some px" "bd_node d = nd"
    by (auto simp: BlockDomain_Provision_def Let_def split: sum.splits)
  have "Exist d host = Returns (\<exists>x \<in> set (bd_DomainList d0). suffix (labels host) (labels x))"
    using nd by (simp add: Exist_def d Get_def load_plain)
  with Split_Join [OF assms(3,4)] SplitHostPort_empty d(1) show ?thesis
    by (auto simp: BlockDomain_def BlockDomain_Dial_def BlockDomain_ListenPacket_def)
qed

theorem blocked_domains_are_not_dialed_witness:
  "\<exists>d. BlockDomain_Provision (\<lambda>_. Inr NoProxy) (\<lambda>v f n. JObj [(f, JStr n)])
      \<lparr>bd_ProxyRaw = None, bd_DomainList = [''ads.x''], bd_proxy = None, bd_node = None\<rparr> = Returns (Inr d) \<and>
    px_Dial (BlockDomain d) ''tcp'' (JoinHostPort ''ads.x'' ''80'') sample_net =
      ret (Inl (Msg ''blocked domain''), sample_net)"
proof -
  let ?d0 = "\<lparr>bd_ProxyRaw = None, bd_DomainList = [''ads.x''], bd_proxy = None, bd_node = None\<rparr>"
  have nw: "\<forall>x \<in> set (bd_DomainList ?d0). no_wildcard x"
    by (simp add: no_wildcard_def labels_def trim_dot_def)
  obtain nd where "put_all (Some NewNode) (bd_DomainList ?d0) = Returns nd"
    using put_all_plain [OF plain_NewNode nw] by auto
  then obtain d where d: "BlockDomain_Provision (\<lambda>_. Inr NoProxy) (\<lambda>v f n. JObj [(f, JStr n)]) ?d0 = Returns (Inr d)"
    by (simp add: BlockDomain_Provision_def)
  have "plain_host ''ads.x''" "plain_port ''80''" by (simp_all add: plain_host_def plain_port_def)
  from blocked_domains_are_not_dialed [OF d nw this, of "''tcp''" sample_net] d show ?thesis by auto
qed



end
