(* ===== verification/Tunnel_Session.thy ===== *)
theory Tunnel_Session
  imports Trojan_Header Proxies
begin

text \<open>
  A whole session on the network: \<open>HandleWithDialer\<close> of \<open>pkgs/trojan/trojan.go\<close> with one of
  the proxies of \<open>app/proxy.go\<close> as its dialer. The theories of the tunnels take the result of
  the dial and what is read from the remote as inputs; here the dial is a call of the proxy on
  the state of the network, what is read is what arrives on the connection it returned, and
  what the tunnel writes is appended to it. The locale \<open>packet_dialer\<close> adds the contract of
  \<open>ListenPacket\<close> to that of \<open>Dial\<close>.
\<close>

section \<open>The contract of a dialer for both kinds of session\<close>

locale packet_dialer = dialer +
  assumes listen_returns: "px_ListenPacket p network addr w \<noteq> None"
    and listen_owns: "px_ListenPacket p network addr w = ret (r, w') \<Longrightarrow> owns w r w'"

interpretation direct_packets: packet_dialer NoProxy
  by unfold_locales (simp_all add: NoProxy_def NoProxy_ListenPacket_def owns_net_Dial)

interpretation drop_packets: packet_dialer DropProxy
  by unfold_locales (auto simp: DropProxy_def DropProxy_ListenPacket_def)

sublocale http_chain \<subseteq> http_packets: packet_dialer "HttpProxy lib hp"
  by unfold_locales (auto simp: HttpProxy_def HttpProxy_ListenPacket_def)

locale block_packet_chain = block_chain + packet_dialer

sublocale block_packet_chain \<subseteq> block_packets: packet_dialer "BlockDomain d"
proof unfold_locales
  fix network addr w r w'
  show "px_ListenPacket (BlockDomain d) network addr w \<noteq> None"
    using behind listen_returns
    by (auto simp: BlockDomain_def BlockDomain_ListenPacket_def cont_returns
        simp del: not_None_eq split: sum.splits)
  assume "px_ListenPacket (BlockDomain d) network addr w = ret (r, w')"
  then show "owns w r w'"
    using behind
    by (auto simp: BlockDomain_def BlockDomain_ListenPacket_def cont_ret_iff
        split: sum.splits if_splits dest: listen_owns)
qed

context block_packet_chain
begin

lemma is_packet_dialer: "packet_dialer (BlockDomain d)"
  by (rule block_packets.packet_dialer_axioms)

end

interpretation block_packets_direct: block_packet_chain NoProxy "d\<lparr>bd_proxy := Some NoProxy\<rparr>" for d
  by unfold_locales

section \<open>A session over a proxy\<close>

text \<open>
  The environment of \<open>HandleTCP\<close> when the dial has returned the connection \<open>h\<close>. How the
  writes to it end stays an input of the tunnel.
\<close>

definition dialed :: "nat \<Rightarrow> net \<Rightarrow> tcp_env \<Rightarrow> tcp_env" where
  "dialed h w te =
     te\<lparr>dial := (\<lambda>_. None), down_src := nc_in (nt_conns w ! h),
        up_dst := (up_dst te)\<lparr>os_data := []\<rparr>\<rparr>"

text \<open>What the tunnel did to the connection.\<close>

definition settle :: "nat \<Rightarrow> session \<Rightarrow> net \<Rightarrow> net" where
  "settle h x w =
     (case x of
        TcpSession run \<Rightarrow>
          (let w = net_upd h (\<lambda>c. c\<lparr>nc_out := nc_out c @ to_remote run\<rparr>) w
           in if RcClose \<in> set (main_acts run) then net_Close h w else w)
      | _ \<Rightarrow> w)"

definition connect_over ::
  "proxy_ops \<Rightarrow> tcp_env \<Rightarrow> Addr \<Rightarrow> net \<Rightarrow> (handled \<times> net) run" where
  "connect_over p te addr w =
     (if alloc_byte_err te \<noteq> None
      then cont (Some (handle_connect te addr)) (\<lambda>x. ret (x, w))
      else cont (Some (Addr_String addr)) (\<lambda>s.
           cont (px_Dial p ''tcp'' s w) (\<lambda>(r, w).
             case r of
               Inl e \<Rightarrow>
                 cont (Some (handle_connect (te\<lparr>dial := (\<lambda>_. Some e)\<rparr>) addr)) (\<lambda>x. ret (x, w))
             | Inr h \<Rightarrow>
                 cont (Some (handle_connect (dialed h w te) addr)) (\<lambda>x.
                   ret (x, settle h (hw_session x) w)))))"

definition associate_over :: "proxy_ops \<Rightarrow> udp_env \<Rightarrow> net \<Rightarrow> (handled \<times> net) run" where
  "associate_over p ue w =
     (if udp_alloc_byte_err ue \<noteq> None
      then cont (Some (handle_associate ue)) (\<lambda>x. ret (x, w))
      else cont (px_ListenPacket p ''udp'' [] w) (\<lambda>(r, w).
             case r of
               Inl e \<Rightarrow>
                 cont (Some (handle_associate (ue\<lparr>listen_packet := Some e\<rparr>))) (\<lambda>x. ret (x, w))
             | Inr h \<Rightarrow>
                 cont (Some (handle_associate (ue\<lparr>listen_packet := None\<rparr>))) (\<lambda>x.
                   ret (x, net_Close h w))))"

fun run_of :: "'a run outcome \<Rightarrow> 'a run" where
  "run_of (Returns m) = m"
| "run_of (Panics x) = Some (Panics x)"

definition serve_over ::
  "proxy_ops \<Rightarrow> istream \<Rightarrow> tcp_env \<Rightarrow> udp_env \<Rightarrow> net \<Rightarrow> (handled \<times> net) run" where
  "serve_over p r te ue w =
     run_of (with_request r (\<lambda>e. ret (refused e, w))
       (\<lambda>r addr. Returns (connect_over p (te\<lparr>up_src := r\<rparr>) addr w))
       (\<lambda>r. Returns (associate_over p (ue\<lparr>client := r\<rparr>) w)))"

section \<open>Nothing is left open\<close>

lemma owns_settle:
  assumes "owns w (Inr h) w1" "RcClose \<in> set (main_acts run)"
  shows "owns w (Inl e) (settle h (TcpSession run) w1)"
proof -
  have "owns w (Inr h) (net_upd h (\<lambda>c. c\<lparr>nc_out := nc_out c @ to_remote run\<rparr>) w1)"
    using owns_upd [OF assms(1)] owns_result(3) [OF assms(1)] by simp
  then show ?thesis using assms(2) by (simp add: settle_def Let_def owns_Close)
qed

lemma handle_connect_closes:
  assumes "handle_connect (dialed h w te) addr = Returns x" "alloc_byte_err te = None"
  obtains run where "hw_session x = TcpSession run" "RcClose \<in> set (main_acts run)"
  using assms HandleTCP_closes [of "dialed h w te" addr]
  by (auto simp: handle_connect_def and_then_eq_Returns dialed_def)

context dialer
begin

lemma connect_returns: "connect_over p te addr w \<noteq> None"
  by (auto simp: connect_over_def cont_returns dial_returns simp del: not_None_eq split: sum.splits)

lemma connect_closes:
  assumes "connect_over p te addr w = ret (x, w')"
  shows "owns w (Inl e) w'"
proof (cases "alloc_byte_err te")
  case None
  with assms obtain s r w1 where s: "Addr_String addr = Returns s"
    "px_Dial p ''tcp'' s w = ret (r, w1)"
    and rest: "(case r of Inl e \<Rightarrow>
        cont (Some (handle_connect (te\<lparr>dial := (\<lambda>_. Some e)\<rparr>) addr)) (\<lambda>x. ret (x, w1))
      | Inr h \<Rightarrow> cont (Some (handle_connect (dialed h w1 te) addr)) (\<lambda>x.
          ret (x, settle h (hw_session x) w1))) = ret (x, w')"
    by (auto simp: connect_over_def cont_ret_iff)
  note own = dial_owns [OF s(2)]
  show ?thesis
  proof (cases r)
    case (Inl e')
    with rest own show ?thesis by (auto simp: cont_ret_iff intro: owns_error)
  next
    case (Inr h)
    with rest have "handle_connect (dialed h w1 te) addr = Returns x"
      "w' = settle h (hw_session x) w1" by (auto simp: cont_ret_iff)
    with None own Inr show ?thesis by (auto elim!: handle_connect_closes intro: owns_settle)
  qed
qed (use assms in \<open>auto simp: connect_over_def cont_ret_iff\<close>)

end

context packet_dialer
begin

lemma associate_returns: "associate_over p ue w \<noteq> None"
  by (auto simp: associate_over_def cont_returns listen_returns simp del: not_None_eq split: sum.splits)

lemma associate_closes:
  assumes "associate_over p ue w = ret (x, w')"
  shows "owns w (Inl e) w'"
proof (cases "udp_alloc_byte_err ue")
  case None
  with assms obtain r w1 where l: "px_ListenPacket p ''udp'' [] w = ret (r, w1)"
    and rest: "(case r of Inl e \<Rightarrow>
        cont (Some (handle_associate (ue\<lparr>listen_packet := Some e\<rparr>))) (\<lambda>x. ret (x, w1))
      | Inr h \<Rightarrow> cont (Some (handle_associate (ue\<lparr>listen_packet := None\<rparr>))) (\<lambda>x.
          ret (x, net_Close h w1))) = ret (x, w')"
    by (auto simp: associate_over_def cont_ret_iff)
  from listen_owns [OF l] rest show ?thesis
    by (cases r) (auto simp: cont_ret_iff intro: owns_error owns_Close)
qed (use assms in \<open>auto simp: associate_over_def cont_ret_iff\<close>)

text \<open>A session is refused, or it is one of the two tunnels.\<close>

lemma session_cases:
  obtains e where "serve_over p r te ue w = ret (refused e, w)"
  | te' addr where "serve_over p r te ue w = connect_over p te' addr w"
  | ue' where "serve_over p r te ue w = associate_over p ue' w"
proof (cases "\<exists>c a rest. (c = CmdConnect \<or> c = CmdAssociate) \<and> wf_addr a \<and> content r = request c a @ rest")
  case True
  then obtain c a rest where q: "content r = request c a @ rest"
    "c = CmdConnect \<or> c = CmdAssociate" "wf_addr a" by blast
  obtain r' where "with_request r (\<lambda>e. ret (refused e, w))
        (\<lambda>r addr. Returns (connect_over p (te\<lparr>up_src := r\<rparr>) addr w))
        (\<lambda>r. Returns (associate_over p (ue\<lparr>client := r\<rparr>) w)) =
      (if c = CmdConnect then Returns (connect_over p (te\<lparr>up_src := r'\<rparr>) \<lparr>addr_data = a\<rparr> w)
       else Returns (associate_over p (ue\<lparr>client := r'\<rparr>) w))"
    by (rule with_request_ok [OF q])
  then have "serve_over p r te ue w =
      (if c = CmdConnect then connect_over p (te\<lparr>up_src := r'\<rparr>) \<lparr>addr_data = a\<rparr> w
       else associate_over p (ue\<lparr>client := r'\<rparr>) w)"
    by (simp add: serve_over_def)
  then show thesis by (cases "c = CmdConnect") (auto intro: that(2,3))
next
  case False
  obtain e where "with_request r (\<lambda>e. ret (refused e, w))
        (\<lambda>r addr. Returns (connect_over p (te\<lparr>up_src := r\<rparr>) addr w))
        (\<lambda>r. Returns (associate_over p (ue\<lparr>client := r\<rparr>) w)) = Returns (ret (refused e, w))"
    using with_request_other [OF False] by blast
  then show thesis by (intro that(1)) (simp add: serve_over_def)
qed

lemma session_returns: "serve_over p r te ue w \<noteq> None"
  by (rule session_cases [of r te ue w]) (simp_all only: connect_returns associate_returns, simp_all)

lemma session_closes:
  assumes "serve_over p r te ue w = ret (x, w')"
  shows "owns w (Inl e) w'"
proof (rule session_cases [of r te ue w])
  fix te' addr assume "serve_over p r te ue w = connect_over p te' addr w"
  with assms show ?thesis by (intro connect_closes) simp
next
  fix ue' assume "serve_over p r te ue w = associate_over p ue' w"
  with assms show ?thesis by (intro associate_closes) simp
qed (use assms in simp)

end

text \<open>
  A session leaves nothing behind on the network. Over any proxy that keeps its contract,
  and so over any chain of them, whatever the client sends and however the dial, the handshake,
  the memory and the two copies end, the session does not hang in the proxy, and when it is over
  the connections that were there before are as they were and every one made for it is closed.
\<close>

theorem sessions_leave_nothing_open:
  assumes "packet_dialer p"
  shows "serve_over p r te ue w \<noteq> None \<and>
    (\<forall>x w'. serve_over p r te ue w = ret (x, w') \<longrightarrow> keeps w w' \<and> new_open w w' = [])"
  using packet_dialer.session_returns [OF assms] packet_dialer.session_closes [OF assms]
  by (auto simp: owns_def)

lemma sample_proxy_packets: "packet_dialer (HttpProxy sample_lib sample_proxy)"
proof -
  have "packet_dialer (HttpProxy sample_lib (sample_proxy\<lparr>hp_proxy := Some NoProxy\<rparr>))"
    by (rule http_direct.http_packets.packet_dialer_axioms)
  then show ?thesis by (simp add: sample_proxy_def)
qed

section \<open>From the client to the target\<close>

lemma connect_over_dialed:
  assumes "Addr_String addr = Returns s" "px_Dial p ''tcp'' s w = ret (Inr h, w1)"
    "tcp_connected (dialed h w1 te) s" "good_writers te"
    "is_err (up_src te) = EOF" "is_err (nc_in (nt_conns w1 ! h)) = EOF"
    "h < length (nt_conns w1)"
  shows "\<exists>x run w'. connect_over p te addr w = ret (x, w') \<and> hw_session x = TcpSession run \<and>
    hw_err x = None \<and> hw_nr x = int (length (content (up_src te))) \<and>
    hw_nw x = int (length (content (nc_in (nt_conns w1 ! h)))) \<and>
    to_client run = content (nc_in (nt_conns w1 ! h)) \<and>
    nc_out (nt_conns w' ! h) = nc_out (nt_conns w1 ! h) @ content (up_src te)"
proof -
  let ?te = "dialed h w1 te"
  have te: "good_writers ?te" "up_src ?te = up_src te" "down_src ?te = nc_in (nt_conns w1 ! h)"
    "alloc_byte_err te = None"
    using assms(3,4) by (simp_all add: dialed_def good_writers_def tcp_connected_def)
  have ends: "is_err (up_src ?te) = EOF \<or> is_net_timeout (is_err (up_src ?te))"
    "is_err (down_src ?te) = EOF" using assms(5,6) te by simp_all
  obtain run where run: "HandleTCP ?te addr = Returns run" "tcp_err run = None"
    "to_remote run = content (up_src te)" "to_client run = content (nc_in (nt_conns w1 ! h))"
    "RcClose \<in> set (main_acts run)"
    using HandleTCP_transparent [OF assms(1,3) te(1) ends] te(2,3) by auto
  then have counts: "tcp_nr run = int (length (content (up_src te)))"
    "tcp_nw run = int (length (content (nc_in (nt_conns w1 ! h))))"
    using HandleTCP_accounting [OF assms(1,3) te(1)] by auto
  let ?x = "\<lparr>hw_nr = tcp_nr run, hw_nw = tcp_nw run, hw_err = None, hw_session = TcpSession run\<rparr>"
  have "connect_over p te addr w = ret (?x, settle h (TcpSession run) w1)"
    using assms(1,2) te(4) run(1,2) by (simp add: connect_over_def handle_connect_def)
  moreover have "nc_out (nt_conns (settle h (TcpSession run) w1) ! h) =
      nc_out (nt_conns w1 ! h) @ content (up_src te)"
    using assms(7) run(3,5) by (simp add: settle_def net_Close_def net_upd_def Let_def)
  ultimately show ?thesis using run(4) counts by auto
qed

lemma http_session:
  assumes client: "content r = request CmdConnect (encode_addr h port) @ up" "is_err r = EOF"
      "wf_host h" "0 \<le> port" "port < 65536" "\<forall>d. h = HostDomain d \<longrightarrow> length d \<le> 252"
    and memory: "alloc_byte_err te = None" "alloc_a te = None" "alloc_b te = None"
      "good_writers te"
    and target: "target = JoinHostPort (host_text h) (itoa (nat port))"
      "validateProxyTarget target = None" "list_all (\<lambda>c. \<not> control_char c) target"
    and px: "hp_proxy p = Some px" "dialer px"
      "px_Dial px ''tcp'' (hp_Server p) w = ret (Inr c, w1)"
    and host: "hl_NewRequest lib (hp_tcpURL p) = Inr host"
    and peer: "nc_wres (nt_conns w1 ! c) = []" "empties (nc_in (nt_conns w1 ! c)) < 100"
      "content (nc_in (nt_conns w1 ! c)) = response_head status hdr @ down"
      "is_err (nc_in (nt_conns w1 ! c)) = EOF"
    and head: "0x0a \<notin> set status" "\<forall>l \<in> set hdr. header_line l"
      "parse_status (string_of_bytes status) = Inr StatusOK" "hl_bad_header lib hdr = None"
  shows "\<exists>x run w'. serve_over (HttpProxy lib p) r te ue w = ret (x, w') \<and>
    hw_err x = None \<and> hw_nr x = int (length up) \<and> hw_nw x = int (length down) \<and>
    hw_session x = TcpSession run \<and> to_client run = down \<and>
    nc_out (nt_conns w' ! c) = nc_out (nt_conns w1 ! c)
      @ bytes_of_string (connect_request host target (hp_basicAuth p)) @ up \<and>
    new_open w w' = []"
proof -
  let ?p = "HttpProxy lib p" and ?a = "\<lparr>addr_data = encode_addr h port\<rparr>"
  have "http_chain px p" using px(1,2) by (simp add: http_chain_def http_chain_axioms_def)
  then have p: "dialer ?p" by (rule http_chain.is_dialer)
  obtain r' where r': "content r' = up" "is_err r' = EOF"
    "serve_over ?p r te ue w = connect_over ?p (te\<lparr>up_src := r'\<rparr>) ?a w"
  proof (rule with_request_ok [OF client(1) disjI1 [OF refl] wf_encode_addr [OF client(3)]])
    fix r' assume "content r' = up" "is_err r' = is_err r"
      "with_request r (\<lambda>e. ret (refused e, w))
         (\<lambda>r addr. Returns (connect_over ?p (te\<lparr>up_src := r\<rparr>) addr w))
         (\<lambda>r. Returns (associate_over ?p (ue\<lparr>client := r\<rparr>) w)) =
       (if CmdConnect = CmdConnect then Returns (connect_over ?p (te\<lparr>up_src := r'\<rparr>) ?a w)
        else Returns (associate_over ?p (ue\<lparr>client := r'\<rparr>) w))"
    with client(2) show thesis by (intro that) (simp_all add: serve_over_def)
  qed
  have addr: "Addr_String ?a = Returns target"
    unfolding target(1) by (rule Addr_String_short [OF client(3-6)])
  have "target \<noteq> []" by (simp add: target(1) JoinHostPort_def)
  from http_tunnel [OF px target(2) this target(3) host peer(1-3) head, of "''tcp''"] peer(4)
  obtain w2 where w2: "px_Dial ?p ''tcp'' target w = ret (Inr c, w2)"
    "nc_out (nt_conns w2 ! c) =
      nc_out (nt_conns w1 ! c) @ bytes_of_string (connect_request host target (hp_basicAuth p))"
    "content (nc_in (nt_conns w2 ! c)) = down" "is_err (nc_in (nt_conns w2 ! c)) = EOF"
    by (auto simp: HttpProxy_def)
  have c: "c < length (nt_conns w2)" by (rule owns_result(2) [OF dialer.dial_owns [OF p w2(1)]])
  have ready: "tcp_connected (dialed c w2 (te\<lparr>up_src := r'\<rparr>)) target" "good_writers (te\<lparr>up_src := r'\<rparr>)"
    "is_err (up_src (te\<lparr>up_src := r'\<rparr>)) = EOF"
    using memory r'(2) by (simp_all add: tcp_connected_def dialed_def good_writers_def)
  obtain x run w' where run: "connect_over ?p (te\<lparr>up_src := r'\<rparr>) ?a w = ret (x, w')"
    "hw_session x = TcpSession run" "hw_err x = None" "hw_nr x = int (length up)"
    "hw_nw x = int (length down)" "to_client run = down"
    "nc_out (nt_conns w' ! c) = nc_out (nt_conns w2 ! c) @ up"
    using connect_over_dialed [OF addr w2(1) ready w2(4) c] r'(1) w2(3) by auto
  have "new_open w w' = []" using dialer.connect_closes [OF p run(1)] by (simp add: owns_def)
  then show ?thesis using r'(3) run w2(2) by auto
qed

lemma sample_request:
  "content demo_request = request CmdConnect (encode_addr (HostDomain [104]) 80) @ [9, 8]"
  "is_err demo_request = EOF" "wf_host (HostDomain [104])" "(0::int) \<le> 80" "(80::int) < 65536"
  "\<forall>d. HostDomain [104] = HostDomain d \<longrightarrow> length d \<le> 252"
  "alloc_byte_err demo_env = None" "alloc_a demo_env = None" "alloc_b demo_env = None"
  "good_writers demo_env"
  by (simp_all add: content_demo_request CmdConnect_def demo_env_def good_writers_def)
    (simp add: demo_request_def)

lemma sample_target:
  "''h:80'' = JoinHostPort (host_text (HostDomain [104])) (itoa (nat 80))"
  "validateProxyTarget ''h:80'' = None" "list_all (\<lambda>c. \<not> control_char c) ''h:80''"
  by code_simp (simp_all add: validateProxyTarget_def control_char_def)

lemma sample_peer_end:
  "is_err (nc_in (nt_conns sample_dialed ! 0)) = EOF" "nc_out (nt_conns sample_dialed ! 0) = []"
  by (simp_all add: sample_peer_def)

lemmas sample_session = sample_request sample_target sample_exchange(1) direct.dialer_axioms
  sample_exchange(2-6) sample_peer_end(1) sample_exchange(7,8) sample_status_ok sample_exchange(9)

text \<open>
  End to end. A client that sends a CONNECT request for a host and a port, followed by its
  data, is served through an HTTP proxy that answers with status 200: what the proxy receives
  is the CONNECT request for exactly that host and port and then the data of the client; what
  the client receives is what the proxy sent behind its head, however it was cut into packets;
  both are counted exactly, there is no error, and the connection is closed.
\<close>

theorem connect_through_http_proxy:
  assumes client: "content r = request CmdConnect (encode_addr h port) @ up" "is_err r = EOF"
      "wf_host h" "0 \<le> port" "port < 65536" "\<forall>d. h = HostDomain d \<longrightarrow> length d \<le> 252"
    and memory: "alloc_byte_err te = None" "alloc_a te = None" "alloc_b te = None"
      "good_writers te"
    and target: "target = JoinHostPort (host_text h) (itoa (nat port))"
      "validateProxyTarget target = None" "list_all (\<lambda>c. \<not> control_char c) target"
    and px: "hp_proxy p = Some px" "dialer px"
      "px_Dial px ''tcp'' (hp_Server p) w = ret (Inr c, w1)"
    and host: "hl_NewRequest lib (hp_tcpURL p) = Inr host"
    and peer: "nc_wres (nt_conns w1 ! c) = []" "empties (nc_in (nt_conns w1 ! c)) < 100"
      "content (nc_in (nt_conns w1 ! c)) = response_head status hdr @ down"
      "is_err (nc_in (nt_conns w1 ! c)) = EOF"
    and head: "0x0a \<notin> set status" "\<forall>l \<in> set hdr. header_line l"
      "parse_status (string_of_bytes status) = Inr StatusOK" "hl_bad_header lib hdr = None"
  shows "\<exists>x run w'. serve_over (HttpProxy lib p) r te ue w = ret (x, w') \<and>
    hw_err x = None \<and> hw_nr x = int (length up) \<and> hw_nw x = int (length down) \<and>
    hw_session x = TcpSession run \<and> to_client run = down \<and>
    nc_out (nt_conns w' ! c) = nc_out (nt_conns w1 ! c)
      @ bytes_of_string (connect_request host target (hp_basicAuth p)) @ up \<and>
    new_open w w' = []"
  by (rule http_session [OF assms])

theorem connect_through_http_proxy_witness:
  "\<exists>x run w'. serve_over (HttpProxy sample_lib sample_proxy) demo_request demo_env demo_udp_env sample_net
      = ret (x, w') \<and> hw_err x = None \<and> hw_session x = TcpSession run \<and> to_client run = [1, 2, 3] \<and>
    nc_out (nt_conns w' ! 0) = bytes_of_string (connect_request ''p:80'' ''h:80'' []) @ [9, 8] \<and>
    new_open sample_net w' = []"
  using connect_through_http_proxy [OF sample_session, of demo_udp_env]
  unfolding sample_peer_end(2) sample_exchange(10) by auto

theorem sessions_leave_nothing_open_witness:
  "\<exists>x w'. serve_over (HttpProxy sample_lib sample_proxy) demo_request demo_env demo_udp_env sample_net
      = ret (x, w') \<and> keeps sample_net w' \<and> new_open sample_net w' = []"
proof -
  obtain x w' where "serve_over (HttpProxy sample_lib sample_proxy) demo_request demo_env demo_udp_env
      sample_net = ret (x, w')"
    using http_session [OF sample_session, of demo_udp_env] by blast
  with sessions_leave_nothing_open [OF sample_proxy_packets] show ?thesis by blast
qed

end
