(* ===== verification/Entrance.thy ===== *)
theory Entrance
  imports Handler Tunnel_Session
begin

text \<open>
  The two entrances of the program with everything behind them: the goroutine of a connection in
  \<open>modules/listener/listener.go\<close> and \<open>ServeHTTP\<close> of \<open>modules/handler/handler.go\<close>, where the
  tunnel is a session over a proxy and the network (\<open>Tunnel_Session\<close>) and its traffic is charged
  to the user in the store. The theorems follow a user from the first byte to the target and the
  books, and show that no connection is left open, whoever connects.
\<close>

section \<open>The entrances over a proxy\<close>

text \<open>The call of \<open>Consume\<close> behind a session, whose counts it takes as 64-bit integers.\<close>

definition charge :: "'u upstream_ops \<Rightarrow> string \<Rightarrow> handled \<Rightarrow> 'u \<Rightarrow> 'u" where
  "charge ops key h us = snd (uo_Consume ops us key (word_of_int (hw_nr h)) (word_of_int (hw_nw h)))"

definition listen_over ::
  "proxy_ops \<Rightarrow> 'u upstream_ops \<Rightarrow> bool \<Rightarrow> ('u \<Rightarrow> 'u) \<Rightarrow> tcp_env \<Rightarrow> udp_env \<Rightarrow> istream \<Rightarrow> 'u \<Rightarrow> net
    \<Rightarrow> (conn_act list \<times> 'u \<times> net) run" where
  "listen_over p ops sent meanwhile te ue c us w =
     with_user ops sent c us (\<lambda>acts. ret (acts, us, w)) (\<lambda>key c.
       cont (serve_over p c te ue w) (\<lambda>(h, w).
         ret ([SniffDeadline, ClearDeadline, Serve h, CloseConn, ClearDeadline],
           charge ops key h (meanwhile us), w)))"

definition http_over ::
  "go_url \<Rightarrow> proxy_ops \<Rightarrow> 'u upstream_ops \<Rightarrow> ('u \<Rightarrow> 'u) \<Rightarrow> handler \<Rightarrow> int \<Rightarrow> int \<Rightarrow> tcp_env \<Rightarrow> udp_env
    \<Rightarrow> http_request \<Rightarrow> limiter \<Rightarrow> 'u \<Rightarrow> net \<Rightarrow> (served \<times> limiter \<times> 'u \<times> net) run" where
  "http_over url p ops meanwhile m now1 now2 te ue r lm us w =
     with_http url ops m now1 now2 r lm us (\<lambda>v lm. ret (v, lm, us, w)) (\<lambda>key acts lm s.
       cont (serve_over p s te ue w) (\<lambda>(h, w).
         ret (Tunnel key h acts, lm, charge ops key h (meanwhile us), w)))"

section \<open>Nothing is left open\<close>

text \<open>Who gets no tunnel leaves the network alone; behind a tunnel there is a session.\<close>

lemma with_user_split:
  obtains acts where "with_user ops sent c us f g = f acts"
  | k c' where "with_user ops sent c us f g = g k c'"
proof -
  have "(\<exists>acts. with_user ops sent c us f g = f acts) \<or> (\<exists>k c'. with_user ops sent c us f g = g k c')"
    unfolding with_user_def Let_def by (cases "sniff c blank 0") (simp_all, metis+)
  then show thesis using that by blast
qed

context packet_dialer
begin

lemma no_session_safe: "keeps w w \<and> new_open w w = []"
  by (simp add: new_open_def)

lemma listen_safe:
  "listen_over p ops sent mw te ue c us w \<noteq> None"
  "listen_over p ops sent mw te ue c us w = ret (acts, us', w') \<Longrightarrow> keeps w w' \<and> new_open w w' = []"
proof -
  let ?f = "\<lambda>acts. ret (acts, us, w)"
  let ?g = "\<lambda>key c. cont (serve_over p c te ue w) (\<lambda>(h, w).
    ret ([SniffDeadline, ClearDeadline, Serve h, CloseConn, ClearDeadline], charge ops key h (mw us), w))"
  have "with_user ops sent c us ?f ?g \<noteq> None \<and>
    (with_user ops sent c us ?f ?g = ret (acts, us', w') \<longrightarrow> keeps w w' \<and> new_open w w' = [])"
  proof (rule with_user_split [of ops sent c us ?f ?g])
    fix as assume "with_user ops sent c us ?f ?g = ?f as"
    then show ?thesis using no_session_safe by simp
  next
    fix k c' assume "with_user ops sent c us ?f ?g = ?g k c'"
    then show ?thesis using session_returns [of c' te ue w] session_closes [of c' te ue w]
      by (auto simp: cont_returns cont_ret_iff owns_def simp del: not_None_eq)
  qed
  then show "listen_over p ops sent mw te ue c us w \<noteq> None"
    "listen_over p ops sent mw te ue c us w = ret (acts, us', w') \<Longrightarrow> keeps w w' \<and> new_open w w' = []"
    by (simp_all add: listen_over_def)
qed

lemma http_safe:
  "http_over url p ops mw m now1 now2 te ue r lm us w \<noteq> None"
  "http_over url p ops mw m now1 now2 te ue r lm us w = ret (v, lm', us', w') \<Longrightarrow>
    keeps w w' \<and> new_open w w' = []"
proof -
  let ?f = "\<lambda>v lm. ret (v, lm, us, w)"
  let ?g = "\<lambda>key acts lm s. cont (serve_over p s te ue w) (\<lambda>(h, w).
    ret (Tunnel key h acts, lm, charge ops key h (mw us), w))"
  let ?run = "with_http url ops m now1 now2 r lm us ?f ?g"
  have "?run \<noteq> None \<and> (?run = ret (v, lm', us', w') \<longrightarrow> keeps w w' \<and> new_open w w' = [])"
  proof (rule with_http_cases [of url ops m now1 now2 r lm us ?f ?g])
    fix v lm' assume "?run = ?f v lm'"
    then show ?thesis using no_session_safe by simp
  next
    fix k acts lm' s assume "?run = ?g k acts lm' s"
    then show ?thesis using session_returns [of s te ue w] session_closes [of s te ue w]
      by (auto simp: cont_returns cont_ret_iff owns_def simp del: not_None_eq)
  qed
  then show "http_over url p ops mw m now1 now2 te ue r lm us w \<noteq> None"
    "http_over url p ops mw m now1 now2 te ue r lm us w = ret (v, lm', us', w') \<Longrightarrow>
      keeps w w' \<and> new_open w w' = []"
    by (simp_all add: http_over_def)
qed

end


section \<open>From the first byte to the target and the books\<close>

lemma charge_mem:
  "map_of (mm us) k = Some t \<Longrightarrow> hw_nr x = int n \<Longrightarrow> hw_nw x = int l \<Longrightarrow>
    map_of (mm (charge (mem_ops pops) k x us)) k = Some (add_traffic t (word_of_nat n) (word_of_nat l))"
  by (simp add: charge_def mem_ops_def mem_Consume_users)

lemma listen_session:
  assumes user: "mem_inv us" "validStorageKey k" "map_of (mm us) k \<noteq> None" "map_of (mm (mw us)) k = Some t"
      "no_empty_reads s"
    and request: "content s = greeting k @ request CmdConnect (encode_addr h port) @ payload" "is_err s = EOF" "wf_host h" "0 \<le> port" "port < 65536"
      "\<forall>d. h = HostDomain d \<longrightarrow> length d \<le> 252"
    and memory: "alloc_byte_err te = None" "alloc_a te = None" "alloc_b te = None" "good_writers te"
    and target: "target = JoinHostPort (host_text h) (itoa (nat port))"
      "validateProxyTarget target = None" "list_all (\<lambda>c. \<not> control_char c) target"
    and px: "hp_proxy p = Some px" "dialer px"
      "px_Dial px ''tcp'' (hp_Server p) w = ret (Inr c, w1)"
    and host: "hl_NewRequest lib (hp_tcpURL p) = Inr host"
    and peer: "nc_wres (nt_conns w1 ! c) = []" "empties (nc_in (nt_conns w1 ! c)) < 100"
      "content (nc_in (nt_conns w1 ! c)) = response_head status hdr @ down"
      "is_err (nc_in (nt_conns w1 ! c)) = EOF"
    and head: "0x0a \<notin> set status" "\<forall>l \<in> set hdr. header_line l"
      "parse_status (string_of_bytes status) = Inr StatusOK" "hl_bad_header lib hdr = None"
  shows "\<exists>x run us' w'. listen_over (HttpProxy lib p) (mem_ops pops) sent mw te ue s us w =
      ret ([SniffDeadline, ClearDeadline, Serve x, CloseConn, ClearDeadline], us', w') \<and>
    hw_err x = None \<and> hw_session x = TcpSession run \<and> to_client run = down \<and>
    nc_out (nt_conns w' ! c) = nc_out (nt_conns w1 ! c)
      @ bytes_of_string (connect_request host target (hp_basicAuth p)) @ payload \<and>
    new_open w w' = [] \<and>
    map_of (mm us') k = Some (add_traffic t (word_of_nat (length payload)) (word_of_nat (length down)))"
proof -
  let ?g = "\<lambda>key c. cont (serve_over (HttpProxy lib p) c te ue w) (\<lambda>(h, w).
    ret ([SniffDeadline, ClearDeadline, Serve h, CloseConn, ClearDeadline], charge (mem_ops pops) key h (mw us), w))"
  have "request CmdConnect (encode_addr h port) @ payload \<noteq> []" by (simp add: request_def)
  from mem.user_gets_tunnel [OF user(5) request(1) user(2) this user(1,3), of pops sent "\<lambda>acts. ret (acts, us, w)" ?g]
  obtain s' where s': "content s' = request CmdConnect (encode_addr h port) @ payload" "is_err s' = EOF"
    "listen_over (HttpProxy lib p) (mem_ops pops) sent mw te ue s us w = ?g k s'"
    using request(2) by (auto simp: listen_over_def)
  from http_session [OF s'(1,2) request(3-6) memory target px host peer head, of ue] obtain x run w'
    where run: "serve_over (HttpProxy lib p) s' te ue w = ret (x, w')" "hw_err x = None"
      "hw_nr x = int (length payload)" "hw_nw x = int (length down)" "hw_session x = TcpSession run"
      "to_client run = down" "nc_out (nt_conns w' ! c) = nc_out (nt_conns w1 ! c)
        @ bytes_of_string (connect_request host target (hp_basicAuth p)) @ payload" "new_open w w' = []"
    by blast
  with s'(3) charge_mem [OF user(4) run(3,4), of pops] show ?thesis by simp
qed

text \<open>
  C4: a user of the listener reaches its target, and pays. A connection that begins with the key
  of a user and CRLF and goes on with a CONNECT request for a host and a port and with data, over
  an HTTP proxy that answers with status 200: the proxy receives the CONNECT request for exactly
  that host and port and then exactly the data, the client receives exactly what the proxy sent
  behind its head, without an error; both connections are closed, the deadline of the sniffing is
  gone before the tunnel starts, and the counters of the user, as they are after what others did
  meanwhile, grow by exactly the two lengths.
\<close>

theorem user_reaches_target:
  assumes user: "mem_inv us" "validStorageKey k" "map_of (mm us) k \<noteq> None" "map_of (mm (mw us)) k = Some t"
      "no_empty_reads s"
    and request: "content s = greeting k @ request CmdConnect (encode_addr h port) @ payload" "is_err s = EOF" "wf_host h" "0 \<le> port" "port < 65536"
      "\<forall>d. h = HostDomain d \<longrightarrow> length d \<le> 252"
    and memory: "alloc_byte_err te = None" "alloc_a te = None" "alloc_b te = None" "good_writers te"
    and target: "target = JoinHostPort (host_text h) (itoa (nat port))"
      "validateProxyTarget target = None" "list_all (\<lambda>c. \<not> control_char c) target"
    and px: "hp_proxy p = Some px" "dialer px"
      "px_Dial px ''tcp'' (hp_Server p) w = ret (Inr c, w1)"
    and host: "hl_NewRequest lib (hp_tcpURL p) = Inr host"
    and peer: "nc_wres (nt_conns w1 ! c) = []" "empties (nc_in (nt_conns w1 ! c)) < 100"
      "content (nc_in (nt_conns w1 ! c)) = response_head status hdr @ down"
      "is_err (nc_in (nt_conns w1 ! c)) = EOF"
    and head: "0x0a \<notin> set status" "\<forall>l \<in> set hdr. header_line l"
      "parse_status (string_of_bytes status) = Inr StatusOK" "hl_bad_header lib hdr = None"
  shows "\<exists>x run us' w'. listen_over (HttpProxy lib p) (mem_ops pops) sent mw te ue s us w =
      ret ([SniffDeadline, ClearDeadline, Serve x, CloseConn, ClearDeadline], us', w') \<and>
    hw_err x = None \<and> hw_session x = TcpSession run \<and> to_client run = down \<and>
    nc_out (nt_conns w' ! c) = nc_out (nt_conns w1 ! c)
      @ bytes_of_string (connect_request host target (hp_basicAuth p)) @ payload \<and>
    new_open w w' = [] \<and>
    map_of (mm us') k = Some (add_traffic t (word_of_nat (length payload)) (word_of_nat (length down)))"
  by (rule listen_session [where mw = mw, OF assms])

text \<open>
  C5: the same over HTTP, for a CONNECT request of a later version than 1, which carries the key
  as its proxy authorization and the tunnel in its body, and for a websocket of an allowed origin,
  whose stream begins with the key and CRLF: a request that shows the key of a user, from a
  source that is not limited, reaches the target through the proxy and is charged exactly.
\<close>

theorem http_user_reaches_target:
  assumes user: "http_key url (mem_ops pops) m now1 r lm us k s" "map_of (mm (mw us)) k = Some t"
    and request: "content s = request CmdConnect (encode_addr h port) @ payload" "is_err s = EOF" "wf_host h" "0 \<le> port" "port < 65536"
      "\<forall>d. h = HostDomain d \<longrightarrow> length d \<le> 252"
    and memory: "alloc_byte_err te = None" "alloc_a te = None" "alloc_b te = None" "good_writers te"
    and target: "target = JoinHostPort (host_text h) (itoa (nat port))"
      "validateProxyTarget target = None" "list_all (\<lambda>c. \<not> control_char c) target"
    and px: "hp_proxy p = Some px" "dialer px"
      "px_Dial px ''tcp'' (hp_Server p) w = ret (Inr c, w1)"
    and host: "hl_NewRequest lib (hp_tcpURL p) = Inr host"
    and peer: "nc_wres (nt_conns w1 ! c) = []" "empties (nc_in (nt_conns w1 ! c)) < 100"
      "content (nc_in (nt_conns w1 ! c)) = response_head status hdr @ down"
      "is_err (nc_in (nt_conns w1 ! c)) = EOF"
    and head: "0x0a \<notin> set status" "\<forall>l \<in> set hdr. header_line l"
      "parse_status (string_of_bytes status) = Inr StatusOK" "hl_bad_header lib hdr = None"
  shows "\<exists>x acts lm' run us' w'. http_over url (HttpProxy lib p) (mem_ops pops) mw m now1 now2 te ue r lm us w =
      ret (Tunnel k x acts, lm', us', w') \<and>
    hw_err x = None \<and> hw_session x = TcpSession run \<and> to_client run = down \<and>
    nc_out (nt_conns w' ! c) = nc_out (nt_conns w1 ! c)
      @ bytes_of_string (connect_request host target (hp_basicAuth p)) @ payload \<and>
    new_open w w' = [] \<and>
    map_of (mm us') k = Some (add_traffic t (word_of_nat (length payload)) (word_of_nat (length down)))"
proof -
  let ?g = "\<lambda>key acts lm s. cont (serve_over (HttpProxy lib p) s te ue w) (\<lambda>(h, w).
    ret (Tunnel key h acts, lm, charge (mem_ops pops) key h (mw us), w))"
  from http_key_granted [OF user(1), of now2 "\<lambda>v lm. ret (v, lm, us, w)" ?g]
  obtain acts lm' s' where s': "content s' = request CmdConnect (encode_addr h port) @ payload" "is_err s' = EOF"
    "http_over url (HttpProxy lib p) (mem_ops pops) mw m now1 now2 te ue r lm us w = ?g k acts lm' s'"
    using request(1,2) by (auto simp: http_over_def)
  from http_session [OF s'(1,2) request(3-6) memory target px host peer head, of ue] obtain x run w'
    where run: "serve_over (HttpProxy lib p) s' te ue w = ret (x, w')" "hw_err x = None"
      "hw_nr x = int (length payload)" "hw_nw x = int (length down)" "hw_session x = TcpSession run"
      "to_client run = down" "nc_out (nt_conns w' ! c) = nc_out (nt_conns w1 ! c)
        @ bytes_of_string (connect_request host target (hp_basicAuth p)) @ payload" "new_open w w' = []"
    by blast
  with s'(3) charge_mem [OF user(2) run(3,4), of pops] show ?thesis by simp
qed

section \<open>A user and its datagrams\<close>

lemma associate_session:
  assumes "content r = request CmdAssociate (encode_addr h port) @ concat (map frame_of gs)" "is_err r = EOF"
    "wf_host h" "px_ListenPacket p ''udp'' [] w = ret (Inr n, w1)"
    "udp_opened (ue\<lparr>listen_packet := None\<rparr>)" "\<forall>g \<in> set gs. datagram_ok (udp_dns ue) g"
    "sock ue = \<lparr>pc_script = [], pc_sent = []\<rparr>" "\<forall>g \<in> set (packets ue). packet_ok g"
    "client_writer ue = \<lparr>os_script = [], os_data = []\<rparr>" "isTimeoutError (Some (packets_end ue))"
  shows "\<exists>x run. serve_over p r te ue w = ret (x, net_Close n w1) \<and> hw_err x = None \<and>
    hw_session x = UdpSession run \<and> hw_nr x = int (length (concat (map frame_of gs))) \<and> hw_nw x = 0 \<and>
    udp_sent run = map (delivery (udp_dns ue)) gs \<and>
    udp_to_client run = concat (map packet_frame (packets ue))"
proof -
  obtain r' where r': "content r' = concat (map frame_of gs)" "is_err r' = EOF"
    "serve_over p r te ue w = associate_over p (ue\<lparr>client := r'\<rparr>) w"
  proof (rule with_request_ok [OF assms(1) disjI2 [OF refl] wf_encode_addr [OF assms(3)]])
    fix r' assume "content r' = concat (map frame_of gs)" "is_err r' = is_err r"
      "with_request r (\<lambda>e. ret (refused e, w))
         (\<lambda>r addr. Returns (connect_over p (te\<lparr>up_src := r\<rparr>) addr w))
         (\<lambda>r. Returns (associate_over p (ue\<lparr>client := r\<rparr>) w)) =
       (if CmdAssociate = CmdConnect then Returns (connect_over p (te\<lparr>up_src := r'\<rparr>) \<lparr>addr_data = encode_addr h port\<rparr> w)
        else Returns (associate_over p (ue\<lparr>client := r'\<rparr>) w))"
    moreover have "CmdAssociate \<noteq> CmdConnect" by (simp add: CmdAssociate_def CmdConnect_def)
    ultimately show thesis using assms(2) by (intro that) (simp_all add: serve_over_def)
  qed
  let ?ue = "ue\<lparr>client := r', listen_packet := None\<rparr>"
  have "udp_opened ?ue" using assms(5) by (simp add: udp_opened_def)
  then obtain run where run: "HandleUDP ?ue = Returns run" "udp_err run = None"
    "udp_sent run = map (delivery (udp_dns ue)) gs" "udp_to_client run = concat (map packet_frame (packets ue))"
    "udp_nr run = int (length (concat (map frame_of gs)))" "udp_nw run = 0"
    using HandleUDP_session [of ?ue gs] assms(6-10) r'(1,2) by auto
  let ?x = "\<lparr>hw_nr = udp_nr run, hw_nw = udp_nw run, hw_err = None, hw_session = UdpSession run\<rparr>"
  have "udp_alloc_byte_err ue = None" using assms(5) by (simp add: udp_opened_def)
  then have "serve_over p r te ue w = ret (?x, net_Close n w1)"
    using r'(3) assms(4) run(1,2) by (simp add: associate_over_def handle_associate_def)
  then show ?thesis using run by simp
qed

lemma listen_udp_session:
  assumes user: "mem_inv us" "validStorageKey k" "map_of (mm us) k \<noteq> None" "map_of (mm (mw us)) k = Some t"
      "no_empty_reads s"
    and request: "content s = greeting k @ request CmdAssociate (encode_addr h port) @ concat (map frame_of gs)"
      "is_err s = EOF" "wf_host h" "\<forall>g \<in> set gs. datagram_ok (udp_dns ue) g"
    and px: "owns w (Inr n) w1" "px_ListenPacket p ''udp'' [] w = ret (Inr n, w1)"
    and socket: "udp_opened (ue\<lparr>listen_packet := None\<rparr>)" "sock ue = \<lparr>pc_script = [], pc_sent = []\<rparr>"
      "\<forall>g \<in> set (packets ue). packet_ok g" "client_writer ue = \<lparr>os_script = [], os_data = []\<rparr>"
      "isTimeoutError (Some (packets_end ue))"
  shows "\<exists>x run us' w'. listen_over p (mem_ops pops) sent mw te ue s us w =
      ret ([SniffDeadline, ClearDeadline, Serve x, CloseConn, ClearDeadline], us', w') \<and>
    hw_err x = None \<and> hw_session x = UdpSession run \<and>
    udp_sent run = map (delivery (udp_dns ue)) gs \<and>
    udp_to_client run = concat (map packet_frame (packets ue)) \<and> new_open w w' = [] \<and>
    map_of (mm us') k = Some (add_traffic t (word_of_nat (length (concat (map frame_of gs)))) 0)"
proof -
  let ?g = "\<lambda>key c. cont (serve_over p c te ue w) (\<lambda>(h, w).
    ret ([SniffDeadline, ClearDeadline, Serve h, CloseConn, ClearDeadline], charge (mem_ops pops) key h (mw us), w))"
  have "request CmdAssociate (encode_addr h port) @ concat (map frame_of gs) \<noteq> []" by (simp add: request_def)
  from mem.user_gets_tunnel [OF user(5) request(1) user(2) this user(1,3), of pops sent "\<lambda>acts. ret (acts, us, w)" ?g]
  obtain s' where s': "content s' = request CmdAssociate (encode_addr h port) @ concat (map frame_of gs)"
    "is_err s' = EOF" "listen_over p (mem_ops pops) sent mw te ue s us w = ?g k s'"
    using request(2) by (auto simp: listen_over_def)
  from associate_session [OF s'(1,2) request(3) px(2) socket(1) request(4) socket(2-5), of te] obtain x run
    where run: "serve_over p s' te ue w = ret (x, net_Close n w1)" "hw_err x = None"
      "hw_session x = UdpSession run" "hw_nr x = int (length (concat (map frame_of gs)))" "hw_nw x = int 0"
      "udp_sent run = map (delivery (udp_dns ue)) gs" "udp_to_client run = concat (map packet_frame (packets ue))"
    by auto
  have "new_open w (net_Close n w1) = []"
    using owns_Close [OF px(1)] by (simp add: owns_def)
  with s'(3) run charge_mem [OF user(4) run(4,5), of pops] show ?thesis by simp
qed

text \<open>
  C6: a user's datagrams arrive, and their answers are free. A connection that begins with the key
  of a user and CRLF and goes on with an ASSOCIATE request and with frames, over a proxy that gives
  a socket: every payload is sent to the address of its own frame, in order, every datagram of the
  network reaches the client as one frame, the socket is closed, and the upload of the user grows
  by the bytes of the frames. The download counter does not move, whatever was delivered.
\<close>

theorem user_datagrams_arrive:
  assumes user: "mem_inv us" "validStorageKey k" "map_of (mm us) k \<noteq> None" "map_of (mm (mw us)) k = Some t"
      "no_empty_reads s"
    and request: "content s = greeting k @ request CmdAssociate (encode_addr h port) @ concat (map frame_of gs)"
      "is_err s = EOF" "wf_host h" "\<forall>g \<in> set gs. datagram_ok (udp_dns ue) g"
    and px: "packet_dialer p" "px_ListenPacket p ''udp'' [] w = ret (Inr n, w1)"
    and socket: "udp_opened (ue\<lparr>listen_packet := None\<rparr>)" "sock ue = \<lparr>pc_script = [], pc_sent = []\<rparr>"
      "\<forall>g \<in> set (packets ue). packet_ok g" "client_writer ue = \<lparr>os_script = [], os_data = []\<rparr>"
      "isTimeoutError (Some (packets_end ue))"
  shows "\<exists>x run us' w'. listen_over p (mem_ops pops) sent mw te ue s us w =
      ret ([SniffDeadline, ClearDeadline, Serve x, CloseConn, ClearDeadline], us', w') \<and>
    hw_err x = None \<and> hw_session x = UdpSession run \<and>
    udp_sent run = map (delivery (udp_dns ue)) gs \<and>
    udp_to_client run = concat (map packet_frame (packets ue)) \<and> new_open w w' = [] \<and>
    map_of (mm us') k = Some (add_traffic t (word_of_nat (length (concat (map frame_of gs)))) 0)"
  by (rule listen_udp_session [where mw = mw, OF user request packet_dialer.listen_owns [OF px] px(2) socket])

section \<open>A concrete user, proxy and target\<close>

lemmas sample_world = sample_request(3-) sample_target sample_exchange(1) direct.dialer_axioms
  sample_exchange(2-6) sample_peer_end(1) sample_exchange(7,8) sample_status_ok sample_exchange(9)

lemma demo_session_end: "is_err demo_session = EOF"
  by (simp add: demo_session_def)

lemma alice_known: "map_of (mm alice) (GenKey ''alice'') \<noteq> None"
  "map_of (mm (id alice)) (GenKey ''alice'') = Some no_traffic"
  by (simp_all add: demo_session_facts)

theorem user_reaches_target_witness:
  "\<exists>x run us' w'. listen_over (HttpProxy sample_lib sample_proxy) (mem_ops demo_pops) True id demo_env demo_udp_env
      demo_session alice sample_net =
      ret ([SniffDeadline, ClearDeadline, Serve x, CloseConn, ClearDeadline], us', w') \<and>
    hw_session x = TcpSession run \<and> to_client run = [1, 2, 3] \<and>
    nc_out (nt_conns w' ! 0) = bytes_of_string (connect_request ''p:80'' ''h:80'' []) @ [7, 8] \<and>
    map_of (mm us') (GenKey ''alice'') = Some \<lparr>Up = 2, Down = 3\<rparr>"
proof -
  from user_reaches_target [where mw = id, OF alice_inv valid_GenKey alice_known demo_session_facts(1,2)
      demo_session_end sample_world,
      of demo_pops True demo_udp_env]
  show ?thesis unfolding sample_peer_end(2) sample_exchange(10) by (auto simp: add_traffic_def no_traffic_def)
qed

theorem http_user_reaches_target_witness:
  "\<exists>x acts lm' us' w'. http_over demo_url (HttpProxy sample_lib sample_proxy) (mem_ops demo_pops) id demo_handler 0 0
      demo_env demo_udp_env (demo_connect (GenKey ''alice'')) new_limiter alice sample_net =
      ret (Tunnel (GenKey ''alice'') x acts, lm', us', w') \<and>
    nc_out (nt_conns w' ! 0) = bytes_of_string (connect_request ''p:80'' ''h:80'' []) @ [9, 8] \<and>
    map_of (mm us') (GenKey ''alice'') = Some \<lparr>Up = 2, Down = 3\<rparr>"
proof -
  have key: "http_key demo_url (mem_ops demo_pops) demo_handler 0 (demo_connect (GenKey ''alice'')) new_limiter alice
      (GenKey ''alice'') demo_request"
    by (simp add: http_key_def connect_key_def demo_connect_def demo_handler_def connect_auth_def TrimPrefix_def
        lm_check_def isRateLimited_def new_limiter_def mem_ops_def mem_Validate_def alice_def)
  from http_user_reaches_target [where mw = id, OF key alice_known(2) sample_request(1,2) sample_world, of 0 demo_udp_env]
  show ?thesis unfolding sample_peer_end(2) sample_exchange(10) by (auto simp: add_traffic_def no_traffic_def)
qed


definition datagram_session :: istream where
  "datagram_session =
     \<lparr>is_chunks = [greeting (GenKey ''alice'') @ request CmdAssociate (encode_addr (HostDomain [104]) 80),
        frame_of (HostIPv4 [1, 2, 3, 4], 80, [7])], is_last = [], is_err = EOF\<rparr>"

theorem user_datagrams_arrive_witness:
  "\<exists>x run us' w'. listen_over NoProxy (mem_ops demo_pops) True id demo_env demo_udp_env datagram_session alice
      sample_net = ret ([SniffDeadline, ClearDeadline, Serve x, CloseConn, ClearDeadline], us', w') \<and>
    hw_session x = UdpSession run \<and> udp_to_client run = [1, 1, 2, 3, 4, 0, 53, 0, 2, 13, 10, 7, 8] \<and>
    map_of (mm us') (GenKey ''alice'') = Some \<lparr>Up = 12, Down = 0\<rparr>"
proof -
  let ?gs = "[(HostIPv4 [1, 2, 3, 4], 80, [7 :: byte])]"
  have s: "no_empty_reads datagram_session" "is_err datagram_session = EOF" "wf_host (HostDomain [104])"
    "content datagram_session = greeting (GenKey ''alice'') @
      request CmdAssociate (encode_addr (HostDomain [104]) 80) @ concat (map frame_of ?gs)"
    by (simp_all add: datagram_session_def no_empty_reads_def content_def greeting_def frame_of_def encode_frame_def)
  have gs: "\<forall>g \<in> set ?gs. datagram_ok (udp_dns demo_udp_env) g"
    using demo_datagrams by (simp add: demo_udp_env_def)
  obtain n w1 where net: "px_ListenPacket NoProxy ''udp'' [] sample_net = ret (Inr n, w1)"
    by (simp add: NoProxy_def NoProxy_ListenPacket_def net_Dial_def sample_net_def)
  have socket: "udp_opened (demo_udp_env\<lparr>listen_packet := None\<rparr>)" "sock demo_udp_env = \<lparr>pc_script = [], pc_sent = []\<rparr>"
    "\<forall>g \<in> set (packets demo_udp_env). packet_ok g" "client_writer demo_udp_env = \<lparr>os_script = [], os_data = []\<rparr>"
    "isTimeoutError (Some (packets_end demo_udp_env))"
    by (simp_all add: demo_udp_env_def udp_opened_def packet_ok_def isTimeoutError_def)
  have len: "length (concat (map frame_of ?gs)) = 12"
    by (simp add: frame_of_def encode_frame_def encode_addr_def)
  have out: "concat (map packet_frame (packets demo_udp_env)) = [1, 1, 2, 3, 4, 0, 53, 0, 2, 13, 10, 7, 8]"
    by (simp add: demo_udp_env_def packet_frame_def encode_frame_def host_of_ip_def To4_def
        encode_addr_def addr_types byte_hi_def byte_lo_def)
  from user_datagrams_arrive [where mw = id, OF alice_inv valid_GenKey alice_known s(1,4,2,3) gs
      direct_packets.packet_dialer_axioms net socket, of demo_pops True demo_env]
  show ?thesis unfolding len out by (auto simp: add_traffic_def no_traffic_def)
qed

end
