(* ===== verification/Shadowsocks_Proxy.thy ===== *)
theory Shadowsocks_Proxy
  imports Proxies
begin

text \<open>
  \<open>ShadowsocksProxy\<close> of \<open>app/proxy_shadowsocks.go\<close>. The cipher and the address codec of
  go-shadowsocks2 are third-party code and parameters: what \<open>StreamConn(c).Write\<close> does to the
  network, and \<open>ParseAddr\<close>, \<open>SplitAddr\<close> and \<open>Addr.String\<close>. What the dial relies on is the
  locale \<open>stream_cipher\<close>: writing through the cipher touches the connection underneath only.
  The packet connection is modelled call by call, over what the cipher's packet connection
  does.
\<close>

type_synonym cipher_write = "nat \<Rightarrow> bytes \<Rightarrow> net \<Rightarrow> go_error option \<times> net"

record ss_proxy =
  ss_ProxyRaw :: "json option"
  ss_Server :: string
  ss_Password :: string
  ss_Method :: string
  ss_proxy :: "proxy_ops option"
  ss_cipher :: "cipher_write option"

definition ShadowsocksProxy_Provision ::
  "loader \<Rightarrow> (string \<Rightarrow> string \<Rightarrow> go_error + cipher_write) \<Rightarrow> ss_proxy \<Rightarrow> go_error + ss_proxy" where
  "ShadowsocksProxy_Provision LoadModule PickCipher p =
     (case proxy_or_none LoadModule (ss_ProxyRaw p) of
        Inl e \<Rightarrow> Inl e
      | Inr px \<Rightarrow>
         (case PickCipher (ss_Method p) (ss_Password p) of
            Inl e \<Rightarrow> Inl (Wrap ''pick cipher error: '' e)
          | Inr c \<Rightarrow> Inr (p\<lparr>ss_proxy := Some px, ss_cipher := Some c\<rparr>)))"

definition ShadowsocksProxy_Dial :: "(string \<Rightarrow> bytes option) \<Rightarrow> ss_proxy \<Rightarrow> dial_fun" where
  "ShadowsocksProxy_Dial parse_addr p network addr w =
     (if network \<notin> {''tcp'', ''tcp4'', ''tcp6''} then ret (Inl (Wrap ''dial '' (Msg ''network error'')), w)
      else on_proxy (ss_proxy p) (\<lambda>px.
        cont (px_Dial px ''tcp'' (ss_Server p) w) (\<lambda>(r, w).
          case r of
            Inl e \<Rightarrow> ret (Inl e, w)
          | Inr h \<Rightarrow> on_proxy (ss_cipher p) (\<lambda>conn_Write.
             (case parse_addr addr of
                None \<Rightarrow> ret (Inl (Msg (''parse address: '' @ addr @ '' error'')), net_Close h w)
              | Some tgt \<Rightarrow>
                 (case conn_Write h tgt w of
                    (Some e, w) \<Rightarrow> ret (Inl e, net_Close h w)
                  | (None, w) \<Rightarrow> ret (Inr h, w)))))))"

text \<open>The socket is not closed when the address of the server does not resolve.\<close>

definition ShadowsocksProxy_ListenPacket ::
  "(string \<Rightarrow> go_error + 'a) \<Rightarrow> ss_proxy \<Rightarrow> string \<Rightarrow> string \<Rightarrow> net \<Rightarrow> ((go_error + nat) \<times> net) run" where
  "ShadowsocksProxy_ListenPacket resolve_udp p network addr w =
     on_proxy (ss_proxy p) (\<lambda>px.
       cont (px_ListenPacket px network addr w) (\<lambda>(r, w).
         case r of
           Inl e \<Rightarrow> ret (Inl e, w)
         | Inr h \<Rightarrow>
            (case resolve_udp (ss_Server p) of
               Inl e \<Rightarrow> ret (Inl (Wrap ''resolve address error: '' e), w)
             | Inr _ \<Rightarrow> on_proxy (ss_cipher p) (\<lambda>_. ret (Inr h, w)))))"

definition ShadowsocksProxy_Close :: "ss_proxy \<Rightarrow> net \<Rightarrow> (go_error option \<times> net) run" where
  "ShadowsocksProxy_Close p = close_proxy (ss_proxy p)"

definition ShadowsocksProxy ::
  "(string \<Rightarrow> bytes option) \<Rightarrow> (string \<Rightarrow> go_error + 'a) \<Rightarrow> ss_proxy \<Rightarrow> proxy_ops" where
  "ShadowsocksProxy parse_addr resolve_udp p =
     \<lparr>px_Close = ShadowsocksProxy_Close p, px_Dial = ShadowsocksProxy_Dial parse_addr p,
      px_ListenPacket = ShadowsocksProxy_ListenPacket resolve_udp p\<rparr>"

section \<open>Datagrams\<close>

text \<open>
  \<open>WriteTo\<close>: the datagram that is handed to the cipher's packet connection, and the results,
  given what that connection answers for it. A nil \<open>Addr\<close> is an empty slice.
\<close>

definition ss_WriteTo ::
  "(string \<Rightarrow> bytes option) \<Rightarrow> (bytes \<Rightarrow> int \<times> go_error option) \<Rightarrow> bytes \<Rightarrow> string \<Rightarrow>
    bytes \<times> int \<times> go_error option" where
  "ss_WriteTo parse_addr inner buf addr =
     (let srcAddr = (case parse_addr addr of None \<Rightarrow> [] | Some a \<Rightarrow> a);
          buf = srcAddr @ buf;
          (n, err) = inner buf
      in (buf, n - int (length srcAddr), err))"

text \<open>
  \<open>ReadFrom\<close> into the buffer \<open>b\<close>, given what the inner connection read: the datagram, which
  it copied to the front of \<open>b\<close>, or its error. The result is the buffer and the count, or
  an error.
\<close>

definition ss_ReadFrom ::
  "(bytes \<Rightarrow> bytes option) \<Rightarrow> (bytes \<Rightarrow> string) \<Rightarrow> (string \<Rightarrow> go_error + 'a) \<Rightarrow>
    go_error + bytes \<Rightarrow> bytes \<Rightarrow> ((go_error + nat \<times> 'a) \<times> bytes) outcome" where
  "ss_ReadFrom split_addr addr_text resolve_udp inner b =
     (case inner of
        Inl e \<Rightarrow> Returns (Inl e, b)
      | Inr data \<Rightarrow>
          let n = min (length data) (length b); b = copy_at b 0 (take n data) in
          and_then (slice b 0 n) (\<lambda>d.
            case split_addr d of
              None \<Rightarrow> Returns (Inl (Msg ''split address error: %!w(<nil>)''), b)
            | Some tgt \<Rightarrow>
               (case resolve_udp (addr_text tgt) of
                  Inl e \<Rightarrow> Returns (Inl (Wrap ''resolve address error: '' e), b)
                | Inr tgtUDP \<Rightarrow>
                    and_then (slice b (length tgt) n) (\<lambda>payload.
                      Returns (Inr (n - length tgt, tgtUDP), copy_at b 0 payload)))))"

section \<open>The contract of a dialer\<close>

locale stream_cipher =
  fixes conn_Write :: cipher_write
  assumes write_owns: "owns w (Inr h) w1 \<Longrightarrow> conn_Write h bs w1 = (e, w2) \<Longrightarrow> owns w (Inr h) w2"

text \<open>The plain connection is the cipher of the method \<open>DUMMY\<close>.\<close>

interpretation dummy: stream_cipher net_Write
  by unfold_locales (rule owns_Write)

locale ss_chain = dialer p + stream_cipher conn_Write
  for p :: proxy_ops and conn_Write :: cipher_write +
  fixes parse_addr :: "string \<Rightarrow> bytes option" and ss :: ss_proxy
  assumes over: "ss_proxy ss = Some p" and sealed: "ss_cipher ss = Some conn_Write"
begin

lemma ss_dial_returns: "ShadowsocksProxy_Dial parse_addr ss network addr w \<noteq> None"
  by (auto simp: ShadowsocksProxy_Dial_def cont_returns dial_returns over sealed
      simp del: not_None_eq split: sum.splits option.splits prod.splits)

lemma ss_dial_owns:
  assumes "ShadowsocksProxy_Dial parse_addr ss network addr w = ret (r, w')"
  shows "owns w r w'"
proof (cases "network \<in> {''tcp'', ''tcp4'', ''tcp6''}")
  case False
  with assms show ?thesis by (auto simp: ShadowsocksProxy_Dial_def)
next
  case True
  with assms obtain r1 w1 where 1: "px_Dial p ''tcp'' (ss_Server ss) w = ret (r1, w1)"
    by (auto simp: ShadowsocksProxy_Dial_def cont_ret_iff over)
  note own = dial_owns [OF 1]
  show ?thesis
  proof (cases r1)
    case (Inl e)
    with assms True 1 own show ?thesis by (auto simp: ShadowsocksProxy_Dial_def over)
  next
    case (Inr h)
    show ?thesis
    proof (cases "parse_addr addr")
      case None
      with assms True 1 Inr own show ?thesis
        by (auto simp: ShadowsocksProxy_Dial_def over sealed owns_Close)
    next
      case (Some tgt)
      obtain e w2 where wr: "conn_Write h tgt w1 = (e, w2)" by (metis prod.exhaust)
      from write_owns [OF own [unfolded Inr] wr] have "owns w (Inr h) w2" .
      with assms True 1 Inr Some wr show ?thesis
        by (cases e) (auto simp: ShadowsocksProxy_Dial_def over sealed owns_Close)
    qed
  qed
qed

end

sublocale ss_chain \<subseteq> shadowsocks: dialer "ShadowsocksProxy parse_addr resolve_udp ss"
  for resolve_udp
  by unfold_locales (simp_all add: ShadowsocksProxy_def ss_dial_returns ss_dial_owns)

interpretation ss_direct: ss_chain NoProxy net_Write parse_addr
  "ss\<lparr>ss_proxy := Some NoProxy, ss_cipher := Some net_Write\<rparr>" for parse_addr ss
  by unfold_locales simp_all

context ss_chain
begin

lemma is_dialer: "dialer (ShadowsocksProxy parse_addr resolve_udp ss)"
  by (rule shadowsocks.dialer_axioms)

end

text \<open>
  C16: chaining keeps the contract of a dialer. Over any first hop that keeps it (and a
  cipher that only touches its own connection), a dial through \<open>HttpProxy\<close>, \<open>BlockDomain\<close> or
  \<open>ShadowsocksProxy\<close> always returns; it leaves every earlier connection as it was, and of the
  connections it made exactly the one it returns is open: on each of the error paths the
  connection to the proxy has been closed.
\<close>

theorem chained_dials_leak_nothing:
  assumes "dialer px" "stream_cipher conn_Write"
  shows "\<forall>q \<in> {HttpProxy lib (hp\<lparr>hp_proxy := Some px\<rparr>), BlockDomain (d\<lparr>bd_proxy := Some px\<rparr>),
      ShadowsocksProxy parse_addr resolve_udp (ss\<lparr>ss_proxy := Some px, ss_cipher := Some conn_Write\<rparr>)}.
    \<forall>network addr w. px_Dial q network addr w \<noteq> None \<and>
      (\<forall>r w'. px_Dial q network addr w = ret (r, w') \<longrightarrow>
        take (length (nt_conns w)) (nt_conns w') = nt_conns w \<and>
        new_open w w' = (case r of Inl _ \<Rightarrow> [] | Inr h \<Rightarrow> [h]))"
proof -
  have "http_chain px (hp\<lparr>hp_proxy := Some px\<rparr>)" "block_chain px (d\<lparr>bd_proxy := Some px\<rparr>)"
    using assms(1) by (simp_all add: http_chain_def http_chain_axioms_def block_chain_def block_chain_axioms_def)
  moreover have "ss_chain px conn_Write (ss\<lparr>ss_proxy := Some px, ss_cipher := Some conn_Write\<rparr>)"
    using assms by (simp add: ss_chain_def ss_chain_axioms_def)
  ultimately have d: "dialer (HttpProxy lib (hp\<lparr>hp_proxy := Some px\<rparr>))"
    "dialer (BlockDomain (d\<lparr>bd_proxy := Some px\<rparr>))"
    "dialer (ShadowsocksProxy parse_addr resolve_udp (ss\<lparr>ss_proxy := Some px, ss_cipher := Some conn_Write\<rparr>))"
    by (blast intro: http_chain.is_dialer block_chain.is_dialer ss_chain.is_dialer)+
  then show ?thesis
    using dialer.dial_returns dialer.dial_owns by (fastforce simp: owns_def keeps_def)
qed

theorem chained_dials_leak_nothing_witness:
  "px_Dial (HttpProxy sample_lib (sample_proxy\<lparr>hp_proxy := Some NoProxy\<rparr>)) ''tcp'' ''d:1'' sample_net \<noteq> None"
  using chained_dials_leak_nothing [OF direct.dialer_axioms dummy.stream_cipher_axioms,
      of sample_lib sample_proxy undefined "\<lambda>_. None" "\<lambda>_. Inl EOF" undefined] by blast

section \<open>What the packet connection carries\<close>

text \<open>
  The datagram \<open>WriteTo\<close> puts on the wire is read back by \<open>ReadFrom\<close> at the other end of
  the cipher as the same payload for the same target, for every payload (the empty one
  included) and any buffer that holds the datagram; and \<open>WriteTo\<close> reports the length of the
  payload, without the header it added. The laws of the third-party address codec are the
  hypotheses: an encoded address is found again in front of any payload and renders as the
  text it was parsed from.
\<close>

theorem ss_datagram_roundtrip:
  assumes "parse_addr addr = Some tgt" "split_addr (tgt @ payload) = Some tgt" "addr_text tgt = addr"
    "resolve_udp addr = Inr udp" "length tgt + length payload \<le> length b"
    "ss_WriteTo parse_addr (\<lambda>d. (int (length d), None)) payload addr = (wire, n, err)"
  shows "err = None \<and> n = int (length payload) \<and>
    (\<exists>b'. ss_ReadFrom split_addr addr_text resolve_udp (Inr wire) b = Returns (Inr (length payload, udp), b') \<and>
      take (length payload) b' = payload)"
proof -
  from assms(1,6) have w: "wire = tgt @ payload" "n = int (length payload)" "err = None"
    by (simp_all add: ss_WriteTo_def Let_def)
  let ?b = "copy_at b 0 (tgt @ payload)"
  have b: "?b = tgt @ payload @ drop (length tgt + length payload) b"
    using assms(5) by (simp add: copy_at_def)
  have s: "slice ?b 0 (length tgt + length payload) = Returns (tgt @ payload)"
    "slice ?b (length tgt) (length tgt + length payload) = Returns payload"
    unfolding b by (simp_all add: slice_def)
  have "ss_ReadFrom split_addr addr_text resolve_udp (Inr wire) b =
      Returns (Inr (length payload, udp), copy_at ?b 0 payload)"
    using assms(2-5) s by (simp add: ss_ReadFrom_def w min_absorb1 Let_def)
  moreover have "take (length payload) (copy_at ?b 0 payload) = payload"
    using assms(5) by (simp add: copy_at_def)
  ultimately show ?thesis using w by blast
qed

text \<open>A codec with the laws, for addresses of one letter.\<close>

theorem ss_datagram_roundtrip_witness:
  "\<exists>b'. ss_ReadFrom (\<lambda>d. Some (take 1 d)) string_of_bytes (\<lambda>a. Inr a) (Inr [97, 1, 2]) (replicate 4 0) =
      Returns (Inr (2 :: nat, ''a''), b') \<and> take 2 b' = [1, 2]"
proof -
  let ?pa = "\<lambda>a. Some (bytes_of_string a)" and ?sa = "\<lambda>d. Some (take 1 d)"
  have a: "bytes_of_string ''a'' = [97]" by (simp add: bytes_of_string_def)
  then have 1: "?pa ''a'' = Some [97]" "?sa ([97] @ [1, 2]) = Some [97 :: byte]" "string_of_bytes [97] = ''a''"
    using string_of_bytes_of_string [of "''a''"] by simp_all
  have 2: "(\<lambda>a. Inr a) ''a'' = (Inr ''a'' :: go_error + string)" by simp
  have 3: "length [97 :: byte] + length [1, 2 :: byte] \<le> length (replicate 4 (0 :: byte))" by simp
  have 4: "ss_WriteTo ?pa (\<lambda>d. (int (length d), None)) [1, 2] ''a'' = ([97, 1, 2], 2, None)"
    by (simp add: ss_WriteTo_def a)
  from ss_datagram_roundtrip [where split_addr = ?sa and parse_addr = ?pa and addr_text = string_of_bytes
      and resolve_udp = "\<lambda>a. Inr a", OF 1 2 3 4] show ?thesis by (simp add: numeral_2_eq_2)
qed

text \<open>
  When the name of the server does not resolve, \<open>ListenPacket\<close> reports the error and leaves
  the socket it just opened behind.
\<close>

theorem ss_listen_leaks:
  assumes "net_Dial network addr w = (Inr h, w1)" "resolve_udp (ss_Server ss) = Inl e"
  shows "px_ListenPacket (ShadowsocksProxy parse_addr resolve_udp (ss\<lparr>ss_proxy := Some NoProxy\<rparr>)) network addr w =
      ret (Inl (Wrap ''resolve address error: '' e), w1) \<and> new_open w w1 = [h]"
  using assms owns_net_Dial [OF assms(1)]
  by (simp add: ShadowsocksProxy_def ShadowsocksProxy_ListenPacket_def NoProxy_def
      NoProxy_ListenPacket_def owns_def)

theorem ss_listen_leaks_witness:
  "\<exists>w1. px_ListenPacket (ShadowsocksProxy (\<lambda>_. None) (\<lambda>_. Inl EOF)
      (\<lparr>ss_ProxyRaw = None, ss_Server = [], ss_Password = [], ss_Method = [], ss_proxy = None,
        ss_cipher = None\<rparr>\<lparr>ss_proxy := Some NoProxy\<rparr>)) ''udp'' [] sample_net =
      ret (Inl (Wrap ''resolve address error: '' EOF), w1) \<and> new_open sample_net w1 = [0]"
proof -
  obtain w1 where "net_Dial ''udp'' [] sample_net = (Inr 0, w1)"
    by (simp add: net_Dial_def sample_net_def)
  from ss_listen_leaks [OF this, of "\<lambda>_. Inl EOF"] show ?thesis by blast
qed

end
