(* ===== verification/Unix_Proxy.thy ===== *)
theory Unix_Proxy
  imports Dialers Go_Net
begin

text \<open>
  \<open>UnixProxy\<close> of \<open>app/proxy_unix.go\<close>: the handshake it writes to a UNIX socket, its
  \<open>Provision\<close>, \<open>Dial\<close> and \<open>ListenPacket\<close>. The comment above the code describes the layout
  of the handshake; \<open>read_handshake\<close> is a reader for that layout, and the round trip is
  stated against it. \<open>Dial\<close> does not keep the contract of a dialer: it forgets to close the
  socket when the handshake fails.
\<close>

section \<open>The proxy\<close>

record unix_proxy =
  ux_Path :: string

definition UnixProxy_Provision :: "unix_proxy \<Rightarrow> go_error option" where
  "UnixProxy_Provision u = (if ux_Path u = [] then Some (Msg ''empty path'') else None)"

definition unix_magic :: string where "unix_magic = ''caddy-trojan''"

definition net_type :: "string \<Rightarrow> byte option" where
  "net_type network =
     (if network \<in> {''tcp'', ''tcp4'', ''tcp6''} then Some 0x01
      else if network \<in> {''udp'', ''udp4'', ''udp6''} then Some 0x02
      else None)"

text \<open>The bytes of the address: a nil \<open>net.IP\<close> is the empty slice.\<close>

definition unix_address :: "string \<Rightarrow> go_error + bytes" where
  "unix_address host =
     (let ip = (case ParseIP host of None \<Rightarrow> [] | Some ip \<Rightarrow> ip) in
      case To4 ip of
        Some ip4 \<Rightarrow> Inr (0x01 # ip4)
      | None \<Rightarrow>
         (case To16 ip of
            Some ip16 \<Rightarrow> Inr (0x02 # ip16)
          | None \<Rightarrow>
              if 255 < length host then Inl (Msg ''domain name too long'')
              else Inr (0x03 # word_of_nat (length host) # bytes_of_string host)))"

definition unix_handshake :: "string \<Rightarrow> string \<Rightarrow> go_error + bytes" where
  "unix_handshake network addr =
     (if length unix_magic \<noteq> 12 then Inl (Msg ''magic string must be 12 bytes'')
      else case net_type network of
        None \<Rightarrow> Inl (Msg (''unsupported network type: '' @ network))
      | Some nt \<Rightarrow>
         (case SplitHostPort addr of
            Inl e \<Rightarrow> Inl (Wrap ''invalid addr: '' e)
          | Inr (host, portStr) \<Rightarrow>
             (case Atoi portStr of
                Inl e \<Rightarrow> Inl (Wrap ''invalid port: '' e)
              | Inr port \<Rightarrow>
                 (case unix_address host of
                    Inl e \<Rightarrow> Inl e
                  | Inr a \<Rightarrow>
                      Inr (bytes_of_string unix_magic @ [0x01, nt] @ a @ [byte_hi port, byte_lo port])))))"

definition writeTrojanUnixHandshake :: "nat \<Rightarrow> string \<Rightarrow> string \<Rightarrow> net \<Rightarrow> go_error option \<times> net" where
  "writeTrojanUnixHandshake h network addr w =
     (case unix_handshake network addr of
        Inl e \<Rightarrow> (Some e, w)
      | Inr bs \<Rightarrow> net_Write h bs w)"

definition UnixProxy_Dial :: "unix_proxy \<Rightarrow> string \<Rightarrow> string \<Rightarrow> net \<Rightarrow> ((go_error + nat) \<times> net) run" where
  "UnixProxy_Dial u network addr w =
     (if ux_Path u = [] then ret (Inl (Msg ''path is empty''), w)
      else case net_Dial ''unix'' (ux_Path u) w of
        (Inl e, w) \<Rightarrow> ret (Inl e, w)
      | (Inr h, w) \<Rightarrow>
         (case writeTrojanUnixHandshake h network addr w of
            (Some e, w) \<Rightarrow> ret (Inl e, w)
          | (None, w) \<Rightarrow> ret (Inr h, w)))"

definition UnixProxy_Close :: "net \<Rightarrow> (go_error option \<times> net) run" where
  "UnixProxy_Close w = ret (None, w)"

definition UnixProxy_ListenPacket :: "string \<Rightarrow> string \<Rightarrow> net \<Rightarrow> ((go_error + nat) \<times> net) run" where
  "UnixProxy_ListenPacket network addr w =
     ret (Inl (Msg ''unix proxy currently does not support UDP''), w)"

definition UnixProxy :: "unix_proxy \<Rightarrow> proxy_ops" where
  "UnixProxy u = \<lparr>px_Close = UnixProxy_Close, px_Dial = UnixProxy_Dial u,
     px_ListenPacket = UnixProxy_ListenPacket\<rparr>"

section \<open>The layout\<close>

datatype unix_target = UnixIP4 bytes | UnixIP6 bytes | UnixDomain string

definition read_unix_port :: "unix_target \<Rightarrow> bytes \<Rightarrow> (unix_target \<times> nat \<times> bytes) option" where
  "read_unix_port t bs =
     (case bs of hi # lo # rest \<Rightarrow> Some (t, be16 hi lo, rest) | _ \<Rightarrow> None)"

definition read_unix_target :: "bytes \<Rightarrow> (unix_target \<times> nat \<times> bytes) option" where
  "read_unix_target bs =
     (case bs of
        [] \<Rightarrow> None
      | t # d \<Rightarrow>
          if t = 1 \<and> 4 \<le> length d then read_unix_port (UnixIP4 (take 4 d)) (drop 4 d)
          else if t = 2 \<and> 16 \<le> length d then read_unix_port (UnixIP6 (take 16 d)) (drop 16 d)
          else if t = 3 \<and> d \<noteq> [] \<and> unat (hd d) \<le> length (tl d)
          then read_unix_port (UnixDomain (string_of_bytes (take (unat (hd d)) (tl d))))
                 (drop (unat (hd d)) (tl d))
          else None)"

text \<open>Magic, version and network type, then the target; what follows is returned.\<close>

definition read_handshake :: "bytes \<Rightarrow> (byte \<times> unix_target \<times> nat \<times> bytes) option" where
  "read_handshake bs =
     (if 14 \<le> length bs \<and> take 12 bs = bytes_of_string ''caddy-trojan'' \<and> bs ! 12 = 1
      then map_option (\<lambda>r. (bs ! 13, r)) (read_unix_target (drop 14 bs)) else None)"

text \<open>What a host name means to the proxy.\<close>

definition unix_meaning :: "string \<Rightarrow> unix_target" where
  "unix_meaning host =
     (case ParseIP host of
        None \<Rightarrow> UnixDomain host
      | Some ip \<Rightarrow> (case To4 ip of Some ip4 \<Rightarrow> UnixIP4 ip4 | None \<Rightarrow> UnixIP6 ip))"

lemma read_unix_address:
  assumes "unix_address host = Inr a"
  shows "read_unix_target (a @ hi # lo # rest) = Some (unix_meaning host, be16 hi lo, rest)"
proof (cases "ParseIP host")
  case None
  with assms have a: "a = 3 # word_of_nat (length host) # bytes_of_string host" "length host \<le> 255"
    by (auto simp: unix_address_def To4_def To16_def split: if_splits)
  then have "unat (word_of_nat (length host) :: byte) = length host"
    by (simp add: unat_of_nat)
  with None a show ?thesis
    by (simp add: read_unix_target_def read_unix_port_def unix_meaning_def)
next
  case (Some ip)
  note len = ParseIP_length [OF Some]
  show ?thesis
  proof (cases "To4 ip")
    case None
    with Some len assms have "a = 2 # ip"
      by (simp add: unix_address_def To16_def)
    with Some None len show ?thesis
      by (simp add: read_unix_target_def read_unix_port_def unix_meaning_def)
  next
    case (Some p)
    with \<open>ParseIP host = Some ip\<close> assms have "a = 1 # p"
      by (simp add: unix_address_def)
    with \<open>ParseIP host = Some ip\<close> Some To4_length [OF Some] show ?thesis
      by (simp add: read_unix_target_def read_unix_port_def unix_meaning_def)
  qed
qed

lemma unix_address_ok: "length host \<le> 255 \<Longrightarrow> \<exists>a. unix_address host = Inr a"
  by (simp add: unix_address_def Let_def split: option.splits)

text \<open>
  C23: for every target a session can ask for (a host without brackets of at most 255 bytes
  and a port), dialing a working socket writes one handshake, which the documented layout
  reads back as the network, the address (an IPv4 address also when it was written as IPv6)
  and the port, with the bytes of the session right behind it.
\<close>

theorem unix_handshake_roundtrip:
  assumes "ux_Path u \<noteq> []" "net_Dial ''unix'' (ux_Path u) w = (Inr h, w1)"
    "nt_conns w1 ! h = \<lparr>nc_in = s, nc_out = [], nc_wres = [], nc_open = True\<rparr>"
    "net_type network = Some nt" "plain_host host" "length host \<le> 255" "port < 65536"
  shows "\<exists>w'. px_Dial (UnixProxy u) network (JoinHostPort host (itoa port)) w = ret (Inr h, w') \<and>
    owns w (Inr h) w' \<and>
    (\<forall>data. read_handshake (nc_out (nt_conns w' ! h) @ data) =
      Some (nt, unix_meaning host, port, data))"
proof -
  note own = owns_net_Dial [OF assms(2)]
  note h = owns_result [OF own]
  obtain a where a: "unix_address host = Inr a" using unix_address_ok [OF assms(6)] by blast
  let ?bs = "bytes_of_string unix_magic @ [0x01, nt] @ a @ [byte_hi (int port), byte_lo (int port)]"
  have "Atoi (itoa port) = Inr (int port)" by (rule Atoi_itoa) (use assms(7) in simp)
  then have hs: "unix_handshake network (JoinHostPort host (itoa port)) = Inr ?bs"
    using assms(4) Split_Join [OF assms(5) plain_port_itoa] a
    by (simp add: unix_handshake_def unix_magic_def)
  obtain w' where w': "net_Write h ?bs w1 = (None, w')" "nc_out (nt_conns w' ! h) = ?bs"
    using h(2) assms(3) by (simp add: net_Write_def net_upd_def Let_def)
  have "be16 (byte_hi (int port)) (byte_lo (int port)) = port"
    using be16_byte_hi_lo [of "int port"] assms(7) by simp
  then have "read_handshake (?bs @ data) = Some (nt, unix_meaning host, port, data)" for data
    using read_unix_address [OF a, of "byte_hi (int port)" "byte_lo (int port)" data]
    by (simp add: read_handshake_def unix_magic_def bytes_of_string_def)
  moreover have "owns w (Inr h) w'" by (rule owns_Write [OF own w'(1)])
  ultimately show ?thesis
    using assms(1,2) hs w' by (simp add: UnixProxy_def UnixProxy_Dial_def writeTrojanUnixHandshake_def)
qed

definition unix_net :: net where
  "unix_net = \<lparr>nt_dials = [Inr \<lparr>nc_in = \<lparr>is_chunks = [], is_last = [], is_err = EOF\<rparr>,
     nc_out = [], nc_wres = [], nc_open = True\<rparr>], nt_log = [], nt_conns = []\<rparr>"

lemma unix_net_Dial:
  "\<exists>w1. net_Dial network addr unix_net = (Inr 0, w1) \<and>
    nt_conns w1 ! 0 = \<lparr>nc_in = \<lparr>is_chunks = [], is_last = [], is_err = EOF\<rparr>,
      nc_out = [], nc_wres = [], nc_open = True\<rparr>"
  by (simp add: net_Dial_def unix_net_def)

theorem unix_handshake_roundtrip_witness:
  "\<exists>w'. px_Dial (UnixProxy \<lparr>ux_Path = ''/s''\<rparr>) ''tcp'' (JoinHostPort ''a.b'' (itoa 80)) unix_net =
      ret (Inr 0, w') \<and>
    (\<forall>data. read_handshake (nc_out (nt_conns w' ! 0) @ data) = Some (1, UnixDomain ''a.b'', 80, data))"
proof -
  let ?u = "\<lparr>ux_Path = ''/s''\<rparr>"
  obtain w1 where w1: "net_Dial ''unix'' (ux_Path ?u) unix_net = (Inr 0, w1)"
    "nt_conns w1 ! 0 = \<lparr>nc_in = \<lparr>is_chunks = [], is_last = [], is_err = EOF\<rparr>,
      nc_out = [], nc_wres = [], nc_open = True\<rparr>" using unix_net_Dial by blast
  have 1: "ux_Path ?u \<noteq> []" "net_type ''tcp'' = Some 1" "plain_host ''a.b''" "length ''a.b'' \<le> 255"
    "(80 :: nat) < 65536" by (simp_all add: net_type_def plain_host_def)
  have "unix_meaning ''a.b'' = UnixDomain ''a.b''"
    by (simp add: unix_meaning_def ParseIP_def parseIPv4_def)
  with unix_handshake_roundtrip [OF 1(1) w1 1(2-5)] show ?thesis by auto
qed

text \<open>
  When the handshake cannot be written, because the write fails or because the target
  is refused (a domain with a bracket, which an authenticated client can ask for), \<open>Dial\<close>
  reports the error and leaves the socket open: nobody can close it any more.
\<close>

theorem unix_dial_leaks:
  assumes "ux_Path u \<noteq> []" "net_Dial ''unix'' (ux_Path u) w = (Inr h, w1)"
    "writeTrojanUnixHandshake h network addr w1 = (Some e, w2)"
  shows "px_Dial (UnixProxy u) network addr w = ret (Inl e, w2) \<and> new_open w w2 = [h] \<and>
    \<not> dialer (UnixProxy u)"
proof -
  have run: "px_Dial (UnixProxy u) network addr w = ret (Inl e, w2)"
    using assms by (simp add: UnixProxy_def UnixProxy_Dial_def)
  have "owns w (Inr h) w2"
    using assms(3) owns_net_Dial [OF assms(2)] owns_Write [OF owns_net_Dial [OF assms(2)]]
    by (auto simp: writeTrojanUnixHandshake_def split: sum.splits)
  then have leak: "new_open w w2 = [h]" by (simp add: owns_def)
  have "\<not> dialer (UnixProxy u)"
  proof
    assume "dialer (UnixProxy u)"
    from dialer.failed_dial_leaks_nothing [OF this run] leak show False by simp
  qed
  with run leak show ?thesis by blast
qed

theorem unix_dial_leaks_witness:
  "\<exists>e w2. px_Dial (UnixProxy \<lparr>ux_Path = ''/s''\<rparr>) ''tcp'' ''a]b:80'' unix_net = ret (Inl e, w2) \<and>
     new_open unix_net w2 = [0]"
proof -
  let ?u = "\<lparr>ux_Path = ''/s''\<rparr>"
  obtain w1 where w1: "net_Dial ''unix'' (ux_Path ?u) unix_net = (Inr 0, w1)"
    using unix_net_Dial by blast
  have "\<exists>e. SplitHostPort ''a]b:80'' = Inl e"
    by (simp add: SplitHostPort_def LastIndexByte_def split_rest_def)
  then obtain e where "writeTrojanUnixHandshake 0 ''tcp'' ''a]b:80'' w1 = (Some e, w1)"
    by (auto simp: writeTrojanUnixHandshake_def unix_handshake_def unix_magic_def net_type_def)
  from unix_dial_leaks [OF _ w1 this] show ?thesis by auto
qed

end
