(* ===== verification/Wireguard_Proxy.thy ===== *)
theory Wireguard_Proxy
  imports Dialers Go_Net
begin

text \<open>
  \<open>WireGuardProxy\<close> of \<open>app/proxy_wireguard.go\<close>: the order of the checks of \<open>Provision\<close>, the
  configuration text it hands to the device, and which parts of the proxy exist after each
  failure. The device and its network stack are third-party code and parameters.
\<close>

section \<open>netip\<close>

type_synonym netip_addr = "bytes \<times> string"

definition bad_addr :: "string \<Rightarrow> string \<Rightarrow> go_error" where
  "bad_addr s why = Msg (''ParseAddr('' @ s @ ''): '' @ why)"

text \<open>\<open>netip.ParseAddr\<close>: the bytes of the address and its zone.\<close>

definition parseIPv6_zone :: "string \<Rightarrow> go_error + netip_addr" where
  "parseIPv6_zone s =
     (let addr = takeWhile (\<lambda>c. c \<noteq> CHR ''%'') s; zone = drop (length addr + 1) s in
      if CHR ''%'' \<in> set s \<and> zone = [] then Inl (bad_addr s ''zone must be a non-empty string'')
      else (case parseIPv6 addr of
             None \<Rightarrow> Inl (bad_addr s ''unable to parse IP'')
           | Some ip \<Rightarrow> Inr (ip, zone)))"

fun netip_from :: "string \<Rightarrow> string \<Rightarrow> go_error + netip_addr" where
  "netip_from s [] = Inl (bad_addr s ''unable to parse IP'')"
| "netip_from s (c # cs) =
     (if c = CHR ''.'' then
        (case parseIPv4 s of None \<Rightarrow> Inl (bad_addr s ''unable to parse IP'') | Some ip \<Rightarrow> Inr (ip, []))
      else if c = CHR '':'' then parseIPv6_zone s
      else if c = CHR ''%'' then Inl (bad_addr s ''missing IPv6 address'')
      else netip_from s cs)"

definition netip_ParseAddr :: "string \<Rightarrow> go_error + netip_addr" where
  "netip_ParseAddr s = netip_from s s"

text \<open>\<open>netip.ParseAddrPort\<close>: brackets exactly around an IPv6 address.\<close>

definition port16 :: "string \<Rightarrow> nat option" where
  "port16 p =
     (if p = [] \<or> \<not> list_all is_digit p \<or> 65535 < digits_value p then None else Some (digits_value p))"

definition netip_ParseAddrPort :: "string \<Rightarrow> go_error + netip_addr \<times> nat" where
  "netip_ParseAddrPort s =
     (case LastIndexByte s CHR '':'' of
        None \<Rightarrow> Inl (Msg ''not an ip:port'')
      | Some i \<Rightarrow>
          let ip = take i s; port = drop (i + 1) s; v6 = (ip \<noteq> [] \<and> hd ip = CHR ''['') in
          if ip = [] then Inl (Msg ''no IP'')
          else if port = [] then Inl (Msg ''no port'')
          else if v6 \<and> (length ip < 2 \<or> last ip \<noteq> CHR '']'') then Inl (Msg ''missing ]'')
          else case port16 port of
                 None \<Rightarrow> Inl (Msg ''invalid port'')
               | Some n \<Rightarrow>
                  (case netip_ParseAddr (if v6 then butlast (tl ip) else ip) of
                     Inl e \<Rightarrow> Inl e
                   | Inr a \<Rightarrow>
                       if v6 = (length (fst a) = 4)
                       then Inl (Msg ''square brackets can only be used with IPv6 addresses, and must be'')
                       else Inr (a, n)))"

section \<open>The proxy\<close>

record wg_lib =
  wl_CreateNetTUN :: "netip_addr list \<Rightarrow> netip_addr list \<Rightarrow> nat \<Rightarrow> go_error option"
  wl_IpcSet :: "string \<Rightarrow> go_error option"
  wl_Up :: "string \<Rightarrow> go_error option"
  wl_Dial :: "string \<Rightarrow> string \<Rightarrow> net \<Rightarrow> (go_error + nat) \<times> net"
  wl_ListenUDP :: "netip_addr \<times> nat \<Rightarrow> net \<Rightarrow> (go_error + nat) \<times> net"

text \<open>\<open>wg_tnet\<close> and \<open>wg_dev\<close> tell whether the pointers are set, the device with its text.\<close>

record wireguard_proxy =
  wg_Address :: string
  wg_DNSServer :: string
  wg_PrivateKey :: string
  wg_PublicKey :: string
  wg_AllowedIP :: string
  wg_Endpoint :: string
  wg_dev :: "string option"
  wg_tnet :: bool

definition LF :: string where "LF = [CHR 0x0A]"

definition wg_conf :: "wireguard_proxy \<Rightarrow> string" where
  "wg_conf p =
     ''private_key='' @ wg_PrivateKey p @ LF @
     ''public_key='' @ wg_PublicKey p @ LF @
     ''allowed_ip='' @ wg_AllowedIP p @ LF @
     ''endpoint='' @ wg_Endpoint p @ LF"

definition WireGuardProxy_Provision :: "wg_lib \<Rightarrow> wireguard_proxy \<Rightarrow> go_error option \<times> wireguard_proxy" where
  "WireGuardProxy_Provision lib p =
     (case netip_ParseAddr (wg_Address p) of
        Inl e \<Rightarrow> (Some (Wrap ''parse address error: '' e), p)
      | Inr addr \<Rightarrow>
     (case netip_ParseAddr (wg_DNSServer p) of
        Inl e \<Rightarrow> (Some (Wrap ''parse dns server error: '' e), p)
      | Inr naddr \<Rightarrow>
     (case wl_CreateNetTUN lib [addr] [naddr] 1420 of
        Some e \<Rightarrow> (Some (Wrap ''create netstack error: '' e), p)
      | None \<Rightarrow>
         let p = p\<lparr>wg_tnet := True\<rparr>;
             p = (if wg_AllowedIP p = [] then p\<lparr>wg_AllowedIP := ''0.0.0.0/0''\<rparr> else p);
             conf = wg_conf p
         in case wl_IpcSet lib conf of
              Some e \<Rightarrow> (Some (Wrap ''set config error: '' e), p)
            | None \<Rightarrow>
                let p = p\<lparr>wg_dev := Some conf\<rparr>
                in case wl_Up lib conf of
                     Some e \<Rightarrow> (Some (Wrap ''device up error: '' e), p)
                   | None \<Rightarrow> (None, p))))"

definition WireGuardProxy_Close :: "wireguard_proxy \<Rightarrow> net \<Rightarrow> (go_error option \<times> net) run" where
  "WireGuardProxy_Close p w = on_proxy (wg_dev p) (\<lambda>_. ret (None, w))"

definition WireGuardProxy_Dial ::
  "wg_lib \<Rightarrow> wireguard_proxy \<Rightarrow> string \<Rightarrow> string \<Rightarrow> net \<Rightarrow> ((go_error + nat) \<times> net) run" where
  "WireGuardProxy_Dial lib p network addr w =
     (if \<not> wg_tnet p then Some (Panics NilDeref) else ret (wl_Dial lib network addr w))"

definition WireGuardProxy_ListenPacket ::
  "wg_lib \<Rightarrow> wireguard_proxy \<Rightarrow> string \<Rightarrow> string \<Rightarrow> net \<Rightarrow> ((go_error + nat) \<times> net) run" where
  "WireGuardProxy_ListenPacket lib p network addr w =
     (case netip_ParseAddrPort addr of
        Inl e \<Rightarrow> ret (Inl e, w)
      | Inr naddr \<Rightarrow>
          if \<not> wg_tnet p then Some (Panics NilDeref) else ret (wl_ListenUDP lib naddr w))"

definition WireGuardProxy :: "wg_lib \<Rightarrow> wireguard_proxy \<Rightarrow> proxy_ops" where
  "WireGuardProxy lib p = \<lparr>px_Close = WireGuardProxy_Close p, px_Dial = WireGuardProxy_Dial lib p,
     px_ListenPacket = WireGuardProxy_ListenPacket lib p\<rparr>"

text \<open>
  A device that does not come up is left behind: \<open>Provision\<close> fails with the device made and
  configured, and a proxy that could not be loaded is never closed.
\<close>

lemma failed_device_is_not_closed:
  assumes "netip_ParseAddr (wg_Address p) = Inr a" "netip_ParseAddr (wg_DNSServer p) = Inr d"
    "wl_CreateNetTUN lib [a] [d] 1420 = None" "\<And>conf. wl_IpcSet lib conf = None" "\<And>conf. wl_Up lib conf = Some e"
  shows "\<exists>p'. WireGuardProxy_Provision lib p = (Some (Wrap ''device up error: '' e), p') \<and> wg_dev p' \<noteq> None"
  using assms by (simp add: WireGuardProxy_Provision_def Let_def)

section \<open>UDP through WireGuard\<close>

text \<open>
  A UDP session asks every proxy for a packet connection with the empty address; that is not
  an \<open>ip:port\<close>, so that \<open>ListenPacket\<close> fails before it reaches the device.
\<close>

theorem wireguard_refuses_udp_sessions:
  "px_ListenPacket (WireGuardProxy lib p) ''udp'' [] w = ret (Inl (Msg ''not an ip:port''), w)"
  by (simp add: WireGuardProxy_def WireGuardProxy_ListenPacket_def netip_ParseAddrPort_def LastIndexByte_def)

section \<open>The configuration text\<close>

lemma split_on_line: "CHR 0x0A \<notin> set v \<Longrightarrow> split_on (CHR 0x0A) (v @ LF @ r) = v # split_on (CHR 0x0A) r"
  by (simp add: LF_def split_on_append)

text \<open>
  The text has one line per setting, in the order the device expects them, as long as no
  setting contains a line feed, and the allowed address is never missing.
\<close>

theorem wireguard_conf_lines:
  assumes "WireGuardProxy_Provision lib p = (None, p')"
    "list_all (\<lambda>v. CHR 0x0A \<notin> set v) [wg_PrivateKey p, wg_PublicKey p, wg_AllowedIP p, wg_Endpoint p]"
  shows "wg_AllowedIP p' \<noteq> [] \<and> (\<exists>conf. wg_dev p' = Some conf \<and> wg_tnet p' \<and>
    split_on (CHR 0x0A) conf = [''private_key='' @ wg_PrivateKey p, ''public_key='' @ wg_PublicKey p,
      ''allowed_ip='' @ wg_AllowedIP p', ''endpoint='' @ wg_Endpoint p, []])"
proof -
  let ?p = "(if wg_AllowedIP p = [] then p\<lparr>wg_tnet := True, wg_AllowedIP := ''0.0.0.0/0''\<rparr> else p\<lparr>wg_tnet := True\<rparr>)"
  from assms(1) have p': "p' = ?p\<lparr>wg_dev := Some (wg_conf ?p)\<rparr>"
    by (auto simp: WireGuardProxy_Provision_def Let_def split: sum.splits option.splits)
  have "split_on (CHR 0x0A) (wg_conf q) = [''private_key='' @ wg_PrivateKey q, ''public_key='' @ wg_PublicKey q,
      ''allowed_ip='' @ wg_AllowedIP q, ''endpoint='' @ wg_Endpoint q, []]"
    if "list_all (\<lambda>v. CHR 0x0A \<notin> set v) [wg_PrivateKey q, wg_PublicKey q, wg_AllowedIP q, wg_Endpoint q]" for q
    using that split_on_line [of "''private_key='' @ wg_PrivateKey q"]
      split_on_line [of "''public_key='' @ wg_PublicKey q"]
      split_on_line [of "''allowed_ip='' @ wg_AllowedIP q"]
      split_on_line [of "''endpoint='' @ wg_Endpoint q" "[]"]
    by (simp add: wg_conf_def)
  from this [of ?p] assms(2) show ?thesis unfolding p' by (cases "wg_AllowedIP p = []") simp_all
qed

end
