(* ===== verification/Proxy_Registry.thy ===== *)
theory Proxy_Registry
  imports Shadowsocks_Proxy Unix_Proxy Wireguard_Proxy
begin

text \<open>
  \<open>app/proxy_registry.go\<close> and the parsers the proxies register in their \<open>init\<close> functions:
  each turns the arguments of a Caddyfile directive into the JSON of a configured module.
  The JSON of a struct follows its field tags. \<open>JSONModuleObject\<close> of caddy is a parameter with
  the documented effect that it adds the field which names the module.
\<close>

section \<open>The registry\<close>

type_synonym parser = "string list \<Rightarrow> go_error + json"
type_synonym parsers = "string \<rightharpoonup> parser"

definition RegisterProxyParser :: "string \<Rightarrow> parser \<Rightarrow> parsers \<Rightarrow> parsers outcome" where
  "RegisterProxyParser name parser reg =
     (if reg name \<noteq> None then Panics (ExplicitPanic (''proxy type already registered: '' @ name))
      else Returns (reg(name \<mapsto> parser)))"

definition GetProxyParser :: "parsers \<Rightarrow> string \<Rightarrow> parser option" where
  "GetProxyParser reg name = reg name"

section \<open>The JSON of the proxies\<close>

definition raw_json :: "json option \<Rightarrow> json" where
  "raw_json r = (case r of None \<Rightarrow> JNull | Some j \<Rightarrow> j)"

text \<open>A string field with \<open>omitempty\<close>.\<close>

definition omitempty :: "string \<Rightarrow> string \<Rightarrow> (string \<times> json) list" where
  "omitempty k v = (if v = [] then [] else [(k, JStr v)])"

definition no_json :: json where "no_json = JObj []"

definition env_json :: "env_proxy \<Rightarrow> json" where
  "env_json p = JObj [(''pre_proxy'', raw_json (ep_ProxyRaw p))]"

definition socks_json :: "socks_proxy \<Rightarrow> json" where
  "socks_json p = JObj ([(''pre_proxy'', raw_json (sk_ProxyRaw p)), (''server'', JStr (sk_Server p))] @
     omitempty ''user'' (sk_User p) @ omitempty ''password'' (sk_Password p))"

definition http_json :: "http_proxy \<Rightarrow> json" where
  "http_json p = JObj ([(''pre_proxy'', raw_json (hp_ProxyRaw p)), (''server'', JStr (hp_Server p))] @
     omitempty ''user'' (hp_User p) @ omitempty ''password'' (hp_Password p))"

definition ss_json :: "ss_proxy \<Rightarrow> json" where
  "ss_json p = JObj [(''pre_proxy'', raw_json (ss_ProxyRaw p)), (''server'', JStr (ss_Server p)),
     (''password'', JStr (ss_Password p)), (''method'', JStr (ss_Method p))]"

definition unix_json :: "unix_proxy \<Rightarrow> json" where
  "unix_json p = JObj [(''path'', JStr (ux_Path p))]"

section \<open>The parsers\<close>

definition parse_none :: "module_object \<Rightarrow> parser" where
  "parse_none jmo args = Inr (jmo no_json ''proxy'' ''none'')"

definition parse_env :: "module_object \<Rightarrow> parser" where
  "parse_env jmo args =
     RemoveNullKeysFromJSON (Inr (jmo (env_json \<lparr>ep_ProxyRaw = None, ep_proxy = None, ep_dialer = None\<rparr>)
       ''proxy'' ''env''))"

definition parse_socks :: "module_object \<Rightarrow> parser" where
  "parse_socks jmo args =
     (if length args < 1 then Inl (Msg ''server params is missing'')
      else if length args = 2 then Inl (Msg ''passwd params is missing'')
      else
        let socks = \<lparr>sk_ProxyRaw = None, sk_Server = args ! 0, sk_User = [], sk_Password = [],
                     sk_proxy = None, sk_dialer = None\<rparr>;
            socks = (if 1 < length args then socks\<lparr>sk_User := args ! 1, sk_Password := args ! 2\<rparr> else socks)
        in RemoveNullKeysFromJSON (Inr (jmo (socks_json socks) ''proxy'' ''socks'')))"

definition parse_http :: "module_object \<Rightarrow> parser" where
  "parse_http jmo args =
     (if length args < 1 then Inl (Msg ''server params is missing'')
      else if length args = 2 then Inl (Msg ''passwd params is missing'')
      else
        let http = \<lparr>hp_ProxyRaw = None, hp_Server = args ! 0, hp_User = [], hp_Password = [],
                    hp_proxy = None, hp_basicAuth = [], hp_tcpURL = []\<rparr>;
            http = (if 1 < length args then http\<lparr>hp_User := args ! 1, hp_Password := args ! 2\<rparr> else http)
        in RemoveNullKeysFromJSON (Inr (jmo (http_json http) ''proxy'' ''http'')))"

definition parse_drop :: "module_object \<Rightarrow> parser" where
  "parse_drop jmo args = Inr (jmo no_json ''proxy'' ''drop'')"

definition parse_shadowsocks :: "module_object \<Rightarrow> parser" where
  "parse_shadowsocks jmo args =
     (if length args < 3 then Inl (Msg ''not enough shadowsocks config'')
      else
        let proxy = \<lparr>ss_ProxyRaw = None, ss_Server = args ! 0, ss_Password = args ! 1,
                     ss_Method = args ! 2, ss_proxy = None, ss_cipher = None\<rparr>
        in RemoveNullKeysFromJSON (Inr (jmo (ss_json proxy) ''proxy'' ''shadowsocks'')))"

definition parse_unix :: "module_object \<Rightarrow> parser" where
  "parse_unix jmo args =
     (if args = [] then Inl (Msg ''empty path is not allowed'')
      else Inr (jmo (unix_json \<lparr>ux_Path = args ! 0\<rparr>) ''proxy'' ''unix''))"

text \<open>The calls of the \<open>init\<close> functions, in the order in which the files are initialised.\<close>

definition proxy_registrations :: "module_object \<Rightarrow> (string \<times> parser) list" where
  "proxy_registrations jmo =
     [(''none'', parse_none jmo), (''no_proxy'', parse_none jmo),
      (''env'', parse_env jmo), (''env_proxy'', parse_env jmo),
      (''socks'', parse_socks jmo), (''socks_proxy'', parse_socks jmo),
      (''http'', parse_http jmo), (''http_proxy'', parse_http jmo),
      (''drop'', parse_drop jmo), (''drop_proxy'', parse_drop jmo)]"

definition ss_registrations :: "module_object \<Rightarrow> (string \<times> parser) list" where
  "ss_registrations jmo =
     [(''shadowsocks'', parse_shadowsocks jmo), (''shadowsocks_proxy'', parse_shadowsocks jmo)]"

definition unix_registrations :: "module_object \<Rightarrow> (string \<times> parser) list" where
  "unix_registrations jmo = [(''unix'', parse_unix jmo), (''unix_proxy'', parse_unix jmo)]"

definition registrations :: "module_object \<Rightarrow> (string \<times> parser) list" where
  "registrations jmo = proxy_registrations jmo @ ss_registrations jmo @ unix_registrations jmo"

lemmas registration_defs = registrations_def proxy_registrations_def ss_registrations_def
  unix_registrations_def

fun register_all :: "(string \<times> parser) list \<Rightarrow> parsers \<Rightarrow> parsers outcome" where
  "register_all [] reg = Returns reg"
| "register_all ((name, parser) # ps) reg =
     and_then (RegisterProxyParser name parser reg) (register_all ps)"

definition proxyParsers :: "module_object \<Rightarrow> parsers" where
  "proxyParsers jmo = map_of (registrations jmo)"

lemma register_all_ok:
  "distinct (map fst ps) \<Longrightarrow> \<forall>n \<in> fst ` set ps. reg n = None \<Longrightarrow> register_all ps reg = Returns (reg ++ map_of ps)"
proof (induction ps arbitrary: reg)
  case (Cons a ps)
  obtain n p where a: "a = (n, p)" by (metis prod.exhaust)
  have "register_all ps (reg(n \<mapsto> p)) = Returns (reg(n \<mapsto> p) ++ map_of ps)"
    using Cons a by (intro Cons.IH) (auto simp: image_iff)
  moreover have "reg(n \<mapsto> p) ++ map_of ps = reg ++ map_of ((n, p) # ps)"
    using Cons.prems(1) by (simp add: a map_add_upd_left map_of_eq_None_iff dom_map_of_conv_image_fst)
  ultimately show ?case using Cons.prems(2) unfolding a
    by (simp add: RegisterProxyParser_def del: map_of.simps map_add_upd)
qed simp

text \<open>No name is registered twice, so that the start of the program does not panic.\<close>

lemma registration_succeeds: "register_all (registrations jmo) Map.empty = Returns (proxyParsers jmo)"
  by (subst register_all_ok) (simp_all add: registration_defs proxyParsers_def)

section \<open>What the parsers produce\<close>

text \<open>The documented effect of \<open>JSONModuleObject\<close> on the JSON of a struct.\<close>

definition module_object_law :: "module_object \<Rightarrow> bool" where
  "module_object_law jmo \<longleftrightarrow> (\<forall>kvs f v. distinct (map fst kvs) \<longrightarrow>
     (\<exists>kvs'. jmo (JObj kvs) f v = JObj kvs' \<and> distinct (map fst kvs') \<and>
        map_of kvs' = (map_of kvs)(f \<mapsto> JStr v)))"

text \<open>A module of a namespace: its inline key names one of its modules; no null is left.\<close>

fun is_module :: "string \<Rightarrow> string set \<Rightarrow> json \<Rightarrow> bool" where
  "is_module f names (JObj kvs) \<longleftrightarrow>
     (\<exists>n \<in> names. map_of kvs f = Some (JStr n)) \<and> no_null_members (JObj kvs)"
| "is_module f names _ \<longleftrightarrow> False"

definition proxy_names :: "string set" where
  "proxy_names = {''none'', ''env'', ''socks'', ''http'', ''drop'', ''shadowsocks'', ''unix''}"

lemma map_of_rev_distinct: "distinct (map fst kvs) \<Longrightarrow> map_of (rev kvs) = map_of kvs"
  by (rule map_of_eqI) (auto simp: rev_map [symmetric])

lemma no_null_lookup:
  "distinct (map fst kvs) \<Longrightarrow>
    no_null_members (JObj kvs) \<longleftrightarrow> (\<forall>k v. map_of kvs k = Some v \<longrightarrow> v \<noteq> JNull \<and> no_null_members v)"
  by auto

lemma plain_module:
  assumes "module_object_law jmo" "distinct (map fst kvs)" "no_null_members (JObj kvs)" "n \<in> names"
  shows "is_module f names (jmo (JObj kvs) f n)"
proof -
  obtain kvs' where k: "jmo (JObj kvs) f n = JObj kvs'" "distinct (map fst kvs')"
    "map_of kvs' = (map_of kvs)(f \<mapsto> JStr n)"
    using assms(1,2) unfolding module_object_law_def by blast
  have "no_null_members (JObj kvs')"
    using assms(3) unfolding no_null_lookup [OF k(2)] no_null_lookup [OF assms(2)] k(3)
    by auto
  with k assms(4) show ?thesis by (auto simp del: no_null_members.simps)
qed

lemma cleaned_module:
  assumes "module_object_law jmo" "distinct (map fst kvs)" "n \<in> names"
    "RemoveNullKeysFromJSON (Inr (jmo (JObj kvs) f n)) = Inr j"
  shows "is_module f names j"
proof -
  obtain kvs' where k: "jmo (JObj kvs) f n = JObj kvs'" "distinct (map fst kvs')"
    "map_of kvs' = (map_of kvs)(f \<mapsto> JStr n)"
    using assms(1,2) unfolding module_object_law_def by blast
  let ?m = "last_wins (map (\<lambda>(k, v). (k, decode_any v)) kvs')"
  have j: "j = JObj (RemoveNullKeys ?m)"
    using assms(4) by (simp add: k(1) RemoveNullKeysFromJSON_object)
  have "map_of ?m f = Some (JStr n)"
    by (simp add: map_of_last_wins rev_map map_of_map map_of_rev_distinct [OF k(2)] k(3))
  then have "map_of (RemoveNullKeys ?m) f = Some (JStr n)"
    by (simp add: RemoveNullKeys_lookup distinct_last_wins)
  with assms(3) show ?thesis
    unfolding j by (auto simp: RemoveNullKeys_no_null simp del: no_null_members.simps)
qed

lemma parsed_proxy:
  assumes "module_object_law jmo" "GetProxyParser (proxyParsers jmo) name = Some parser" "parser args = Inr j"
  shows "is_module ''proxy'' proxy_names j"
proof -
  note names = proxy_names_def
  have none: "is_module ''proxy'' proxy_names (jmo no_json ''proxy'' n)" if "n \<in> proxy_names" for n
    unfolding no_json_def by (rule plain_module [OF assms(1) _ _ that]) simp_all
  have "(name, parser) \<in> set (registrations jmo)"
    using assms(2) by (auto simp: GetProxyParser_def proxyParsers_def dest: map_of_SomeD)
  then consider "parser = parse_none jmo" | "parser = parse_env jmo" | "parser = parse_socks jmo"
    | "parser = parse_http jmo" | "parser = parse_drop jmo" | "parser = parse_shadowsocks jmo"
    | "parser = parse_unix jmo"
    by (auto simp: registration_defs)
  then show ?thesis
  proof cases
    case 1
    with assms(3) none show ?thesis by (auto simp: parse_none_def names)
  next
    case 2
    with assms(3) show ?thesis
      by (auto simp: parse_env_def env_json_def names intro: cleaned_module [OF assms(1), rotated 2])
  next
    case 3
    with assms(3) show ?thesis
      by (auto simp: parse_socks_def socks_json_def omitempty_def Let_def names split: if_splits
          intro: cleaned_module [OF assms(1), rotated 2])
  next
    case 4
    with assms(3) show ?thesis
      by (auto simp: parse_http_def http_json_def omitempty_def Let_def names split: if_splits
          intro: cleaned_module [OF assms(1), rotated 2])
  next
    case 5
    with assms(3) none show ?thesis by (auto simp: parse_drop_def names)
  next
    case 6
    with assms(3) show ?thesis
      by (auto simp: parse_shadowsocks_def ss_json_def Let_def names split: if_splits
          intro: cleaned_module [OF assms(1), rotated 2])
  next
    case 7
    with assms(3) show ?thesis
      by (auto simp: parse_unix_def unix_json_def names split: if_splits intro: plain_module [OF assms(1)])
  qed
qed

end
