(* ===== verification/Caddyfile.thy ===== *)
theory Caddyfile
  imports Proxy_Registry "HOL-Library.AList"
begin

text \<open>
  The Caddyfile side of the program: the \<open>Dispenser\<close> of caddy, which is third-party code and
  a parameter, and \<open>parseCaddyfile\<close> of \<open>app/caddyfile.go\<close> over it. What the code relies on
  is the locale \<open>dispenser\<close>: a dispenser walks through segments of tokens, \<open>NextBlock\<close> moves
  to the next token of the block and \<open>RemainingArgs\<close> takes the rest of the current line. The
  code does not consume the arguments of every directive; what it leaves becomes the next
  directive, in the model as in the code.
\<close>

section \<open>The dispenser\<close>

record 'd dispenser_ops =
  dp_Next :: "'d \<Rightarrow> bool \<times> 'd"
  dp_NextBlock :: "nat \<Rightarrow> 'd \<Rightarrow> bool \<times> 'd"
  dp_Nesting :: "'d \<Rightarrow> nat"
  dp_Val :: "'d \<Rightarrow> string"
  dp_RemainingArgs :: "'d \<Rightarrow> string list \<times> 'd"
  dp_Arg :: "'d \<Rightarrow> string option \<times> 'd"

text \<open>\<open>dp_Arg\<close> is \<open>d.Args(&x)\<close> with one argument: \<open>None\<close> when the line has no further token.\<close>

text \<open>A token with the flag that it starts a line.\<close>

type_synonym tokens = "(string \<times> bool) list"

abbreviation line_rest :: "tokens \<Rightarrow> tokens" where
  "line_rest ts \<equiv> takeWhile (\<lambda>t. \<not> snd t) ts"

abbreviation next_lines :: "tokens \<Rightarrow> tokens" where
  "next_lines ts \<equiv> dropWhile (\<lambda>t. \<not> snd t) ts"

text \<open>
  \<open>rest\<close> are the tokens of the current segment that have not been visited, \<open>segs\<close> the
  segments after it, \<open>inside\<close> tells whether the dispenser is in the block.
\<close>

locale dispenser =
  fixes ops :: "'d dispenser_ops"
    and rest :: "'d \<Rightarrow> tokens" and segs :: "'d \<Rightarrow> tokens list"
    and inside :: "'d \<Rightarrow> bool" and base :: nat
  assumes next_none: "rest d = [] \<Longrightarrow> segs d = [] \<Longrightarrow> dp_Next ops d = (b, d') \<Longrightarrow> \<not> b"
    and next_some: "rest d = [] \<Longrightarrow> segs d = s # ss \<Longrightarrow> dp_Next ops d = (b, d') \<Longrightarrow>
      b \<and> rest d' = s \<and> segs d' = ss \<and> \<not> inside d' \<and> dp_Nesting ops d' = base"
    and block_end: "rest d = [] \<Longrightarrow> dp_NextBlock ops base d = (b, d') \<Longrightarrow>
      \<not> b \<and> rest d' = [] \<and> segs d' = segs d"
    and block_next: "rest d = t # ts \<Longrightarrow> inside d \<or> snd t \<Longrightarrow> dp_NextBlock ops base d = (b, d') \<Longrightarrow>
      b \<and> dp_Val ops d' = fst t \<and> rest d' = ts \<and> segs d' = segs d \<and> inside d'"
    and remaining: "dp_RemainingArgs ops d = (args, d') \<Longrightarrow>
      args = map fst (line_rest (rest d)) \<and> rest d' = next_lines (rest d) \<and> segs d' = segs d \<and>
      inside d' = inside d \<and> dp_Nesting ops d' = dp_Nesting ops d"
    and arg: "dp_Arg ops d = (x, d') \<Longrightarrow> segs d' = segs d \<and> inside d' = inside d \<and>
      (case line_rest (rest d) of [] \<Rightarrow> x = None \<and> rest d' = rest d
       | t # _ \<Rightarrow> x = Some (fst t) \<and> rest d' = tl (rest d))"

text \<open>Tokens in a list, with nothing else to say.\<close>

record tape =
  tp_cur :: string
  tp_rest :: tokens
  tp_segs :: "tokens list"
  tp_inside :: bool

definition tape_Next :: "tape \<Rightarrow> bool \<times> tape" where
  "tape_Next d =
     (case tp_segs d of
        s # ss \<Rightarrow>
          if tp_rest d = [] then (True, d\<lparr>tp_rest := s, tp_segs := ss, tp_inside := False\<rparr>)
          else (True, d\<lparr>tp_cur := fst (hd (tp_rest d)), tp_rest := tl (tp_rest d)\<rparr>)
      | [] \<Rightarrow>
          if tp_rest d = [] then (False, d)
          else (True, d\<lparr>tp_cur := fst (hd (tp_rest d)), tp_rest := tl (tp_rest d)\<rparr>))"

definition tape_NextBlock :: "nat \<Rightarrow> tape \<Rightarrow> bool \<times> tape" where
  "tape_NextBlock n d =
     (case tp_rest d of
        [] \<Rightarrow> (False, d\<lparr>tp_inside := False\<rparr>)
      | t # ts \<Rightarrow>
          if tp_inside d \<or> snd t then (True, d\<lparr>tp_cur := fst t, tp_rest := ts, tp_inside := True\<rparr>)
          else (False, d))"

definition tape_RemainingArgs :: "tape \<Rightarrow> string list \<times> tape" where
  "tape_RemainingArgs d =
     (map fst (line_rest (tp_rest d)), d\<lparr>tp_rest := next_lines (tp_rest d)\<rparr>)"

definition tape_Arg :: "tape \<Rightarrow> string option \<times> tape" where
  "tape_Arg d =
     (case line_rest (tp_rest d) of
        [] \<Rightarrow> (None, d) | t # _ \<Rightarrow> (Some (fst t), d\<lparr>tp_rest := tl (tp_rest d)\<rparr>))"

definition tape_ops :: "tape dispenser_ops" where
  "tape_ops = \<lparr>dp_Next = tape_Next, dp_NextBlock = tape_NextBlock, dp_Nesting = (\<lambda>_. 0),
     dp_Val = tp_cur, dp_RemainingArgs = tape_RemainingArgs, dp_Arg = tape_Arg\<rparr>"

lemmas tape_defs = tape_ops_def tape_Next_def tape_NextBlock_def tape_RemainingArgs_def tape_Arg_def

interpretation tape: dispenser tape_ops tp_rest tp_segs tp_inside 0
  by unfold_locales (auto simp: tape_defs split: list.splits if_splits)

section \<open>The configuration of the app\<close>

record app_config =
  ac_UpstreamRaw :: "json option"
  ac_ProxyRaw :: "json option"
  ac_NamedProxyRaw :: "(string \<times> json) list"
  ac_Users :: "string list"

definition new_app_config :: app_config where
  "new_app_config = \<lparr>ac_UpstreamRaw = None, ac_ProxyRaw = None, ac_NamedProxyRaw = [], ac_Users = []\<rparr>"

text \<open>\<open>MemoryUpstream\<close> has one configured field, \<open>CaddyUpstream\<close> none.\<close>

definition memory_json :: "json option \<Rightarrow> json" where
  "memory_json raw = JObj [(''persist'', raw_json raw)]"

definition ArgErr :: go_error where "ArgErr = Msg ''wrong argument count or unexpected line ending''"
definition one_upstream :: go_error where "one_upstream = Msg ''only one upstream is allowed''"
definition one_proxy :: go_error where "one_proxy = Msg ''only one proxy is allowed''"

definition caddy_upstream :: "module_object \<Rightarrow> json" where
  "caddy_upstream jmo = jmo (JObj []) ''upstream'' ''caddy''"

definition memory_upstream :: "module_object \<Rightarrow> json option \<Rightarrow> json" where
  "memory_upstream jmo raw = jmo (memory_json raw) ''upstream'' ''memory''"

definition directive_memory ::
  "module_object \<Rightarrow> app_config \<Rightarrow> string list \<Rightarrow> go_error + app_config" where
  "directive_memory jmo app args =
     (case args of
        [] \<Rightarrow>
          (case RemoveNullKeysFromJSON (Inr (memory_upstream jmo None)) of
             Inl e \<Rightarrow> Inl (Wrap ''remove null key error: '' e)
           | Inr raw \<Rightarrow> Inr (app\<lparr>ac_UpstreamRaw := Some raw\<rparr>))
      | arg # _ \<Rightarrow>
          if arg = ''caddy''
          then Inr (app\<lparr>ac_UpstreamRaw := Some (memory_upstream jmo (Some (caddy_upstream jmo)))\<rparr>)
          else Inl (Msg (''unknown upstream module: '' @ arg)))"

definition directive_proxy :: "parser \<Rightarrow> app_config \<Rightarrow> string list \<Rightarrow> go_error + app_config" where
  "directive_proxy parser app args =
     (case parser args of Inl e \<Rightarrow> Inl e | Inr raw \<Rightarrow> Inr (app\<lparr>ac_ProxyRaw := Some raw\<rparr>))"

definition directive_users :: "app_config \<Rightarrow> string list \<Rightarrow> go_error + app_config" where
  "directive_users app args =
     (if length args < 1 then Inl ArgErr
      else if [] \<in> set args then Inl (Msg ''empty user is not allowed'')
      else Inr (app\<lparr>ac_Users := ac_Users app @ args\<rparr>))"

definition directive_named :: "parsers \<Rightarrow> app_config \<Rightarrow> string list \<Rightarrow> go_error + app_config" where
  "directive_named reg app args =
     (case args of
        name # typ # params \<Rightarrow>
          (case GetProxyParser reg typ of
             None \<Rightarrow> Inl (Msg (''unsupported proxy type: '' @ typ))
           | Some parser \<Rightarrow>
              (case parser params of
                 Inl e \<Rightarrow> Inl e
               | Inr raw \<Rightarrow> Inr (app\<lparr>ac_NamedProxyRaw := AList.update name raw (ac_NamedProxyRaw app)\<rparr>)))
      | _ \<Rightarrow> Inl ArgErr)"

text \<open>The body of the loop over the block: one directive, named by the current token.\<close>

definition app_directive ::
  "'d dispenser_ops \<Rightarrow> parsers \<Rightarrow> module_object \<Rightarrow> app_config \<Rightarrow> 'd \<Rightarrow> (go_error + app_config) \<times> 'd" where
  "app_directive ops reg jmo app d =
     (let subdirective = dp_Val ops d; (args, d') = dp_RemainingArgs ops d in
      if subdirective = ''caddy'' then
        (if ac_UpstreamRaw app \<noteq> None then (Inl one_upstream, d)
         else (Inr (app\<lparr>ac_UpstreamRaw := Some (caddy_upstream jmo)\<rparr>), d))
      else if subdirective = ''memory'' then
        (if ac_UpstreamRaw app \<noteq> None then (Inl one_upstream, d)
         else (directive_memory jmo app args, d'))
      else if subdirective \<in> {''no_proxy'', ''env_proxy'', ''socks_proxy'', ''http_proxy'', ''unix_proxy''} then
        (if ac_ProxyRaw app \<noteq> None then (Inl one_proxy, d)
         else case GetProxyParser reg subdirective of
           None \<Rightarrow> (Inl (Msg (''unknown proxy type: '' @ subdirective)), d)
         | Some parser \<Rightarrow> (directive_proxy parser app args, d'))
      else if subdirective = ''users'' then (directive_users app args, d')
      else if subdirective = ''named_proxy'' then (directive_named reg app args, d')
      else (case GetProxyParser reg subdirective of
              Some parser \<Rightarrow>
                if ac_ProxyRaw app \<noteq> None then (Inl one_proxy, d)
                else (directive_proxy parser app args, d')
            | None \<Rightarrow> (Inl ArgErr, d)))"

partial_function (option) app_block ::
  "'d dispenser_ops \<Rightarrow> parsers \<Rightarrow> module_object \<Rightarrow> app_config \<Rightarrow> 'd \<Rightarrow> ((go_error + app_config) \<times> 'd) option" where
  "app_block ops reg jmo app d =
     (case dp_NextBlock ops 0 d of
        (entered, d) \<Rightarrow>
          if \<not> entered then Some (Inr app, d)
          else (case app_directive ops reg jmo app d of
                  (Inl e, d) \<Rightarrow> Some (Inl e, d)
                | (Inr app, d) \<Rightarrow> app_block ops reg jmo app d))"

partial_function (option) app_segments ::
  "'d dispenser_ops \<Rightarrow> parsers \<Rightarrow> module_object \<Rightarrow> app_config \<Rightarrow> 'd \<Rightarrow> (go_error + app_config) option" where
  "app_segments ops reg jmo app d =
     (case dp_Next ops d of
        (entered, d) \<Rightarrow>
          if \<not> entered then Some (Inr app)
          else (case app_block ops reg jmo app d of
                  None \<Rightarrow> None
                | Some (Inl e, d) \<Rightarrow> Some (Inl e)
                | Some (Inr app, d) \<Rightarrow> app_segments ops reg jmo app d))"

text \<open>What is missing gets its default: no proxy in between, users in memory.\<close>

definition app_defaults :: "module_object \<Rightarrow> app_config \<Rightarrow> go_error + app_config" where
  "app_defaults jmo app =
     (let app = (if ac_ProxyRaw app = None
                 then app\<lparr>ac_ProxyRaw := Some (jmo no_json ''proxy'' ''none'')\<rparr> else app) in
      if ac_UpstreamRaw app = None then
        (case RemoveNullKeysFromJSON (Inr (memory_upstream jmo None)) of
           Inl e \<Rightarrow> Inl (Wrap ''remove null key error: '' e)
         | Inr raw \<Rightarrow> Inr (app\<lparr>ac_UpstreamRaw := Some raw\<rparr>))
      else Inr app)"

definition parseCaddyfile ::
  "'d dispenser_ops \<Rightarrow> parsers \<Rightarrow> module_object \<Rightarrow> 'd \<Rightarrow> (go_error + app_config) option" where
  "parseCaddyfile ops reg jmo d =
     (case app_segments ops reg jmo new_app_config d of
        None \<Rightarrow> None
      | Some (Inl e) \<Rightarrow> Some (Inl e)
      | Some (Inr app) \<Rightarrow> Some (app_defaults jmo app))"

section \<open>What a parsed configuration is\<close>

definition upstream_names :: "string set" where
  "upstream_names = {''caddy'', ''memory''}"

abbreviation proxy_module :: "json \<Rightarrow> bool" where
  "proxy_module \<equiv> is_module ''proxy'' proxy_names"

abbreviation upstream_module :: "json \<Rightarrow> bool" where
  "upstream_module \<equiv> is_module ''upstream'' upstream_names"

definition partial_config :: "app_config \<Rightarrow> bool" where
  "partial_config app \<longleftrightarrow>
     pred_option upstream_module (ac_UpstreamRaw app) \<and> pred_option proxy_module (ac_ProxyRaw app) \<and>
     distinct (map fst (ac_NamedProxyRaw app)) \<and> list_all (proxy_module \<circ> snd) (ac_NamedProxyRaw app) \<and>
     [] \<notin> set (ac_Users app)"

lemma partial_new [simp]: "partial_config new_app_config"
  by (simp add: partial_config_def new_app_config_def)

definition valid_config :: "app_config \<Rightarrow> bool" where
  "valid_config app \<longleftrightarrow> partial_config app \<and> ac_UpstreamRaw app \<noteq> None \<and> ac_ProxyRaw app \<noteq> None"

lemma is_module_no_null: "is_module f names j \<Longrightarrow> j \<noteq> JNull \<and> no_null_members j"
  by (cases j) auto

lemma module_caddy: "module_object_law jmo \<Longrightarrow> upstream_module (caddy_upstream jmo)"
  unfolding caddy_upstream_def by (rule plain_module) (simp_all add: upstream_names_def)

lemma module_memory_caddy:
  "module_object_law jmo \<Longrightarrow> upstream_module (memory_upstream jmo (Some (caddy_upstream jmo)))"
  unfolding memory_upstream_def memory_json_def raw_json_def
  by (rule plain_module) (use is_module_no_null [OF module_caddy] in \<open>auto simp: upstream_names_def\<close>)

lemma module_memory:
  "module_object_law jmo \<Longrightarrow> RemoveNullKeysFromJSON (Inr (memory_upstream jmo None)) = Inr j \<Longrightarrow>
    upstream_module j"
  unfolding memory_upstream_def memory_json_def raw_json_def
  by (rule cleaned_module) (auto simp: upstream_names_def)

lemma module_none: "module_object_law jmo \<Longrightarrow> proxy_module (jmo no_json ''proxy'' ''none'')"
  unfolding no_json_def by (rule plain_module) (simp_all add: proxy_names_def)

lemma update_modules:
  "list_all (P \<circ> snd) kvs \<Longrightarrow> P v \<Longrightarrow> list_all (P \<circ> snd) (AList.update k v kvs)"
  by (induction kvs) auto

lemma directive_memory_partial:
  "module_object_law jmo \<Longrightarrow> partial_config app \<Longrightarrow> directive_memory jmo app args = Inr app' \<Longrightarrow> partial_config app'"
  using module_memory module_memory_caddy
  by (auto simp: directive_memory_def partial_config_def split: list.splits sum.splits if_splits)

lemma directive_proxy_partial:
  "module_object_law jmo \<Longrightarrow> partial_config app \<Longrightarrow> GetProxyParser (proxyParsers jmo) name = Some parser \<Longrightarrow>
    directive_proxy parser app args = Inr app' \<Longrightarrow> partial_config app'"
  using parsed_proxy
  by (auto simp: directive_proxy_def partial_config_def split: sum.splits)

lemma directive_users_partial:
  "partial_config app \<Longrightarrow> directive_users app args = Inr app' \<Longrightarrow> partial_config app'"
  by (auto simp: directive_users_def partial_config_def split: if_splits)

lemma directive_named_partial:
  "module_object_law jmo \<Longrightarrow> partial_config app \<Longrightarrow> directive_named (proxyParsers jmo) app args = Inr app' \<Longrightarrow> partial_config app'"
  using parsed_proxy
  by (auto simp: directive_named_def partial_config_def distinct_update update_modules
      split: list.splits option.splits sum.splits)

lemma app_directive_partial:
  "module_object_law jmo \<Longrightarrow> partial_config app \<Longrightarrow> app_directive ops (proxyParsers jmo) jmo app d = (Inr app', d') \<Longrightarrow>
    partial_config app'"
  using module_caddy
  by (auto simp: app_directive_def Let_def split: prod.splits if_splits option.splits
      intro: directive_memory_partial directive_proxy_partial directive_users_partial
        directive_named_partial)
    (auto simp: partial_config_def)

lemma app_defaults_valid:
  "module_object_law jmo \<Longrightarrow> partial_config app \<Longrightarrow> app_defaults jmo app = Inr app' \<Longrightarrow> valid_config app'"
  using module_memory module_none
  by (auto simp: app_defaults_def valid_config_def partial_config_def Let_def
      split: sum.splits if_splits)

section \<open>The parser returns\<close>

text \<open>A block starts on a line of its own.\<close>

definition block_lines :: "tokens \<Rightarrow> bool" where
  "block_lines s \<longleftrightarrow> s = [] \<or> snd (hd s)"

context dispenser
begin

lemma app_directive_walk:
  assumes "app_directive ops reg jmo app d = (r, d')"
  shows "segs d' = segs d \<and> inside d' = inside d \<and> length (rest d') \<le> length (rest d)"
proof -
  obtain args d1 where d1: "dp_RemainingArgs ops d = (args, d1)" by (metis prod.exhaust)
  from assms have "d' = d \<or> d' = d1"
    by (auto simp: app_directive_def d1 Let_def split: if_splits option.splits)
  with remaining [OF d1] show ?thesis by (auto simp: length_dropWhile_le)
qed

lemma app_block_walk:
  assumes "base = 0" "inside d \<or> block_lines (rest d)"
  shows "\<exists>r d'. app_block ops reg jmo app d = Some (r, d') \<and>
    (\<forall>a. r = Inr a \<longrightarrow> rest d' = [] \<and> segs d' = segs d \<and>
      (module_object_law jmo \<and> reg = proxyParsers jmo \<and> partial_config app \<longrightarrow> partial_config a))"
  using assms(2)
proof (induction "length (rest d)" arbitrary: d app rule: less_induct)
  case less
  obtain b d1 where d1: "dp_NextBlock ops base d = (b, d1)" by (metis prod.exhaust)
  show ?case
  proof (cases "rest d")
    case Nil
    with block_end [OF Nil d1] d1 assms(1) show ?thesis
      by (simp add: app_block.simps [of ops reg jmo app d])
  next
    case (Cons t ts)
    with less.prems have "inside d \<or> snd t" by (auto simp: block_lines_def)
    note n = block_next [OF Cons this d1]
    obtain r d2 where d2: "app_directive ops reg jmo app d1 = (r, d2)" by (metis prod.exhaust)
    note w = app_directive_walk [OF d2]
    show ?thesis
    proof (cases r)
      case (Inl e)
      with d1 d2 n assms(1) show ?thesis by (simp add: app_block.simps [of ops reg jmo app d])
    next
      case (Inr a)
      have "length (rest d2) < length (rest d)" "inside d2 \<or> block_lines (rest d2)"
        using w n Cons by auto
      from less.hyps [OF this, of a] obtain r' d' where r':
        "app_block ops reg jmo a d2 = Some (r', d')"
        "\<forall>c. r' = Inr c \<longrightarrow> rest d' = [] \<and> segs d' = segs d2 \<and>
          (module_object_law jmo \<and> reg = proxyParsers jmo \<and> partial_config a \<longrightarrow> partial_config c)"
        by blast
      moreover have "app_block ops reg jmo app d = Some (r', d')"
        using d1 d2 Inr n r'(1) assms(1) by (simp add: app_block.simps [of ops reg jmo app d])
      moreover have "module_object_law jmo \<and> reg = proxyParsers jmo \<and> partial_config app \<longrightarrow> partial_config a"
        using d2 Inr by (auto intro: app_directive_partial)
      ultimately show ?thesis using w n by auto
    qed
  qed
qed

lemma app_segments_walk:
  assumes "base = 0" "rest d = []" "\<forall>s \<in> set (segs d). block_lines s"
  shows "\<exists>r. app_segments ops reg jmo app d = Some r \<and>
    (\<forall>a. r = Inr a \<longrightarrow>
      (module_object_law jmo \<and> reg = proxyParsers jmo \<and> partial_config app \<longrightarrow> partial_config a))"
  using assms(2,3)
proof (induction "segs d" arbitrary: d app)
  case Nil
  obtain b d1 where d1: "dp_Next ops d = (b, d1)" by (metis prod.exhaust)
  from next_none [OF Nil(2) Nil(1) [symmetric] d1] d1 show ?case
    by (simp add: app_segments.simps [of ops reg jmo app d])
next
  case (Cons s ss)
  obtain b d1 where d1: "dp_Next ops d = (b, d1)" by (metis prod.exhaust)
  note n = next_some [OF Cons(3) Cons(2) [symmetric] d1]
  then have "inside d1 \<or> block_lines (rest d1)" using Cons(2,4) by (metis list.set_intros(1))
  from app_block_walk [OF assms(1) this, of reg jmo app] obtain r d2 where r:
    "app_block ops reg jmo app d1 = Some (r, d2)"
    "\<forall>a. r = Inr a \<longrightarrow> rest d2 = [] \<and> segs d2 = segs d1 \<and>
      (module_object_law jmo \<and> reg = proxyParsers jmo \<and> partial_config app \<longrightarrow> partial_config a)" by blast
  show ?case
  proof (cases r)
    case (Inl e)
    with d1 n r(1) show ?thesis by (simp add: app_segments.simps [of ops reg jmo app d])
  next
    case (Inr a)
    with r(2) n have d2: "rest d2 = []" "segs d2 = ss" by auto
    moreover have "\<forall>s \<in> set (segs d2). block_lines s" using d2(2) Cons(2,4) by (metis list.set_intros(2))
    ultimately obtain r' where r': "app_segments ops reg jmo a d2 = Some r'"
      "\<forall>c. r' = Inr c \<longrightarrow>
        (module_object_law jmo \<and> reg = proxyParsers jmo \<and> partial_config a \<longrightarrow> partial_config c)"
      using Cons(1) [of d2 a] by blast
    moreover have "app_segments ops reg jmo app d = Some r'"
      using d1 n r(1) Inr r'(1) by (simp add: app_segments.simps [of ops reg jmo app d])
    ultimately show ?thesis using r(2) Inr by blast
  qed
qed

lemma parseCaddyfile_walk:
  assumes "base = 0" "rest d = []" "\<forall>s \<in> set (segs d). block_lines s"
  shows "\<exists>r. parseCaddyfile ops reg jmo d = Some r \<and>
    (\<forall>a. r = Inr a \<longrightarrow> (module_object_law jmo \<and> reg = proxyParsers jmo \<longrightarrow> valid_config a))"
proof -
  obtain r where "app_segments ops reg jmo new_app_config d = Some r"
    "\<forall>a. r = Inr a \<longrightarrow> (module_object_law jmo \<and> reg = proxyParsers jmo \<longrightarrow> partial_config a)"
    using app_segments_walk [OF assms, of reg jmo new_app_config] by auto
  then show ?thesis
    by (cases r) (auto simp: parseCaddyfile_def intro: app_defaults_valid)
qed

end

text \<open>
  \<open>parseCaddyfile\<close> returns, a configuration or an error, for every sequence of blocks,
  whatever tokens they hold and whatever the parsers and the encoder do.
\<close>

theorem parse_caddyfile_returns:
  assumes "dispenser ops rest segs inside 0" "rest d = []" "\<forall>s \<in> set (segs d). block_lines s"
  shows "\<exists>r. parseCaddyfile ops reg jmo d = Some r"
  using dispenser.parseCaddyfile_walk [OF assms(1) refl assms(2,3), of reg jmo] by blast

text \<open>A configuration as in the documentation, one token list per line.\<close>

definition lines_tokens :: "string list list \<Rightarrow> tokens" where
  "lines_tokens ls = concat (map (\<lambda>l. case l of [] \<Rightarrow> [] | t # ts \<Rightarrow> (t, True) # map (\<lambda>x. (x, False)) ts) ls)"

definition sample_tape :: tape where
  "sample_tape = \<lparr>tp_cur = [], tp_rest = [], tp_segs = [lines_tokens
     [[''memory'', ''caddy''], [''socks_proxy'', ''h:1'', ''u'', ''p''], [''users'', ''pass1234'', ''word5678''],
      [''named_proxy'', ''d'', ''drop'']]], tp_inside = False\<rparr>"

lemma sample_tape_lines: "tp_rest sample_tape = []" "\<forall>s \<in> set (tp_segs sample_tape). block_lines s"
  by (simp_all add: sample_tape_def lines_tokens_def block_lines_def)

theorem parse_caddyfile_returns_witness:
  "\<exists>r. parseCaddyfile tape_ops (proxyParsers (\<lambda>v f n. v)) (\<lambda>v f n. v) sample_tape = Some r"
  by (rule parse_caddyfile_returns [OF tape.dispenser_axioms sample_tape_lines])

text \<open>An encoder with the documented effect.\<close>

fun module_object :: module_object where
  "module_object (JObj kvs) f n = JObj (AList.update f (JStr n) kvs)"
| "module_object j f n = j"

lemma module_object_ok: "module_object_law module_object"
  by (simp add: module_object_law_def distinct_update update_conv')

text \<open>
  C21: a configuration that the parser accepts is one the app can be provisioned with: the
  upstream and the proxy are there and name modules of their namespaces, so does every named
  proxy, under a name of its own; no member at any depth is null, which the module loader
  would take for a module; and no user is the empty string.
\<close>

theorem parsed_config_is_valid:
  assumes "dispenser ops rest segs inside 0" "rest d = []" "\<forall>s \<in> set (segs d). block_lines s"
    "module_object_law jmo" "parseCaddyfile ops (proxyParsers jmo) jmo d = Some (Inr app)"
  shows "\<exists>u p. ac_UpstreamRaw app = Some u \<and> is_module ''upstream'' upstream_names u \<and>
    ac_ProxyRaw app = Some p \<and> is_module ''proxy'' proxy_names p \<and>
    distinct (map fst (ac_NamedProxyRaw app)) \<and>
    list_all (is_module ''proxy'' proxy_names \<circ> snd) (ac_NamedProxyRaw app) \<and> [] \<notin> set (ac_Users app)"
  using dispenser.parseCaddyfile_walk [OF assms(1) refl assms(2,3), of "proxyParsers jmo" jmo] assms(4,5)
  by (auto simp: valid_config_def partial_config_def)

lemma tape_steps:
  "dp_Next tape_ops d = tape_Next d" "dp_NextBlock tape_ops n d = tape_NextBlock n d"
  "dp_Val tape_ops d = tp_cur d" "dp_RemainingArgs tape_ops d = tape_RemainingArgs d"
  "dp_Arg tape_ops d = tape_Arg d" "dp_Nesting tape_ops d = 0"
  by (simp_all add: tape_ops_def)

lemmas tape_run = tape_steps tape_Next_def tape_NextBlock_def tape_RemainingArgs_def tape_Arg_def

lemma sample_parser:
  "GetProxyParser (proxyParsers jmo) ''drop'' = Some (parse_drop jmo)"
  "GetProxyParser (proxyParsers jmo) ''socks_proxy'' = Some (parse_socks jmo)"
  by (simp_all add: GetProxyParser_def proxyParsers_def registration_defs)

text \<open>A tape in the middle of a block, with whole lines to go.\<close>

definition tape_at :: "string \<Rightarrow> string list list \<Rightarrow> tape" where
  "tape_at c ls = \<lparr>tp_cur = c, tp_rest = lines_tokens ls, tp_segs = [], tp_inside = True\<rparr>"

definition tape_on :: "string \<Rightarrow> string list \<Rightarrow> string list list \<Rightarrow> tape" where
  "tape_on t args ls = \<lparr>tp_cur = t, tp_rest = map (\<lambda>x. (x, False)) args @ lines_tokens ls,
     tp_segs = [], tp_inside = True\<rparr>"

lemma lines_tokens_Cons:
  "lines_tokens ((t # args) # ls) = (t, True) # map (\<lambda>x. (x, False)) args @ lines_tokens ls"
  by (simp add: lines_tokens_def)

lemma tape_on_args: "dp_RemainingArgs tape_ops (tape_on t args ((u # us) # ls)) = (args, tape_at t ((u # us) # ls))"
  "dp_RemainingArgs tape_ops (tape_on t args []) = (args, tape_at t [])"
  by (induction args) (simp_all add: tape_run tape_on_def tape_at_def lines_tokens_Cons lines_tokens_def)

lemma tape_on_Val: "dp_Val tape_ops (tape_on t args ls) = t"
  by (simp add: tape_run tape_on_def)

lemma app_block_line: "app_block tape_ops reg jmo app (tape_at c ((t # args) # ls)) =
    (case app_directive tape_ops reg jmo app (tape_on t args ls) of
       (Inl e, d) \<Rightarrow> Some (Inl e, d) | (Inr app, d) \<Rightarrow> app_block tape_ops reg jmo app d)"
  by (subst app_block.simps) (simp add: tape_run lines_tokens_Cons tape_at_def tape_on_def)

lemma sample_parsed:
  "\<exists>app. parseCaddyfile tape_ops (proxyParsers module_object) module_object sample_tape = Some (Inr app) \<and>
    ac_UpstreamRaw app = Some (JObj [(''persist'', JObj [(''upstream'', JStr ''caddy'')]), (''upstream'', JStr ''memory'')]) \<and>
    ac_ProxyRaw app = Some (JObj [(''server'', JStr ''h:1''), (''user'', JStr ''u''), (''password'', JStr ''p''),
        (''proxy'', JStr ''socks'')]) \<and>
    ac_NamedProxyRaw app = [(''d'', JObj [(''proxy'', JStr ''drop'')])] \<and>
    ac_Users app = [''pass1234'', ''word5678'']"
proof -
  let ?reg = "proxyParsers module_object" and ?jmo = module_object
  let ?block = "app_block tape_ops ?reg ?jmo" and ?dir = "app_directive tape_ops ?reg ?jmo"
  let ?l2 = "[''socks_proxy'', ''h:1'', ''u'', ''p'']" and ?l3 = "[''users'', ''pass1234'', ''word5678'']"
    and ?l4 = "[''named_proxy'', ''d'', ''drop'']"
  let ?u = "JObj [(''persist'', JObj [(''upstream'', JStr ''caddy'')]), (''upstream'', JStr ''memory'')]"
  let ?p = "JObj [(''server'', JStr ''h:1''), (''user'', JStr ''u''), (''password'', JStr ''p''), (''proxy'', JStr ''socks'')]"
  let ?n = "[(''d'', JObj [(''proxy'', JStr ''drop'')])]"
  let ?c1 = "new_app_config\<lparr>ac_UpstreamRaw := Some ?u\<rparr>"
  let ?c2 = "?c1\<lparr>ac_ProxyRaw := Some ?p\<rparr>"
  let ?c3 = "?c2\<lparr>ac_Users := [''pass1234'', ''word5678'']\<rparr>"
  let ?c4 = "?c3\<lparr>ac_NamedProxyRaw := ?n\<rparr>"
  note dir = app_directive_def tape_on_args tape_on_Val new_app_config_def
  have 1: "?dir new_app_config (tape_on ''memory'' [''caddy''] [?l2, ?l3, ?l4]) =
      (Inr ?c1, tape_at ''memory'' [?l2, ?l3, ?l4])"
    by (simp add: dir directive_memory_def memory_upstream_def caddy_upstream_def memory_json_def raw_json_def Let_def)
  have "parse_socks ?jmo [''h:1'', ''u'', ''p''] = Inr ?p"
    by (simp add: parse_socks_def socks_json_def omitempty_def raw_json_def RemoveNullKeysFromJSON_object)
  then have 2: "?dir ?c1 (tape_on ''socks_proxy'' [''h:1'', ''u'', ''p''] [?l3, ?l4]) =
      (Inr ?c2, tape_at ''socks_proxy'' [?l3, ?l4])"
    by (simp add: dir sample_parser directive_proxy_def)
  have 3: "?dir ?c2 (tape_on ''users'' [''pass1234'', ''word5678''] [?l4]) = (Inr ?c3, tape_at ''users'' [?l4])"
    by (simp add: dir directive_users_def)
  have "parse_drop ?jmo [] = Inr (JObj [(''proxy'', JStr ''drop'')])"
    by (simp add: parse_drop_def no_json_def)
  then have 4: "?dir ?c3 (tape_on ''named_proxy'' [''d'', ''drop''] []) = (Inr ?c4, tape_at ''named_proxy'' [])"
    by (simp add: dir directive_named_def sample_parser)
  have "\<exists>d. ?block ?c4 (tape_at ''named_proxy'' []) = Some (Inr ?c4, d) \<and> tp_rest d = [] \<and> tp_segs d = []"
    by (subst app_block.simps) (simp add: tape_run tape_at_def lines_tokens_def)
  then obtain d where d: "?block ?c4 (tape_at ''named_proxy'' []) = Some (Inr ?c4, d)"
    "tp_rest d = []" "tp_segs d = []" by blast
  let ?start = "\<lparr>tp_cur = [], tp_rest = lines_tokens [[''memory'', ''caddy''], ?l2, ?l3, ?l4],
      tp_segs = [], tp_inside = False\<rparr>"
  have "?block new_app_config ?start = (case ?dir new_app_config (tape_on ''memory'' [''caddy''] [?l2, ?l3, ?l4]) of
      (Inl e, d) \<Rightarrow> Some (Inl e, d) | (Inr app, d) \<Rightarrow> ?block app d)"
    by (subst app_block.simps) (simp add: tape_run lines_tokens_Cons tape_on_def)
  then have block: "?block new_app_config ?start = Some (Inr ?c4, d)"
    using d(1) by (simp only: 1 2 3 4 app_block_line prod.case sum.case)
  have "app_segments tape_ops ?reg ?jmo ?c4 d = Some (Inr ?c4)"
    using d(2,3) by (subst app_segments.simps) (simp add: tape_run)
  then have "app_segments tape_ops ?reg ?jmo new_app_config sample_tape = Some (Inr ?c4)"
    using block by (subst app_segments.simps) (simp add: tape_run sample_tape_def)
  then show ?thesis by (simp add: parseCaddyfile_def app_defaults_def Let_def)
qed

theorem parsed_config_is_valid_witness:
  "\<exists>app. parseCaddyfile tape_ops (proxyParsers module_object) module_object sample_tape = Some (Inr app) \<and>
    ac_Users app = [''pass1234'', ''word5678''] \<and> [] \<notin> set (ac_Users app) \<and>
    list_all (is_module ''proxy'' proxy_names \<circ> snd) (ac_NamedProxyRaw app)"
proof -
  obtain app where app: "parseCaddyfile tape_ops (proxyParsers module_object) module_object sample_tape = Some (Inr app)"
    "ac_Users app = [''pass1234'', ''word5678'']" using sample_parsed by blast
  from parsed_config_is_valid [OF tape.dispenser_axioms sample_tape_lines module_object_ok app(1)] app
  show ?thesis by blast
qed

end
