(* ===== verification/Modules.thy ===== *)
theory Modules
  imports Caddyfile
begin

text \<open>
  The modules of the program: what their \<open>CaddyModule\<close> methods return and what the \<open>init\<close>
  functions register, in the order in which Go runs them. The registry itself belongs to caddy
  and is a parameter: the locale \<open>module_registry\<close> states the documented behaviour that is used,
  that a module with a new, non-empty name is registered and is then found under its name. With
  this the names that the Caddyfile parsers write can be followed to the types that are loaded.
\<close>

section \<open>The modules\<close>

text \<open>The types of the program that are modules; \<open>New\<close> of a module gives a new value of one.\<close>

datatype go_type =
    NoProxy_t | noProxy_t | EnvProxy_t | envProxy_t | SocksProxy_t | HttpProxy_t | DropProxy_t
  | BlockDomain_t | ShadowsocksProxy_t | UnixProxy_t | WireGuardProxy_t | CaddyUpstream_t
  | MemoryUpstream_t | App_t | Admin_t | Handler_t | ListenerWrapper_t

record module_info =
  mi_ID :: string
  mi_New :: go_type

definition NoProxy_CaddyModule :: module_info where
  "NoProxy_CaddyModule = \<lparr>mi_ID = ''trojan.proxy.none'', mi_New = NoProxy_t\<rparr>"
definition noProxy_CaddyModule :: module_info where
  "noProxy_CaddyModule = \<lparr>mi_ID = ''trojan.proxy.no_proxy'', mi_New = noProxy_t\<rparr>"
definition EnvProxy_CaddyModule :: module_info where
  "EnvProxy_CaddyModule = \<lparr>mi_ID = ''trojan.proxy.env'', mi_New = EnvProxy_t\<rparr>"
definition envProxy_CaddyModule :: module_info where
  "envProxy_CaddyModule = \<lparr>mi_ID = ''trojan.proxy.env_proxy'', mi_New = envProxy_t\<rparr>"
definition SocksProxy_CaddyModule :: module_info where
  "SocksProxy_CaddyModule = \<lparr>mi_ID = ''trojan.proxy.socks'', mi_New = SocksProxy_t\<rparr>"
definition HttpProxy_CaddyModule :: module_info where
  "HttpProxy_CaddyModule = \<lparr>mi_ID = ''trojan.proxy.http'', mi_New = HttpProxy_t\<rparr>"
definition DropProxy_CaddyModule :: module_info where
  "DropProxy_CaddyModule = \<lparr>mi_ID = ''trojan.proxy.drop'', mi_New = DropProxy_t\<rparr>"
definition BlockDomain_CaddyModule :: module_info where
  "BlockDomain_CaddyModule = \<lparr>mi_ID = ''trojan.proxy.block_domain'', mi_New = BlockDomain_t\<rparr>"
definition ShadowsocksProxy_CaddyModule :: module_info where
  "ShadowsocksProxy_CaddyModule = \<lparr>mi_ID = ''trojan.proxy.shadowsocks'', mi_New = ShadowsocksProxy_t\<rparr>"
definition UnixProxy_CaddyModule :: module_info where
  "UnixProxy_CaddyModule = \<lparr>mi_ID = ''trojan.proxy.unix'', mi_New = UnixProxy_t\<rparr>"
definition WireGuardProxy_CaddyModule :: module_info where
  "WireGuardProxy_CaddyModule = \<lparr>mi_ID = ''trojan.proxy.wireguard'', mi_New = WireGuardProxy_t\<rparr>"
definition CaddyUpstream_CaddyModule :: module_info where
  "CaddyUpstream_CaddyModule = \<lparr>mi_ID = ''trojan.upstream.caddy'', mi_New = CaddyUpstream_t\<rparr>"
definition MemoryUpstream_CaddyModule :: module_info where
  "MemoryUpstream_CaddyModule = \<lparr>mi_ID = ''trojan.upstream.memory'', mi_New = MemoryUpstream_t\<rparr>"

definition CaddyAppID :: string where "CaddyAppID = ''trojan''"

definition App_CaddyModule :: module_info where
  "App_CaddyModule = \<lparr>mi_ID = CaddyAppID, mi_New = App_t\<rparr>"
definition Admin_CaddyModule :: module_info where
  "Admin_CaddyModule = \<lparr>mi_ID = ''admin.api.trojan'', mi_New = Admin_t\<rparr>"
definition Handler_CaddyModule :: module_info where
  "Handler_CaddyModule = \<lparr>mi_ID = ''http.handlers.trojan'', mi_New = Handler_t\<rparr>"
definition ListenerWrapper_CaddyModule :: module_info where
  "ListenerWrapper_CaddyModule = \<lparr>mi_ID = ''caddy.listeners.trojan'', mi_New = ListenerWrapper_t\<rparr>"

lemmas module_defs = NoProxy_CaddyModule_def noProxy_CaddyModule_def EnvProxy_CaddyModule_def
  envProxy_CaddyModule_def SocksProxy_CaddyModule_def HttpProxy_CaddyModule_def
  DropProxy_CaddyModule_def BlockDomain_CaddyModule_def ShadowsocksProxy_CaddyModule_def
  UnixProxy_CaddyModule_def WireGuardProxy_CaddyModule_def CaddyUpstream_CaddyModule_def
  MemoryUpstream_CaddyModule_def App_CaddyModule_def Admin_CaddyModule_def Handler_CaddyModule_def
  ListenerWrapper_CaddyModule_def CaddyAppID_def

text \<open>The calls of \<open>RegisterModule\<close> in the \<open>init\<close> functions of the proxies of \<open>app/proxy.go\<close>.\<close>

definition init_proxy :: "module_info list" where
  "init_proxy =
     [NoProxy_CaddyModule, noProxy_CaddyModule, EnvProxy_CaddyModule, envProxy_CaddyModule,
      SocksProxy_CaddyModule, HttpProxy_CaddyModule, DropProxy_CaddyModule, BlockDomain_CaddyModule]"

definition init_upstream :: "module_info list" where
  "init_upstream = [CaddyUpstream_CaddyModule, MemoryUpstream_CaddyModule]"

text \<open>All of them: the files of \<open>app\<close> by name, then the packages that import it.\<close>

definition init_all :: "module_info list" where
  "init_all =
     [App_CaddyModule] @ init_proxy
     @ [ShadowsocksProxy_CaddyModule, UnixProxy_CaddyModule, WireGuardProxy_CaddyModule]
     @ init_upstream @ [Admin_CaddyModule, Handler_CaddyModule, ListenerWrapper_CaddyModule]"

section \<open>Interface guards\<close>

text \<open>The interfaces the code asserts of its types at compile time, file by file.\<close>

datatype go_iface =
    Proxy_i | Dialer_i | Upstream_i | Provisioner_i | CleanerUpper_i | App_i | AdminRouter_i
  | MiddlewareHandler_i | ListenerWrapper_i | Unmarshaler_i

type_synonym guard = "go_iface \<times> go_type"

definition guards_app :: "guard list" where
  "guards_app = [(App_i, App_t), (Provisioner_i, App_t)]"

definition guards_proxy :: "guard list" where
  "guards_proxy =
     [(Proxy_i, NoProxy_t), (Provisioner_i, EnvProxy_t), (Proxy_i, EnvProxy_t),
      (Provisioner_i, SocksProxy_t), (Proxy_i, SocksProxy_t), (Provisioner_i, HttpProxy_t),
      (Proxy_i, HttpProxy_t), (Proxy_i, DropProxy_t), (Provisioner_i, BlockDomain_t),
      (Proxy_i, BlockDomain_t)]"

definition guards_shadowsocks :: "guard list" where
  "guards_shadowsocks =
     [(Proxy_i, ShadowsocksProxy_t), (Dialer_i, ShadowsocksProxy_t), (Provisioner_i, ShadowsocksProxy_t)]"

definition guards_unix :: "guard list" where
  "guards_unix = [(Proxy_i, UnixProxy_t), (Dialer_i, UnixProxy_t), (Provisioner_i, UnixProxy_t)]"

definition guards_wireguard :: "guard list" where
  "guards_wireguard =
     [(Proxy_i, WireGuardProxy_t), (Dialer_i, WireGuardProxy_t), (Provisioner_i, WireGuardProxy_t)]"

definition guards_upstream :: "guard list" where
  "guards_upstream =
     [(Upstream_i, CaddyUpstream_t), (Upstream_i, MemoryUpstream_t),
      (CleanerUpper_i, MemoryUpstream_t), (Provisioner_i, MemoryUpstream_t)]"

definition guards_admin :: "guard list" where
  "guards_admin = [(AdminRouter_i, Admin_t), (Provisioner_i, Admin_t)]"

definition guards_handler :: "guard list" where
  "guards_handler =
     [(Provisioner_i, Handler_t), (MiddlewareHandler_i, Handler_t), (Unmarshaler_i, Handler_t),
      (CleanerUpper_i, Handler_t)]"

definition guards_listener :: "guard list" where
  "guards_listener =
     [(Provisioner_i, ListenerWrapper_t), (ListenerWrapper_i, ListenerWrapper_t),
      (Unmarshaler_i, ListenerWrapper_t)]"

definition interface_guards :: "guard list" where
  "interface_guards = guards_app @ guards_proxy @ guards_shadowsocks @ guards_unix @ guards_wireguard
     @ guards_upstream @ guards_admin @ guards_handler @ guards_listener"

lemmas guard_defs = interface_guards_def guards_app_def guards_proxy_def guards_shadowsocks_def
  guards_unix_def guards_wireguard_def guards_upstream_def guards_admin_def guards_handler_def
  guards_listener_def

text \<open>
  The types that implement \<open>Proxy\<close> and \<open>Upstream\<close> by these guards; a loaded module of another
  type would panic in the assertion \<open>mod.(Proxy)\<close>.
\<close>

definition Proxy_types :: "go_type set" where
  "Proxy_types = {t. (Proxy_i, t) \<in> set interface_guards}"

definition Upstream_types :: "go_type set" where
  "Upstream_types = {t. (Upstream_i, t) \<in> set interface_guards}"

lemma Proxy_types_eq:
  "Proxy_types = {NoProxy_t, EnvProxy_t, SocksProxy_t, HttpProxy_t, DropProxy_t, BlockDomain_t,
     ShadowsocksProxy_t, UnixProxy_t, WireGuardProxy_t}"
  by (auto simp: Proxy_types_def guard_defs)

lemma Upstream_types_eq: "Upstream_types = {CaddyUpstream_t, MemoryUpstream_t}"
  by (auto simp: Upstream_types_def guard_defs)

section \<open>The registry of caddy\<close>

locale module_registry =
  fixes RegisterModule :: "module_info \<Rightarrow> 'r \<Rightarrow> 'r outcome"
    and GetModule :: "'r \<Rightarrow> string \<Rightarrow> go_type option"
  assumes register_new: "mi_ID m \<noteq> [] \<Longrightarrow> GetModule r (mi_ID m) = None \<Longrightarrow>
    \<exists>r'. RegisterModule m r = Returns r' \<and> GetModule r' = (GetModule r)(mi_ID m \<mapsto> mi_New m)"

fun register_modules :: "(module_info \<Rightarrow> 'r \<Rightarrow> 'r outcome) \<Rightarrow> module_info list \<Rightarrow> 'r \<Rightarrow> 'r outcome" where
  "register_modules reg [] r = Returns r"
| "register_modules reg (m # ms) r = and_then (reg m r) (register_modules reg ms)"

context module_registry
begin

lemma register_modules_ok:
  assumes "distinct (map mi_ID ms)" "\<forall>m \<in> set ms. mi_ID m \<noteq> [] \<and> GetModule r (mi_ID m) = None"
  shows "\<exists>r'. register_modules RegisterModule ms r = Returns r' \<and>
    GetModule r' = GetModule r ++ map_of (map (\<lambda>m. (mi_ID m, mi_New m)) ms)"
  using assms
proof (induction ms arbitrary: r)
  case (Cons m ms)
  then obtain r1 where r1: "RegisterModule m r = Returns r1"
    "GetModule r1 = (GetModule r)(mi_ID m \<mapsto> mi_New m)"
    using register_new [of m r] by auto
  from Cons.prems r1(2) obtain r' where r': "register_modules RegisterModule ms r1 = Returns r'"
    "GetModule r' = GetModule r1 ++ map_of (map (\<lambda>m. (mi_ID m, mi_New m)) ms)"
    using Cons.IH [of r1] by (fastforce simp: image_iff)
  have "GetModule r' = GetModule r ++ map_of (map (\<lambda>m. (mi_ID m, mi_New m)) (m # ms))"
    using Cons.prems(1) unfolding r'(2) r1(2)
    by (simp add: map_add_upd_left dom_map_of_conv_image_fst image_image)
  moreover have "register_modules RegisterModule (m # ms) r = Returns r'" using r1(1) r'(1) by simp
  ultimately show ?case by blast
qed simp

end

text \<open>The registry as a map that refuses a name twice.\<close>

definition map_register :: "module_info \<Rightarrow> (string \<rightharpoonup> go_type) \<Rightarrow> (string \<rightharpoonup> go_type) outcome" where
  "map_register m r =
     (if mi_ID m = [] then Panics (ExplicitPanic ''module ID missing'')
      else if r (mi_ID m) \<noteq> None
      then Panics (ExplicitPanic (''module already registered: '' @ mi_ID m))
      else Returns (r(mi_ID m \<mapsto> mi_New m)))"

interpretation map_registry: module_registry map_register "\<lambda>r. r"
  by unfold_locales (simp add: map_register_def)

section \<open>From a configuration to the types that are loaded\<close>

text \<open>The type \<open>LoadModule\<close> makes a value of: by the namespace and the inline key of a field.\<close>

definition inline_key :: "string \<Rightarrow> json \<Rightarrow> string option" where
  "inline_key f j =
     (case j of JObj kvs \<Rightarrow> (case map_of kvs f of Some (JStr n) \<Rightarrow> Some n | _ \<Rightarrow> None) | _ \<Rightarrow> None)"

definition module_type :: "(string \<Rightarrow> go_type option) \<Rightarrow> string \<Rightarrow> string \<Rightarrow> json \<Rightarrow> go_type option" where
  "module_type lookup ns f j =
     (case inline_key f j of None \<Rightarrow> None | Some n \<Rightarrow> lookup (ns @ ''.'' @ n))"

lemma is_module_key: "is_module f names j \<Longrightarrow> \<exists>n \<in> names. inline_key f j = Some n"
  by (cases j) (auto simp: inline_key_def)

lemma init_all_distinct: "distinct (map mi_ID init_all)"
  by code_simp

lemma init_all_named: "m \<in> set init_all \<Longrightarrow> mi_ID m \<noteq> []"
  by (auto simp: init_all_def init_proxy_def init_upstream_def module_defs)

lemma proxy_names_found:
  "n \<in> proxy_names \<Longrightarrow>
    \<exists>t \<in> Proxy_types. map_of (map (\<lambda>m. (mi_ID m, mi_New m)) init_all) (''trojan.proxy.'' @ n) = Some t"
  by (auto simp: proxy_names_def init_all_def init_proxy_def module_defs Proxy_types_eq)

lemma upstream_names_found:
  "n \<in> upstream_names \<Longrightarrow>
    \<exists>t \<in> Upstream_types. map_of (map (\<lambda>m. (mi_ID m, mi_New m)) init_all) (''trojan.upstream.'' @ n) = Some t"
  by (auto simp: upstream_names_def init_all_def init_proxy_def init_upstream_def module_defs Upstream_types_eq)

context module_registry
begin

lemma init_all_ok:
  assumes "\<forall>m \<in> set init_all. GetModule r (mi_ID m) = None"
  shows "\<exists>r'. register_modules RegisterModule init_all r = Returns r' \<and>
    (\<forall>m \<in> set init_all. GetModule r' (mi_ID m) = Some (mi_New m)) \<and>
    (\<forall>n \<in> proxy_names. \<exists>t \<in> Proxy_types. GetModule r' (''trojan.proxy.'' @ n) = Some t) \<and>
    (\<forall>n \<in> upstream_names. \<exists>t \<in> Upstream_types. GetModule r' (''trojan.upstream.'' @ n) = Some t)"
proof -
  let ?m = "map_of (map (\<lambda>m. (mi_ID m, mi_New m)) init_all)"
  obtain r' where r': "register_modules RegisterModule init_all r = Returns r'" "GetModule r' = GetModule r ++ ?m"
    using register_modules_ok [OF init_all_distinct] assms init_all_named by blast
  have "GetModule r' (mi_ID m) = Some (mi_New m)" if "m \<in> set init_all" for m
  proof -
    have "?m (mi_ID m) = Some (mi_New m)"
      using that init_all_distinct by (intro map_of_is_SomeI) (auto simp: comp_def)
    then show ?thesis by (simp add: r'(2))
  qed
  moreover have "\<exists>t \<in> Proxy_types. GetModule r' (''trojan.proxy.'' @ n) = Some t" if "n \<in> proxy_names" for n
    using proxy_names_found [OF that] by (auto simp: r'(2))
  moreover have "\<exists>t \<in> Upstream_types. GetModule r' (''trojan.upstream.'' @ n) = Some t"
    if "n \<in> upstream_names" for n
    using upstream_names_found [OF that] by (auto simp: r'(2))
  ultimately show ?thesis using r'(1) by blast
qed

end

lemma registered_types:
  assumes "\<forall>m \<in> set init_all. GetModule (mi_ID m) = Some (mi_New m)"
    "dispenser ops rest segs inside 0" "rest d = []" "\<forall>s \<in> set (segs d). block_lines s"
    "module_object_law jmo"
  shows "parseCaddyfile ops (proxyParsers jmo) jmo d = Some (Inr app) \<Longrightarrow>
    (\<exists>t \<in> Upstream_types.
      module_type GetModule ''trojan.upstream'' ''upstream'' (the (ac_UpstreamRaw app)) = Some t) \<and>
    (\<forall>j \<in> insert (the (ac_ProxyRaw app)) (snd ` set (ac_NamedProxyRaw app)).
      \<exists>t \<in> Proxy_types. module_type GetModule ''trojan.proxy'' ''proxy'' j = Some t)"
proof -
  assume "parseCaddyfile ops (proxyParsers jmo) jmo d = Some (Inr app)"
  then have valid: "valid_config app"
    using dispenser.parseCaddyfile_walk [OF assms(2) refl assms(3,4), of "proxyParsers jmo" jmo] assms(5)
    by auto
  let ?m = "map_of (map (\<lambda>m. (mi_ID m, mi_New m)) init_all)"
  have found: "GetModule n = Some t" if "?m n = Some t" for n t
    using map_of_SomeD [OF that] assms(1) by auto
  have proxy: "\<exists>t \<in> Proxy_types. module_type GetModule ''trojan.proxy'' ''proxy'' j = Some t"
    if "is_module ''proxy'' proxy_names j" for j
  proof -
    from is_module_key [OF that] obtain n where "n \<in> proxy_names" "inline_key ''proxy'' j = Some n" by blast
    with proxy_names_found found show ?thesis by (fastforce simp: module_type_def)
  qed
  have upstream: "\<exists>t \<in> Upstream_types. module_type GetModule ''trojan.upstream'' ''upstream'' j = Some t"
    if "is_module ''upstream'' upstream_names j" for j
  proof -
    from is_module_key [OF that] obtain n where "n \<in> upstream_names" "inline_key ''upstream'' j = Some n" by blast
    with upstream_names_found found show ?thesis by (fastforce simp: module_type_def)
  qed
  from valid show ?thesis
    by (auto simp: valid_config_def partial_config_def list_all_iff intro: proxy upstream)
qed

text \<open>
  Whatever the Caddyfile parser accepts can be loaded. When no other module has taken one
  of its names, the program starts without a panic, every one of its modules is found, and the
  store, the proxy and every named proxy of a parsed configuration name a registered module of
  their namespace whose type implements the interface the code asserts it to have.
\<close>

theorem parsed_modules_are_registered:
  assumes "module_registry RegisterModule GetModule" "\<forall>m \<in> set init_all. GetModule r (mi_ID m) = None"
    "dispenser ops rest segs inside 0" "rest d = []" "\<forall>s \<in> set (segs d). block_lines s"
    "module_object_law jmo" "parseCaddyfile ops (proxyParsers jmo) jmo d = Some (Inr app)"
  shows "\<exists>r'. register_modules RegisterModule init_all r = Returns r' \<and>
    (\<forall>m \<in> set init_all. GetModule r' (mi_ID m) = Some (mi_New m)) \<and>
    (\<exists>t \<in> Upstream_types.
      module_type (GetModule r') ''trojan.upstream'' ''upstream'' (the (ac_UpstreamRaw app)) = Some t) \<and>
    (\<forall>j \<in> insert (the (ac_ProxyRaw app)) (snd ` set (ac_NamedProxyRaw app)).
      \<exists>t \<in> Proxy_types. module_type (GetModule r') ''trojan.proxy'' ''proxy'' j = Some t)"
proof -
  obtain r' where r': "register_modules RegisterModule init_all r = Returns r'"
    "\<forall>m \<in> set init_all. GetModule r' (mi_ID m) = Some (mi_New m)"
    "\<forall>n \<in> proxy_names. \<exists>t \<in> Proxy_types. GetModule r' (''trojan.proxy.'' @ n) = Some t"
    "\<forall>n \<in> upstream_names. \<exists>t \<in> Upstream_types. GetModule r' (''trojan.upstream.'' @ n) = Some t"
    using module_registry.init_all_ok [OF assms(1,2)] by blast
  have valid: "valid_config app"
    using dispenser.parseCaddyfile_walk [OF assms(3) refl assms(4,5), of "proxyParsers jmo" jmo] assms(6,7)
    by auto
  have proxy: "\<exists>t \<in> Proxy_types. module_type (GetModule r') ''trojan.proxy'' ''proxy'' j = Some t"
    if "is_module ''proxy'' proxy_names j" for j
    using is_module_key [OF that] r'(3) by (auto simp: module_type_def)
  have upstream: "\<exists>t \<in> Upstream_types. module_type (GetModule r') ''trojan.upstream'' ''upstream'' j = Some t"
    if "is_module ''upstream'' upstream_names j" for j
    using is_module_key [OF that] r'(4) by (auto simp: module_type_def)
  from valid have "is_module ''upstream'' upstream_names (the (ac_UpstreamRaw app))"
    "\<forall>j \<in> insert (the (ac_ProxyRaw app)) (snd ` set (ac_NamedProxyRaw app)). is_module ''proxy'' proxy_names j"
    by (auto simp: valid_config_def partial_config_def list_all_iff)
  then have "\<exists>t \<in> Upstream_types.
      module_type (GetModule r') ''trojan.upstream'' ''upstream'' (the (ac_UpstreamRaw app)) = Some t"
    "\<forall>j \<in> insert (the (ac_ProxyRaw app)) (snd ` set (ac_NamedProxyRaw app)).
      \<exists>t \<in> Proxy_types. module_type (GetModule r') ''trojan.proxy'' ''proxy'' j = Some t"
    using upstream proxy by blast+
  with r'(1,2) show ?thesis by blast
qed

theorem parsed_modules_are_registered_witness:
  "\<exists>app r'. parseCaddyfile tape_ops (proxyParsers module_object) module_object sample_tape = Some (Inr app) \<and>
    register_modules map_register init_all Map.empty = Returns r' \<and>
    (\<exists>t \<in> Proxy_types. module_type r' ''trojan.proxy'' ''proxy'' (the (ac_ProxyRaw app)) = Some t)"
proof -
  obtain app where app: "parseCaddyfile tape_ops (proxyParsers module_object) module_object sample_tape = Some (Inr app)"
    using sample_parsed by blast
  have fresh: "\<forall>m \<in> set init_all. (\<lambda>r. r) (Map.empty :: string \<rightharpoonup> go_type) (mi_ID m) = None" by simp
  from parsed_modules_are_registered [where GetModule = "\<lambda>r. r", OF map_registry.module_registry_axioms fresh
      tape.dispenser_axioms sample_tape_lines module_object_ok app] app
  show ?thesis by blast
qed

end
