(* ===== verification/App.thy ===== *)
theory App
  imports Caddyfile Caddy_Upstream
begin

text \<open>
  The application of \<open>app/app.go\<close>: \<open>Provision\<close> from a configuration, \<open>Stop\<close>, and the lookups
  the listener and the handler use, which get their store and their proxy from it. The
  modules are loaded by caddy, which is a parameter; the store is any implementation of the
  interface \<open>Upstream\<close>.
\<close>

section \<open>Operations\<close>

record 'u app =
  ap_upstream :: 'u
  ap_proxy :: proxy_ops
  ap_namedProxy :: "(string \<times> proxy_ops) list"

text \<open>The loop over the configured users; the error of \<open>Add\<close> is dropped.\<close>

definition add_users :: "'u upstream_ops \<Rightarrow> string list \<Rightarrow> 'u \<Rightarrow> 'u" where
  "add_users ops us u = fold (\<lambda>v u. snd (uo_Add ops u v)) us u"

text \<open>\<open>LoadModule\<close> on a map of modules.\<close>

fun load_named :: "loader \<Rightarrow> (string \<times> json) list \<Rightarrow> go_error + (string \<times> proxy_ops) list" where
  "load_named LoadModule [] = Inr []"
| "load_named LoadModule ((name, raw) # rest) =
     (case LoadModule raw of
        Inl e \<Rightarrow> Inl e
      | Inr px \<Rightarrow> map_sum id ((#) (name, px)) (load_named LoadModule rest))"

definition App_Provision ::
  "module_object \<Rightarrow> 'u upstream_ops \<Rightarrow> (json \<Rightarrow> go_error + 'u) \<Rightarrow> loader \<Rightarrow> app_config \<Rightarrow> go_error + 'u app" where
  "App_Provision jmo ops LoadUpstream LoadModule cfg =
     (case app_defaults jmo cfg of
        Inl e \<Rightarrow> Inl e
      | Inr app \<Rightarrow>
     (case LoadUpstream (the (ac_UpstreamRaw app)) of
        Inl e \<Rightarrow> Inl e
      | Inr up0 \<Rightarrow>
     (case LoadModule (the (ac_ProxyRaw app)) of
        Inl e \<Rightarrow> Inl e
      | Inr proxy \<Rightarrow>
     (case load_named LoadModule (ac_NamedProxyRaw app) of
        Inl e \<Rightarrow> Inl (Wrap ''loading trojan.proxy modules: '' e)
      | Inr named \<Rightarrow>
          Inr \<lparr>ap_upstream = add_users ops (ac_Users app) up0, ap_proxy = proxy,
               ap_namedProxy = named\<rparr>))))"

definition App_Start :: "'u app \<Rightarrow> go_error option" where
  "App_Start app = None"

text \<open>\<open>Stop\<close> closes the named proxies, whose errors it drops, and then the proxy.\<close>

fun close_named :: "(string \<times> proxy_ops) list \<Rightarrow> net \<Rightarrow> net run" where
  "close_named [] w = ret w"
| "close_named ((_, px) # rest) w = cont (px_Close px w) (\<lambda>(_, w). close_named rest w)"

definition App_Stop :: "'u app \<Rightarrow> net \<Rightarrow> (go_error option \<times> net) run" where
  "App_Stop app w = cont (close_named (ap_namedProxy app) w) (px_Close (ap_proxy app))"

definition GetUpstream :: "'u app \<Rightarrow> 'u" where
  "GetUpstream app = ap_upstream app"

definition GetProxy :: "'u app \<Rightarrow> proxy_ops" where
  "GetProxy app = ap_proxy app"

definition GetProxyByName :: "'u app \<Rightarrow> string \<Rightarrow> proxy_ops option" where
  "GetProxyByName app name = map_of (ap_namedProxy app) name"

section \<open>Who can connect after the start\<close>

lemma add_users_simps [simp]:
  "add_users ops [] u = u" "add_users ops (v # us) u = add_users ops us (snd (uo_Add ops u v))"
  by (simp_all add: add_users_def)

lemma app_defaults_keeps:
  "app_defaults jmo cfg = Inr app \<Longrightarrow> ac_Users app = ac_Users cfg \<and> ac_NamedProxyRaw app = ac_NamedProxyRaw cfg \<and>
    (ac_UpstreamRaw cfg = Some j \<longrightarrow> ac_UpstreamRaw app = Some j)"
  by (auto simp: app_defaults_def Let_def split: sum.splits if_splits)

lemma load_named_names:
  "load_named LoadModule raws = Inr named \<Longrightarrow> map fst named = map fst raws \<and>
    (\<forall>n px. map_of named n = Some px \<longrightarrow> (\<exists>raw. map_of raws n = Some raw \<and> LoadModule raw = Inr px))"
proof (induction raws arbitrary: named)
  case (Cons a raws)
  obtain n raw where a: "a = (n, raw)" by (metis prod.exhaust)
  from Cons.prems obtain px rest where "LoadModule raw = Inr px" "load_named LoadModule raws = Inr rest"
    "named = (n, px) # rest"
    by (cases "LoadModule raw"; cases "load_named LoadModule raws") (auto simp: a)
  with Cons.IH show ?case by (auto simp: a)
qed simp

context reliable_upstream
begin

lemma add_ok_step: "inv u \<Longrightarrow> uo_Add ops u p = (None, snd (uo_Add ops u p))"
  using add_ok [of u p] by (simp add: prod_eq_iff)

lemma add_users_spec:
  assumes "inv u"
  shows "inv (add_users ops us u) \<and>
    dom (users (add_users ops us u)) = dom (users u) \<union> GenKey ` set us \<and>
    (\<forall>k. k \<notin> GenKey ` set us \<longrightarrow> users (add_users ops us u) k = users u k)"
  using assms
proof (induction us arbitrary: u)
  case (Cons p us)
  let ?u = "snd (uo_Add ops u p)"
  obtain t where step: "inv ?u" "users ?u = (users u)(GenKey p \<mapsto> t)"
    using add_law [OF Cons.prems add_ok_step [OF Cons.prems]] by blast
  have "dom (users ?u) = insert (GenKey p) (dom (users u))" unfolding step(2) by simp
  with Cons.IH [OF step(1)] step(2) show ?case by auto
qed simp

end

text \<open>
  C39: after \<open>App.Provision\<close>, over any store that keeps its contract, exactly the users that
  the store had loaded and the configured ones can connect, the counters of the others are
  as loaded, and the names under which the listener and the handler look up proxies are the
  configured ones, each with the module its configuration loads.
\<close>

theorem configured_users_can_connect:
  assumes "reliable_upstream ops users ok" "ac_UpstreamRaw cfg = Some raw"
    "LoadUpstream raw = Inr u0" "ok u0"
    "App_Provision jmo ops LoadUpstream LoadModule cfg = Inr app"
  shows "(\<forall>k. validStorageKey k \<longrightarrow> (uo_Validate ops (GetUpstream app) k \<longleftrightarrow>
      uo_Validate ops u0 k \<or> k \<in> GenKey ` set (ac_Users cfg))) \<and>
    (\<forall>k. k \<notin> GenKey ` set (ac_Users cfg) \<longrightarrow> users (GetUpstream app) k = users u0 k) \<and>
    (\<forall>name. GetProxyByName app name \<noteq> None \<longleftrightarrow> name \<in> fst ` set (ac_NamedProxyRaw cfg)) \<and>
    (\<forall>name px. GetProxyByName app name = Some px \<longrightarrow>
      (\<exists>j. map_of (ac_NamedProxyRaw cfg) name = Some j \<and> LoadModule j = Inr px))"
proof -
  note up = reliable_upstream.axioms(1) [OF assms(1)]
  obtain cfg' named px where d: "app_defaults jmo cfg = Inr cfg'"
    and named: "load_named LoadModule (ac_NamedProxyRaw cfg) = Inr named"
    and app: "app = \<lparr>ap_upstream = add_users ops (ac_Users cfg) u0, ap_proxy = px, ap_namedProxy = named\<rparr>"
    using assms(2,3,5) app_defaults_keeps [of jmo cfg]
    by (auto simp: App_Provision_def split: sum.splits)
  note spec = reliable_upstream.add_users_spec [OF assms(1,4), of "ac_Users cfg"]
  have "uo_Validate ops (GetUpstream app) k \<longleftrightarrow> uo_Validate ops u0 k \<or> k \<in> GenKey ` set (ac_Users cfg)"
    if "validStorageKey k" for k
    using upstream.validate_law [OF up _ that] spec assms(4)
    by (auto simp: app GetUpstream_def dom_def)
  moreover have "GetProxyByName app name \<noteq> None \<longleftrightarrow> name \<in> fst ` set (ac_NamedProxyRaw cfg)" for name
    using load_named_names [OF named] unfolding GetProxyByName_def app
    by (simp add: map_of_eq_None_iff) (metis list.set_map)
  ultimately show ?thesis
    using spec load_named_names [OF named] by (auto simp: app GetUpstream_def GetProxyByName_def)
qed

definition demo_config :: app_config where
  "demo_config = \<lparr>ac_UpstreamRaw = Some (JStr ''caddy''), ac_ProxyRaw = Some JNull,
     ac_NamedProxyRaw = [(''d'', JNull)], ac_Users = [''bob'']\<rparr>"

theorem configured_users_can_connect_witness:
  "\<exists>app. App_Provision module_object (cu_ops list_storage Unmarshal) (\<lambda>_. Inr demo_files) (\<lambda>_. Inr NoProxy)
      demo_config = Inr app \<and>
    uo_Validate (cu_ops list_storage Unmarshal) (GetUpstream app) (GenKey ''bob'') \<and>
    GetProxyByName app ''d'' = Some NoProxy"
proof -
  let ?ops = "cu_ops list_storage Unmarshal"
  obtain app where app: "App_Provision module_object ?ops (\<lambda>_. Inr demo_files) (\<lambda>_. Inr NoProxy) demo_config = Inr app"
    by (simp add: App_Provision_def app_defaults_def demo_config_def)
  have "ac_UpstreamRaw demo_config = Some (JStr ''caddy'')" by (simp add: demo_config_def)
  note all = configured_users_can_connect [OF caddy.reliable_upstream_axioms this refl demo_files_inv app]
  have "GenKey ''bob'' \<in> GenKey ` set (ac_Users demo_config)" by (simp only: demo_config_def) simp
  then have "uo_Validate ?ops (GetUpstream app) (GenKey ''bob'')"
    using all [THEN conjunct1] valid_GenKey by blast
  moreover have "''d'' \<in> fst ` set (ac_NamedProxyRaw demo_config)" by (simp add: demo_config_def)
  then obtain px where "GetProxyByName app ''d'' = Some px" using all by blast
  moreover from this have "px = NoProxy" using all by blast
  ultimately show ?thesis using app by blast
qed

section \<open>A restart\<close>

lemma mem_Add_users: "mem_users (snd (mem_Add pops m p)) = (mem_users m)(GenKey p \<mapsto> no_traffic)"
  by (simp add: mem_Add_def Let_def AddKey_def update_conv' no_traffic_def)

lemma mem_add_users_reset:
  "k \<in> GenKey ` set us \<or> mem_users m k = Some no_traffic \<Longrightarrow>
    mem_users (add_users (mem_ops pops) us m) k = Some no_traffic"
proof (induction us arbitrary: m)
  case (Cons p us)
  let ?m = "snd (mem_Add pops m p)"
  have "k \<in> GenKey ` set us \<or> mem_users ?m k = Some no_traffic"
    using Cons.prems by (auto simp: mem_Add_users)
  from Cons.IH [OF this] show ?case by (simp add: mem_ops_def)
qed simp

lemma drained_add_users:
  "drained pops m = Some v \<Longrightarrow>
    drained pops (add_users (mem_ops pops) us m) = Some (add_users pops us v)"
proof (induction us arbitrary: m v)
  case (Cons p us)
  have "drained pops (AddKey (GenKey p) m) = Some v"
    using Cons.prems by (simp add: drained_def AddKey_def)
  then have "drained pops (snd (mem_Add pops m p)) = Some (snd (uo_Add pops v p))"
    using drained_send [of pops "AddKey (GenKey p) m" v "TaskAdd p"]
    by (simp add: mem_Add_def Let_def)
  from Cons.IH [OF this] show ?case by (simp add: mem_ops_def)
qed simp

lemma cu_add_users_keeps:
  assumes "storage_laws sto files" "decoder_law unm"
  shows "cu_inv files st \<Longrightarrow> cu_users files unm st k = Some t \<Longrightarrow>
    cu_users files unm (add_users (cu_ops sto unm) us st) k = Some t"
proof (induction us arbitrary: st)
  case (Cons p us)
  obtain e st' where a: "cu_Add sto st p = (e, st')" by (metis prod.exhaust)
  from cu_Add_spec [OF assms Cons.prems(1) a] Cons.prems(2)
  have "cu_inv files st'" "cu_users files unm st' k = Some t" by (auto split: if_splits)
  from Cons.IH [OF this] a show ?case by (simp add: cu_ops_def)
qed simp

text \<open>
  A restart forgets what the configured users have used. With users kept in memory over a
  persistent store, \<open>Provision\<close> first reads the counters of a user in and then, because the
  user is in the configuration, sets them to zero in memory, while the store keeps them: the
  two disagree from the start, and \<open>Range\<close> reports the wrong one.
\<close>

theorem restart_forgets_counters:
  assumes "storage_laws sto files" "decoder_law unm" "cu_inv files st"
    "cu_users files unm st (GenKey p) = Some t" "p \<in> set (ac_Users cfg)"
    "mem_Provision (cu_ops sto unm) (Some (Inr st)) = (e, m0)" "ac_UpstreamRaw cfg = Some raw"
    "LoadUpstream raw = Inr m0"
    "App_Provision jmo (mem_ops (cu_ops sto unm)) LoadUpstream LoadModule cfg = Inr app"
  shows "map_of (mm m0) (GenKey p) = Some t \<and>
    map_of (mm (GetUpstream app)) (GenKey p) = Some no_traffic \<and>
    (\<exists>st'. drained (cu_ops sto unm) (GetUpstream app) = Some st' \<and>
      cu_users files unm st' (GenKey p) = Some t)"
proof -
  note rel = caddy_reliable [OF assms(1,2)]
  note prov = reliable_upstream.provision_synced [OF rel assms(3,6)]
  obtain v where v: "drained (cu_ops sto unm) m0 = Some v" "cu_inv files v"
    "cu_users files unm v = map_of (mm m0)"
    using prov(2) unfolding reliable_upstream.synced_def [OF rel] by blast
  have app: "GetUpstream app = add_users (mem_ops (cu_ops sto unm)) (ac_Users cfg) m0"
    using assms(7-9) app_defaults_keeps [of jmo cfg]
    by (auto simp: App_Provision_def GetUpstream_def split: sum.splits)
  have "map_of (mm (GetUpstream app)) (GenKey p) = Some no_traffic"
    unfolding app by (rule mem_add_users_reset) (use assms(5) in blast)
  moreover have "cu_users files unm v (GenKey p) = Some t" using v(3) prov(3) assms(4) by simp
  ultimately show ?thesis
    using drained_add_users [OF v(1), of "ac_Users cfg"] cu_add_users_keeps [OF assms(1,2) v(2)] prov(3) assms(4)
    by (simp add: app)
qed

theorem restart_forgets_counters_witness:
  "\<exists>m0 app. App_Provision module_object (mem_ops (cu_ops list_storage Unmarshal)) (\<lambda>_. Inr m0)
      (\<lambda>_. Inr NoProxy) (demo_config\<lparr>ac_Users := [''alice'']\<rparr>) = Inr app \<and>
    map_of (mm m0) (GenKey ''alice'') = Some \<lparr>Up = 1, Down = 2\<rparr> \<and>
    map_of (mm (GetUpstream app)) (GenKey ''alice'') = Some no_traffic"
proof -
  let ?ops = "cu_ops list_storage Unmarshal" and ?cfg = "demo_config\<lparr>ac_Users := [''alice'']\<rparr>"
  obtain e m0 where m0: "mem_Provision ?ops (Some (Inr demo_files)) = (e, m0)" by (metis prod.exhaust)
  have u: "cu_users map_of Unmarshal demo_files (GenKey ''alice'') = Some \<lparr>Up = 1, Down = 2\<rparr>"
    using Unmarshal_law by (simp add: cu_users_def demo_files_def decoder_law_def)
  obtain app where app: "App_Provision module_object (mem_ops ?ops) (\<lambda>_. Inr m0) (\<lambda>_. Inr NoProxy) ?cfg = Inr app"
    by (simp add: App_Provision_def app_defaults_def demo_config_def)
  have c: "''alice'' \<in> set (ac_Users ?cfg)" "ac_UpstreamRaw ?cfg = Some (JStr ''caddy'')"
    by (simp_all add: demo_config_def)
  from restart_forgets_counters [OF list_storage_laws Unmarshal_law demo_files_inv u c(1) m0 c(2) refl app] app
  show ?thesis by blast
qed

section \<open>Stopping\<close>

text \<open>
  Every proxy is closed, the named ones first, when none of them panics or hangs, and the
  result is the one of the main proxy.
\<close>

lemma close_named_all:
  "\<forall>(n, px) \<in> set named. \<forall>w. px_Close px w = ret (None, f px w) \<Longrightarrow>
    close_named named w = ret (fold (f \<circ> snd) named w)"
  by (induction named arbitrary: w) auto

end
