(* ===== verification/Module_Config.thy ===== *)
theory Module_Config
  imports App
begin

text \<open>
  How the HTTP handler (\<open>modules/handler/handler.go\<close>) and the listener wrapper
  (\<open>modules/listener/listener.go\<close>) are configured: \<open>UnmarshalCaddyfile\<close> over a dispenser and
  \<open>Provision\<close>, which takes the store and a proxy from the app. The parsers are compared with
  a reference that reads a plain list of tokens.
\<close>

section \<open>Provision\<close>

text \<open>
  The two calls into caddy are parameters: \<open>AppIfConfigured\<close>, of which only the error is used,
  and \<open>App\<close>. The result is the store and the proxy of the module. The two modules differ in
  the text of the first error only.
\<close>

definition module_Provision ::
  "string \<Rightarrow> go_error option \<Rightarrow> go_error + 'u app \<Rightarrow> string \<Rightarrow> go_error + 'u \<times> proxy_ops" where
  "module_Provision what AppIfConfigured ctx_App ProxyName =
     (case AppIfConfigured of
        Some e \<Rightarrow> Inl (Wrap what e)
      | None \<Rightarrow>
         (case ctx_App of
            Inl e \<Rightarrow> Inl e
          | Inr app \<Rightarrow>
              if ProxyName = [] then Inr (GetUpstream app, GetProxy app)
              else (case GetProxyByName app ProxyName of
                      None \<Rightarrow> Inl (Msg (''proxy name: '' @ ProxyName @ '' does not exist''))
                    | Some px \<Rightarrow> Inr (GetUpstream app, px))))"

record handler_options =
  ho_ProxyName :: string
  ho_WebSocket :: bool
  ho_Connect :: bool
  ho_Verbose :: bool
  ho_OriginAllow :: "string list"

definition new_handler_options :: handler_options where
  "new_handler_options = \<lparr>ho_ProxyName = [], ho_WebSocket = False, ho_Connect = False,
     ho_Verbose = False, ho_OriginAllow = []\<rparr>"

definition Handler_Provision ::
  "go_error option \<Rightarrow> go_error + 'u app \<Rightarrow> handler_options \<Rightarrow> go_error + 'u \<times> proxy_ops" where
  "Handler_Provision AppIfConfigured ctx_App m =
     module_Provision ''trojan handler configure error: '' AppIfConfigured ctx_App (ho_ProxyName m)"

record listener_options =
  lo_ProxyName :: string
  lo_Verbose :: bool

definition Listener_Provision ::
  "go_error option \<Rightarrow> go_error + 'u app \<Rightarrow> listener_options \<Rightarrow> go_error + 'u \<times> proxy_ops" where
  "Listener_Provision AppIfConfigured ctx_App m =
     module_Provision ''trojan configure error: '' AppIfConfigured ctx_App (lo_ProxyName m)"

section \<open>UnmarshalCaddyfile\<close>

definition only_one :: "string \<Rightarrow> go_error" where
  "only_one what = Msg (''only one '' @ what @ '' is not allowed'')"

definition origin_missing :: go_error where
  "origin_missing = Msg ''origin_allow requires an origin host, e.g. origin_allow cdn.example.com''"

text \<open>One directive; a switch without a default: any other word is skipped.\<close>

definition handler_directive ::
  "'d dispenser_ops \<Rightarrow> handler_options \<Rightarrow> 'd \<Rightarrow> (go_error + handler_options) \<times> 'd" where
  "handler_directive ops h d =
     (let subdirective = dp_Val ops d in
      if subdirective = ''websocket'' then
        (if ho_WebSocket h then (Inl (only_one ''websocket''), d) else (Inr (h\<lparr>ho_WebSocket := True\<rparr>), d))
      else if subdirective = ''connect_method'' then
        (if ho_Connect h then (Inl (only_one ''connect_method''), d) else (Inr (h\<lparr>ho_Connect := True\<rparr>), d))
      else if subdirective = ''proxy_name'' then
        (case dp_Arg ops d of
           (None, d) \<Rightarrow> (Inl ArgErr, d) | (Some x, d) \<Rightarrow> (Inr (h\<lparr>ho_ProxyName := x\<rparr>), d))
      else if subdirective = ''verbose'' then
        (if ho_Verbose h then (Inl (only_one ''verbose''), d) else (Inr (h\<lparr>ho_Verbose := True\<rparr>), d))
      else if subdirective = ''origin_allow'' then
        (case dp_Arg ops d of
           (None, d) \<Rightarrow> (Inl origin_missing, d)
         | (Some x, d) \<Rightarrow> (Inr (h\<lparr>ho_OriginAllow := ho_OriginAllow h @ [x]\<rparr>), d))
      else (Inr h, d))"

definition listener_directive ::
  "'d dispenser_ops \<Rightarrow> listener_options \<Rightarrow> 'd \<Rightarrow> (go_error + listener_options) \<times> 'd" where
  "listener_directive ops m d =
     (let subdirective = dp_Val ops d in
      if subdirective = ''verbose'' then (Inr (m\<lparr>lo_Verbose := True\<rparr>), d)
      else if subdirective = ''proxy_name'' then
        (case dp_Arg ops d of
           (None, d) \<Rightarrow> (Inl ArgErr, d) | (Some x, d) \<Rightarrow> (Inr (m\<lparr>lo_ProxyName := x\<rparr>), d))
      else (Inr m, d))"

text \<open>The loop over the block, the same in both modules up to its body.\<close>

partial_function (option) directive_loop ::
  "('d dispenser_ops \<Rightarrow> 'o \<Rightarrow> 'd \<Rightarrow> (go_error + 'o) \<times> 'd) \<Rightarrow> 'd dispenser_ops \<Rightarrow> nat \<Rightarrow> 'o \<Rightarrow> 'd \<Rightarrow>
    (go_error + 'o) option" where
  "directive_loop body ops nesting m d =
     (case dp_NextBlock ops nesting d of
        (entered, d) \<Rightarrow>
          if \<not> entered then Some (Inr m)
          else (case body ops m d of
                  (Inl e, d) \<Rightarrow> Some (Inl e)
                | (Inr m, d) \<Rightarrow> directive_loop body ops nesting m d))"

definition UnmarshalCaddyfile ::
  "('d dispenser_ops \<Rightarrow> 'o \<Rightarrow> 'd \<Rightarrow> (go_error + 'o) \<times> 'd) \<Rightarrow> 'd dispenser_ops \<Rightarrow> 'o \<Rightarrow> 'd \<Rightarrow>
    (go_error + 'o) option" where
  "UnmarshalCaddyfile body ops m d =
     (case dp_Next ops d of
        (entered, d) \<Rightarrow>
          if \<not> entered then Some (Inl ArgErr)
          else (case dp_RemainingArgs ops d of
                  (args, d) \<Rightarrow>
                    if args \<noteq> [] then Some (Inl ArgErr)
                    else directive_loop body ops (dp_Nesting ops d) m d))"

definition Handler_UnmarshalCaddyfile ::
  "'d dispenser_ops \<Rightarrow> handler_options \<Rightarrow> 'd \<Rightarrow> (go_error + handler_options) option" where
  "Handler_UnmarshalCaddyfile = UnmarshalCaddyfile handler_directive"

definition Listener_UnmarshalCaddyfile ::
  "'d dispenser_ops \<Rightarrow> listener_options \<Rightarrow> 'd \<Rightarrow> (go_error + listener_options) option" where
  "Listener_UnmarshalCaddyfile = UnmarshalCaddyfile listener_directive"

section \<open>Reading a list of tokens\<close>

text \<open>
  The reference: an option with an argument takes the next token of its line, every other
  token is an option or skipped.
\<close>

fun read_handler :: "tokens \<Rightarrow> handler_options \<Rightarrow> go_error + handler_options" where
  "read_handler [] h = Inr h"
| "read_handler ((t, _) # ts) h =
     (if t = ''websocket'' then
        (if ho_WebSocket h then Inl (only_one t) else read_handler ts (h\<lparr>ho_WebSocket := True\<rparr>))
      else if t = ''connect_method'' then
        (if ho_Connect h then Inl (only_one t) else read_handler ts (h\<lparr>ho_Connect := True\<rparr>))
      else if t = ''verbose'' then
        (if ho_Verbose h then Inl (only_one t) else read_handler ts (h\<lparr>ho_Verbose := True\<rparr>))
      else if t = ''proxy_name'' then
        (case ts of (x, False) # ts' \<Rightarrow> read_handler ts' (h\<lparr>ho_ProxyName := x\<rparr>) | _ \<Rightarrow> Inl ArgErr)
      else if t = ''origin_allow'' then
        (case ts of (x, False) # ts' \<Rightarrow> read_handler ts' (h\<lparr>ho_OriginAllow := ho_OriginAllow h @ [x]\<rparr>)
         | _ \<Rightarrow> Inl origin_missing)
      else read_handler ts h)"

fun read_listener :: "tokens \<Rightarrow> listener_options \<Rightarrow> go_error + listener_options" where
  "read_listener [] m = Inr m"
| "read_listener ((t, _) # ts) m =
     (if t = ''verbose'' then read_listener ts (m\<lparr>lo_Verbose := True\<rparr>)
      else if t = ''proxy_name'' then
        (case ts of (x, False) # ts' \<Rightarrow> read_listener ts' (m\<lparr>lo_ProxyName := x\<rparr>) | _ \<Rightarrow> Inl ArgErr)
      else read_listener ts m)"

lemma line_rest_empty:
  "line_rest ts = [] \<longleftrightarrow> (case ts of (x, False) # ts' \<Rightarrow> False | _ \<Rightarrow> True)"
  by (auto split: list.splits prod.splits bool.splits if_splits simp: takeWhile_eq_Nil_iff neq_Nil_conv)

context dispenser
begin

text \<open>The argument of an option.\<close>

lemma arg_cases:
  assumes "dp_Arg ops d = (x, d')"
  shows "(\<exists>y ts. rest d = (y, False) # ts \<and> x = Some y \<and> rest d' = ts \<and> inside d' = inside d) \<or>
    (line_rest (rest d) = [] \<and> x = None)"
proof (cases "rest d")
  case (Cons t ts)
  then show ?thesis using arg [OF assms] by (cases t; cases "snd t") auto
qed (use arg [OF assms] in auto)

lemma directive_loop_reads:
  assumes body: "\<And>m d t ts. dp_Val ops d = t \<Longrightarrow> rest d = ts \<Longrightarrow> inside d \<Longrightarrow>
      (case body ops m d of
         (Inl e, d') \<Rightarrow> read ((t, True) # ts) m = Inl e
       | (Inr m', d') \<Rightarrow> inside d' \<and> length (rest d') \<le> length ts \<and> read ((t, True) # ts) m = read (rest d') m')"
    and flag: "\<And>t b b' ts m. read ((t, b) # ts) m = read ((t, b') # ts) m"
    and stop: "\<And>m. read [] m = Inr m"
  shows "inside d \<or> block_lines (rest d) \<Longrightarrow> directive_loop body ops base m d = Some (read (rest d) m)"
proof (induction "length (rest d)" arbitrary: d m rule: less_induct)
  case less
  obtain e d1 where d1: "dp_NextBlock ops base d = (e, d1)" by (metis prod.exhaust)
  show ?case
  proof (cases "rest d")
    case Nil
    with block_end [OF Nil d1] d1 stop show ?thesis
      by (simp add: directive_loop.simps [of body ops base m d])
  next
    case (Cons t ts)
    with less.prems have "inside d \<or> snd t" by (auto simp: block_lines_def)
    note n = block_next [OF Cons this d1]
    obtain r d2 where d2: "body ops m d1 = (r, d2)" by (metis prod.exhaust)
    note b = body [OF refl refl, of d1 m, unfolded d2]
    have step: "directive_loop body ops base m d =
        (case r of Inl e \<Rightarrow> Some (Inl e) | Inr m \<Rightarrow> directive_loop body ops base m d2)"
      using d1 d2 n by (simp add: directive_loop.simps [of body ops base m d] split: sum.splits)
    have whole: "read (rest d) m = read ((fst t, True) # ts) m"
      unfolding Cons by (metis flag prod.collapse)
    show ?thesis
    proof (cases r)
      case (Inl x)
      with b n show ?thesis unfolding whole step by simp
    next
      case (Inr m')
      with b n have "inside d2" "length (rest d2) \<le> length ts" "read ((fst t, True) # ts) m = read (rest d2) m'"
        by simp_all
      with less.hyps [of d2 m'] Cons show ?thesis unfolding whole step by (simp add: Inr)
    qed
  qed
qed

lemma handler_directive_reads:
  assumes "dp_Val ops d = t" "rest d = ts" "inside d"
  shows "case handler_directive ops h d of
      (Inl e, d') \<Rightarrow> read_handler ((t, b) # ts) h = Inl e
    | (Inr h', d') \<Rightarrow> inside d' \<and> length (rest d') \<le> length ts \<and>
        read_handler ((t, b) # ts) h = read_handler (rest d') h'"
proof (cases "t = ''proxy_name'' \<or> t = ''origin_allow''")
  case True
  obtain x d' where x: "dp_Arg ops d = (x, d')" by (metis prod.exhaust)
  from arg_cases [OF x] assms True x show ?thesis
    by (auto simp: handler_directive_def line_rest_empty split: list.splits prod.splits bool.splits)
next
  case False
  with assms show ?thesis by (auto simp: handler_directive_def Let_def)
qed

lemma listener_directive_reads:
  assumes "dp_Val ops d = t" "rest d = ts" "inside d"
  shows "case listener_directive ops m d of
      (Inl e, d') \<Rightarrow> read_listener ((t, b) # ts) m = Inl e
    | (Inr m', d') \<Rightarrow> inside d' \<and> length (rest d') \<le> length ts \<and>
        read_listener ((t, b) # ts) m = read_listener (rest d') m'"
proof (cases "t = ''proxy_name''")
  case True
  obtain x d' where x: "dp_Arg ops d = (x, d')" by (metis prod.exhaust)
  from arg_cases [OF x] assms True x show ?thesis
    by (auto simp: listener_directive_def line_rest_empty split: list.splits prod.splits bool.splits)
next
  case False
  with assms show ?thesis by (auto simp: listener_directive_def Let_def)
qed

lemma unmarshal_reads:
  assumes loop: "\<And>d. inside d \<or> block_lines (rest d) \<Longrightarrow> directive_loop body ops base m d = Some (read (rest d) m)"
    and "rest d = []" "segs d = s # ss"
  shows "UnmarshalCaddyfile body ops m d =
    Some (if line_rest s = [] then read s m else Inl ArgErr)"
proof -
  obtain e d1 where d1: "dp_Next ops d = (e, d1)" by (metis prod.exhaust)
  note n = next_some [OF assms(2,3) d1]
  obtain args d2 where d2: "dp_RemainingArgs ops d1 = (args, d2)" by (metis prod.exhaust)
  note r = remaining [OF d2]
  show ?thesis
  proof (cases "line_rest s = []")
    case True
    then have "next_lines s = s" by (metis append_Nil takeWhile_dropWhile_id)
    moreover have "block_lines s" using True by (cases s) (auto simp: block_lines_def split: if_splits)
    ultimately have "directive_loop body ops base m d2 = Some (read s m)"
      using loop [of d2] n r by simp
    with d1 d2 n r True show ?thesis by (simp add: UnmarshalCaddyfile_def)
  next
    case False
    with d1 d2 n r show ?thesis by (simp add: UnmarshalCaddyfile_def)
  qed
qed

lemma handler_reads:
  "rest d = [] \<Longrightarrow> segs d = s # ss \<Longrightarrow>
    Handler_UnmarshalCaddyfile ops h d = Some (if line_rest s = [] then read_handler s h else Inl ArgErr)"
  unfolding Handler_UnmarshalCaddyfile_def
  by (rule unmarshal_reads, rule directive_loop_reads, rule handler_directive_reads) simp_all

lemma listener_reads:
  "rest d = [] \<Longrightarrow> segs d = s # ss \<Longrightarrow>
    Listener_UnmarshalCaddyfile ops m d = Some (if line_rest s = [] then read_listener s m else Inl ArgErr)"
  unfolding Listener_UnmarshalCaddyfile_def
  by (rule unmarshal_reads, rule directive_loop_reads, rule listener_directive_reads) simp_all

end

text \<open>
  What the two modules make of their block depends on its tokens alone, for any dispenser:
  the parse returns, and its result is the one of the reference; arguments behind the name
  of the module are refused.
\<close>

theorem module_options_read_tokens:
  assumes "dispenser ops rest segs inside base" "rest d = []" "segs d = s # ss"
  shows "Handler_UnmarshalCaddyfile ops h d =
      Some (if line_rest s = [] then read_handler s h else Inl ArgErr) \<and>
    Listener_UnmarshalCaddyfile ops m d =
      Some (if line_rest s = [] then read_listener s m else Inl ArgErr)"
  using dispenser.handler_reads [OF assms] dispenser.listener_reads [OF assms] by blast

definition option_tape :: "string list list \<Rightarrow> tape" where
  "option_tape ls = \<lparr>tp_cur = [], tp_rest = [], tp_segs = [lines_tokens ls], tp_inside = False\<rparr>"

theorem module_options_read_tokens_witness:
  "Handler_UnmarshalCaddyfile tape_ops new_handler_options
      (option_tape [[''connect_method''], [''origin_allow'', ''a.b''], [''origin_allow'', ''c.d'']]) =
    Some (Inr (new_handler_options\<lparr>ho_Connect := True, ho_OriginAllow := [''a.b'', ''c.d'']\<rparr>))"
proof -
  let ?ls = "[[''connect_method''], [''origin_allow'', ''a.b''], [''origin_allow'', ''c.d'']]"
  have "tp_rest (option_tape ?ls) = []" "tp_segs (option_tape ?ls) = [lines_tokens ?ls]"
    by (simp_all add: option_tape_def)
  from module_options_read_tokens [where ops = tape_ops and rest = tp_rest and segs = tp_segs and
      d = "option_tape ?ls" and h = new_handler_options, OF tape.dispenser_axioms this]
  show ?thesis by (simp add: lines_tokens_def new_handler_options_def)
qed

text \<open>
  A misspelt option is not reported: the block is accepted, and the option stays off.
\<close>

theorem unknown_option_is_ignored:
  "Handler_UnmarshalCaddyfile tape_ops h (option_tape [[''conect_method'']]) = Some (Inr h)"
proof -
  let ?ls = "[[''conect_method'']]"
  have "tp_rest (option_tape ?ls) = []" "tp_segs (option_tape ?ls) = [lines_tokens ?ls]"
    by (simp_all add: option_tape_def)
  from tape.handler_reads [OF this, of h] show ?thesis by (simp add: lines_tokens_def)
qed

text \<open>A module that is provisioned has the store of the app and the proxy it names.\<close>

lemma Handler_Provision_ok:
  "Handler_Provision e a m = Inr (u, px) \<Longrightarrow> \<exists>app. a = Inr app \<and> u = GetUpstream app \<and>
    (if ho_ProxyName m = [] then px = GetProxy app else GetProxyByName app (ho_ProxyName m) = Some px)"
  by (auto simp: Handler_Provision_def module_Provision_def split: option.splits sum.splits if_splits)

end
