(* ===== verification/Program_Start.thy ===== *)
theory Program_Start
  imports Modules Module_Config
begin

text \<open>
  The start of the program: \<open>main\<close> of \<open>cmd/caddy/main.go\<close> runs the \<open>init\<close> functions of the
  imported packages, the standard modules of caddy first, and then the command of caddy. The
  \<open>init\<close> functions are lists of calls, into the registry of caddy, which is a parameter with the
  contract \<open>caddy_registry\<close>, and into the registry of proxy parsers. The theorem follows the
  start into the two entries of the configuration: the directive of the handler and the global
  option of the app.
\<close>

section \<open>The init functions\<close>

datatype ('h, 'g) init_call =
    RegModule module_info
  | RegParser string parser
  | RegDirective string 'h
  | RegOption string 'g

type_synonym ('h, 'g) calls = "('h, 'g) init_call list"

abbreviation RegParsers :: "(string \<times> parser) list \<Rightarrow> ('h, 'g) calls" where
  "RegParsers ps \<equiv> map (\<lambda>(name, parser). RegParser name parser) ps"

definition init_app_go :: "('h, 'g) calls" where
  "init_app_go = [RegModule App_CaddyModule]"

definition init_caddyfile_go :: "'g \<Rightarrow> ('h, 'g) calls" where
  "init_caddyfile_go parse = [RegOption ''trojan'' parse]"

definition init_proxy_go :: "module_object \<Rightarrow> ('h, 'g) calls" where
  "init_proxy_go jmo = map RegModule init_proxy @ RegParsers (proxy_registrations jmo)"

definition init_shadowsocks_go :: "module_object \<Rightarrow> ('h, 'g) calls" where
  "init_shadowsocks_go jmo = RegModule ShadowsocksProxy_CaddyModule # RegParsers (ss_registrations jmo)"

definition init_unix_go :: "module_object \<Rightarrow> ('h, 'g) calls" where
  "init_unix_go jmo = RegModule UnixProxy_CaddyModule # RegParsers (unix_registrations jmo)"

definition init_wireguard_go :: "('h, 'g) calls" where
  "init_wireguard_go = [RegModule WireGuardProxy_CaddyModule]"

definition init_upstream_go :: "('h, 'g) calls" where
  "init_upstream_go = map RegModule init_upstream"

definition init_admin_go :: "('h, 'g) calls" where
  "init_admin_go = [RegModule Admin_CaddyModule]"

definition init_handler_go :: "'h \<Rightarrow> ('h, 'g) calls" where
  "init_handler_go setup = [RegModule Handler_CaddyModule, RegDirective ''trojan'' setup]"

definition init_listener_go :: "('h, 'g) calls" where
  "init_listener_go = [RegModule ListenerWrapper_CaddyModule]"

text \<open>
  What the two registered functions do: the directive fills a new handler from its block, the
  option parses the configuration of the app with the parsers registered by then.
\<close>

definition handler_setup :: "'d dispenser_ops \<Rightarrow> 'd \<Rightarrow> (go_error + handler_options) option" where
  "handler_setup ops d = Handler_UnmarshalCaddyfile ops new_handler_options d"

definition app_option ::
  "'d dispenser_ops \<Rightarrow> module_object \<Rightarrow> parsers \<Rightarrow> 'd \<Rightarrow> (go_error + app_config) option" where
  "app_option ops jmo reg d = parseCaddyfile ops reg jmo d"

type_synonym 'd setup_fun = "'d \<Rightarrow> (go_error + handler_options) option"
type_synonym 'd option_parser = "parsers \<Rightarrow> 'd \<Rightarrow> (go_error + app_config) option"

text \<open>The files of \<open>app\<close> by name, then the packages under \<open>modules\<close> by name.\<close>

definition program_init :: "'d dispenser_ops \<Rightarrow> module_object \<Rightarrow> ('d setup_fun, 'd option_parser) calls" where
  "program_init ops jmo =
     init_app_go @ init_caddyfile_go (app_option ops jmo) @ init_proxy_go jmo @ init_shadowsocks_go jmo
     @ init_unix_go jmo @ init_wireguard_go @ init_upstream_go
     @ init_admin_go @ init_handler_go (handler_setup ops) @ init_listener_go"

lemmas init_defs = program_init_def init_app_go_def init_caddyfile_go_def init_proxy_go_def
  init_shadowsocks_go_def init_unix_go_def init_wireguard_go_def init_upstream_go_def
  init_admin_go_def init_handler_go_def init_listener_go_def

section \<open>Running them\<close>

record ('r, 'h, 'g) caddy_ops =
  co_RegisterModule :: "module_info \<Rightarrow> 'r \<Rightarrow> 'r outcome"
  co_RegisterHandlerDirective :: "string \<Rightarrow> 'h \<Rightarrow> 'r \<Rightarrow> 'r outcome"
  co_RegisterGlobalOption :: "string \<Rightarrow> 'g \<Rightarrow> 'r \<Rightarrow> 'r outcome"

fun run_call :: "('r, 'h, 'g) caddy_ops \<Rightarrow> ('h, 'g) init_call \<Rightarrow> 'r \<times> parsers \<Rightarrow> ('r \<times> parsers) outcome" where
  "run_call co (RegModule m) (r, ps) = and_then (co_RegisterModule co m r) (\<lambda>r. Returns (r, ps))"
| "run_call co (RegParser n p) (r, ps) = and_then (RegisterProxyParser n p ps) (\<lambda>ps. Returns (r, ps))"
| "run_call co (RegDirective n h) (r, ps) =
     and_then (co_RegisterHandlerDirective co n h r) (\<lambda>r. Returns (r, ps))"
| "run_call co (RegOption n g) (r, ps) =
     and_then (co_RegisterGlobalOption co n g r) (\<lambda>r. Returns (r, ps))"

fun run_calls :: "('r, 'h, 'g) caddy_ops \<Rightarrow> ('h, 'g) calls \<Rightarrow> 'r \<times> parsers \<Rightarrow> ('r \<times> parsers) outcome" where
  "run_calls co [] s = Returns s"
| "run_calls co (c # cs) s = and_then (run_call co c s) (run_calls co cs)"

text \<open>\<open>main\<close>: the standard modules, the modules of the program, and the command of caddy.\<close>

definition caddy_main ::
  "('r, 'd setup_fun, 'd option_parser) caddy_ops \<Rightarrow> 'd dispenser_ops \<Rightarrow> module_object \<Rightarrow> ('r \<Rightarrow> 'r outcome) \<Rightarrow>
    ('r \<times> parsers \<Rightarrow> 'x outcome) \<Rightarrow> 'r \<Rightarrow> 'x outcome" where
  "caddy_main co ops jmo standard Main r =
     and_then (standard r) (\<lambda>r. and_then (run_calls co (program_init ops jmo) (r, Map.empty)) Main)"

section \<open>The contract of the registry\<close>

locale caddy_registry = module_registry "co_RegisterModule co" GetModule
  for co :: "('r, 'h, 'g) caddy_ops" and GetModule :: "'r \<Rightarrow> string \<Rightarrow> go_type option" +
  fixes GetDirective :: "'r \<Rightarrow> string \<Rightarrow> 'h option" and GetOption :: "'r \<Rightarrow> string \<Rightarrow> 'g option"
  assumes module_only: "co_RegisterModule co m r = Returns r' \<Longrightarrow>
      GetDirective r' = GetDirective r \<and> GetOption r' = GetOption r"
    and directive_new: "GetDirective r n = None \<Longrightarrow>
      \<exists>r'. co_RegisterHandlerDirective co n h r = Returns r' \<and>
        GetDirective r' = (GetDirective r)(n \<mapsto> h) \<and> GetModule r' = GetModule r \<and> GetOption r' = GetOption r"
    and option_new: "GetOption r n = None \<Longrightarrow>
      \<exists>r'. co_RegisterGlobalOption co n g r = Returns r' \<and>
        GetOption r' = (GetOption r)(n \<mapsto> g) \<and> GetModule r' = GetModule r \<and> GetDirective r' = GetDirective r"

section \<open>What the calls leave\<close>

fun module_calls :: "('h, 'g) calls \<Rightarrow> (string \<times> go_type) list" where
  "module_calls [] = []"
| "module_calls (RegModule m # cs) = (mi_ID m, mi_New m) # module_calls cs"
| "module_calls (_ # cs) = module_calls cs"

fun parser_calls :: "('h, 'g) calls \<Rightarrow> (string \<times> parser) list" where
  "parser_calls [] = []"
| "parser_calls (RegParser n p # cs) = (n, p) # parser_calls cs"
| "parser_calls (_ # cs) = parser_calls cs"

fun directive_calls :: "('h, 'g) calls \<Rightarrow> (string \<times> 'h) list" where
  "directive_calls [] = []"
| "directive_calls (RegDirective n h # cs) = (n, h) # directive_calls cs"
| "directive_calls (_ # cs) = directive_calls cs"

fun option_calls :: "('h, 'g) calls \<Rightarrow> (string \<times> 'g) list" where
  "option_calls [] = []"
| "option_calls (RegOption n g # cs) = (n, g) # option_calls cs"
| "option_calls (_ # cs) = option_calls cs"

text \<open>The names a list of pairs registers are new and taken once.\<close>

definition fresh_names :: "(string \<times> 'b) list \<Rightarrow> (string \<rightharpoonup> 'b) \<Rightarrow> bool" where
  "fresh_names xs m \<longleftrightarrow> distinct (map fst xs) \<and> (\<forall>n \<in> fst ` set xs. m n = None)"

lemma fresh_names_Nil [simp]: "fresh_names [] m"
  by (simp add: fresh_names_def)

lemma fresh_names_Cons:
  assumes "fresh_names ((n, x) # xs) m"
  shows "m n = None" "fresh_names xs (m(n \<mapsto> x))" "m ++ map_of ((n, x) # xs) = m(n \<mapsto> x) ++ map_of xs"
  using assms
  by (auto simp: fresh_names_def map_add_upd_left dom_map_of_conv_image_fst image_iff)

text \<open>The four name spaces of a state: modules, proxy parsers, directives and global options.\<close>

type_synonym ('h, 'g) names = "(string \<rightharpoonup> go_type) \<times> parsers \<times> (string \<rightharpoonup> 'h) \<times> (string \<rightharpoonup> 'g)"

fun ready :: "('h, 'g) calls \<Rightarrow> ('h, 'g) names \<Rightarrow> bool" where
  "ready cs (ms, ps, ds, os) \<longleftrightarrow>
     fresh_names (module_calls cs) ms \<and> [] \<notin> fst ` set (module_calls cs) \<and>
     fresh_names (parser_calls cs) ps \<and> fresh_names (directive_calls cs) ds \<and>
     fresh_names (option_calls cs) os"

fun filled :: "('h, 'g) calls \<Rightarrow> ('h, 'g) names \<Rightarrow> ('h, 'g) names" where
  "filled cs (ms, ps, ds, os) =
     (ms ++ map_of (module_calls cs), ps ++ map_of (parser_calls cs),
      ds ++ map_of (directive_calls cs), os ++ map_of (option_calls cs))"

context caddy_registry
begin

abbreviation names :: "'r \<Rightarrow> parsers \<Rightarrow> ('h, 'g) names" where
  "names r ps \<equiv> (GetModule r, ps, GetDirective r, GetOption r)"

lemma run_calls_ok:
  "ready cs (names r ps) \<Longrightarrow>
    \<exists>r' ps'. run_calls co cs (r, ps) = Returns (r', ps') \<and> names r' ps' = filled cs (names r ps)"
proof (induction cs arbitrary: r ps)
  case Nil
  then show ?case by simp
next
  case (Cons c cs)
  have "\<exists>r1 ps1. run_call co c (r, ps) = Returns (r1, ps1) \<and> ready cs (names r1 ps1) \<and>
      filled cs (names r1 ps1) = filled (c # cs) (names r ps)"
  proof (cases c)
    case (RegModule m)
    note f = fresh_names_Cons [of "mi_ID m" "mi_New m" "module_calls cs" "GetModule r"]
    obtain r1 where r1: "co_RegisterModule co m r = Returns r1" "GetModule r1 = (GetModule r)(mi_ID m \<mapsto> mi_New m)"
      using register_new [of m r] f(1) Cons.prems by (force simp: RegModule)
    then show ?thesis
      using module_only [OF r1(1)] f Cons.prems by (auto simp: RegModule)
  next
    case (RegParser n p)
    note f = fresh_names_Cons [of n p "parser_calls cs" ps]
    then show ?thesis
      using Cons.prems by (auto simp: RegParser RegisterProxyParser_def)
  next
    case (RegDirective n h)
    note f = fresh_names_Cons [of n h "directive_calls cs" "GetDirective r"]
    obtain r1 where "co_RegisterHandlerDirective co n h r = Returns r1"
      "GetDirective r1 = (GetDirective r)(n \<mapsto> h)" "GetModule r1 = GetModule r" "GetOption r1 = GetOption r"
      using directive_new [of r n h] f(1) Cons.prems by (force simp: RegDirective)
    then show ?thesis using f Cons.prems by (auto simp: RegDirective)
  next
    case (RegOption n g)
    note f = fresh_names_Cons [of n g "option_calls cs" "GetOption r"]
    obtain r1 where "co_RegisterGlobalOption co n g r = Returns r1"
      "GetOption r1 = (GetOption r)(n \<mapsto> g)" "GetModule r1 = GetModule r" "GetDirective r1 = GetDirective r"
      using option_new [of r n g] f(1) Cons.prems by (force simp: RegOption)
    then show ?thesis using f Cons.prems by (auto simp: RegOption)
  qed
  then obtain r1 ps1 where 1: "run_call co c (r, ps) = Returns (r1, ps1)" "ready cs (names r1 ps1)"
    "filled cs (names r1 ps1) = filled (c # cs) (names r ps)" by blast
  with Cons.IH [OF 1(2)] show ?case by auto
qed

end

lemma calls_append [simp]:
  "module_calls (cs @ ds) = module_calls cs @ module_calls ds"
  "parser_calls (cs @ ds) = parser_calls cs @ parser_calls ds"
  "directive_calls (cs @ ds) = directive_calls cs @ directive_calls ds"
  "option_calls (cs @ ds) = option_calls cs @ option_calls ds"
  by (induction cs rule: module_calls.induct; simp)+

lemma calls_modules [simp]:
  "module_calls (map RegModule ms) = map (\<lambda>m. (mi_ID m, mi_New m)) ms"
  "parser_calls (map RegModule ms) = []" "directive_calls (map RegModule ms) = []"
  "option_calls (map RegModule ms) = []"
  by (induction ms) simp_all

lemma calls_parsers [simp]:
  "parser_calls (RegParsers ps) = ps" "module_calls (RegParsers ps) = []"
  "directive_calls (RegParsers ps) = []" "option_calls (RegParsers ps) = []"
  by (induction ps) (auto split: prod.splits)

lemma program_calls:
  "module_calls (program_init ops jmo) = map (\<lambda>m. (mi_ID m, mi_New m)) init_all"
  "parser_calls (program_init ops jmo) = registrations jmo"
  "directive_calls (program_init ops jmo) = [(''trojan'', handler_setup ops)]"
  "option_calls (program_init ops jmo) = [(''trojan'', app_option ops jmo)]"
  by (simp_all add: init_defs init_all_def registrations_def)

section \<open>A registry of maps\<close>

record ('h, 'g) map_caddy =
  mc_modules :: "string \<rightharpoonup> go_type"
  mc_directives :: "string \<rightharpoonup> 'h"
  mc_options :: "string \<rightharpoonup> 'g"

definition map_caddy_ops :: "(('h, 'g) map_caddy, 'h, 'g) caddy_ops" where
  "map_caddy_ops =
     \<lparr>co_RegisterModule = (\<lambda>m r. and_then (map_register m (mc_modules r)) (\<lambda>ms. Returns (r\<lparr>mc_modules := ms\<rparr>))),
      co_RegisterHandlerDirective = (\<lambda>n h r.
        if mc_directives r n \<noteq> None then Panics (ExplicitPanic (''directive '' @ n @ '' already registered''))
        else Returns (r\<lparr>mc_directives := (mc_directives r)(n \<mapsto> h)\<rparr>)),
      co_RegisterGlobalOption = (\<lambda>n g r.
        if mc_options r n \<noteq> None then Panics (ExplicitPanic (''global option '' @ n @ '' already registered''))
        else Returns (r\<lparr>mc_options := (mc_options r)(n \<mapsto> g)\<rparr>))\<rparr>"

definition empty_caddy :: "('h, 'g) map_caddy" where
  "empty_caddy = \<lparr>mc_modules = Map.empty, mc_directives = Map.empty, mc_options = Map.empty\<rparr>"

interpretation map_caddy: caddy_registry map_caddy_ops mc_modules mc_directives mc_options
  by unfold_locales (auto simp: map_caddy_ops_def map_register_def and_then_eq_Returns split: if_splits)

section \<open>The program starts\<close>

lemma program_init_ok:
  assumes "\<forall>m \<in> set init_all. ms (mi_ID m) = None" "ds ''trojan'' = None" "os ''trojan'' = None"
  shows "ready (program_init ops jmo) (ms, Map.empty, ds, os)"
proof -
  have "fresh_names (module_calls (program_init ops jmo)) ms"
    using assms(1) init_all_distinct by (auto simp: program_calls fresh_names_def comp_def)
  moreover have "[] \<notin> fst ` set (module_calls (program_init ops jmo))"
    using init_all_named by (fastforce simp: program_calls)
  moreover have "fresh_names (parser_calls (program_init ops jmo)) Map.empty"
    by (simp add: program_calls fresh_names_def registration_defs)
  ultimately show ?thesis using assms(2,3) by (simp add: program_calls fresh_names_def)
qed

lemma program_starts_parts:
  assumes "caddy_registry co GetModule GetDirective GetOption"
    "\<forall>m \<in> set init_all. GetModule r (mi_ID m) = None" "GetDirective r ''trojan'' = None"
    "GetOption r ''trojan'' = None"
  shows "\<exists>r'. run_calls co (program_init ops jmo) (r, Map.empty) = Returns (r', proxyParsers jmo) \<and>
    (\<forall>m \<in> set init_all. GetModule r' (mi_ID m) = Some (mi_New m)) \<and>
    GetDirective r' = (GetDirective r)(''trojan'' \<mapsto> handler_setup ops) \<and>
    GetOption r' = (GetOption r)(''trojan'' \<mapsto> app_option ops jmo)"
proof -
  obtain r' ps' where r': "run_calls co (program_init ops jmo) (r, Map.empty) = Returns (r', ps')"
    "(GetModule r', ps', GetDirective r', GetOption r') =
      filled (program_init ops jmo) (GetModule r, Map.empty, GetDirective r, GetOption r)"
    using caddy_registry.run_calls_ok [OF assms(1) program_init_ok [where ms = "GetModule r" and
        ds = "GetDirective r" and os = "GetOption r", OF assms(2-4)]] by blast
  have "map_of (map (\<lambda>m. (mi_ID m, mi_New m)) init_all) (mi_ID m) = Some (mi_New m)" if "m \<in> set init_all" for m
    using that init_all_distinct by (intro map_of_is_SomeI) (auto simp: comp_def)
  with r' show ?thesis by (auto simp: program_calls proxyParsers_def)
qed

text \<open>
  C22: the program starts, and its configuration finds what it needs. In any caddy whose registry
  has taken none of its names, \<open>main\<close> reaches the command of caddy without a panic, with every
  module of the program registered. From then on the handler directive reads exactly the options
  of its block, and every configuration that the global option accepts is complete: its store and
  all of its proxies name registered modules whose types implement the asserted interface.
\<close>

theorem program_starts:
  assumes "caddy_registry co GetModule GetDirective GetOption" "standard r0 = Returns r"
    "\<forall>m \<in> set init_all. GetModule r (mi_ID m) = None"
    "GetDirective r ''trojan'' = None" "GetOption r ''trojan'' = None"
    "dispenser ops rest segs inside 0" "rest d = []" "\<forall>s \<in> set (segs d). block_lines s"
    "module_object_law jmo"
  shows "\<exists>r' setup parse. caddy_main co ops jmo standard Main r0 = Main (r', proxyParsers jmo) \<and>
    (\<forall>m \<in> set init_all. GetModule r' (mi_ID m) = Some (mi_New m)) \<and>
    GetDirective r' ''trojan'' = Some setup \<and> GetOption r' ''trojan'' = Some parse \<and>
    (\<forall>s ss. segs d = s # ss \<longrightarrow> setup d = Some (read_handler s new_handler_options)) \<and>
    (\<forall>app. parse (proxyParsers jmo) d = Some (Inr app) \<longrightarrow>
      (\<exists>t \<in> Upstream_types.
        module_type (GetModule r') ''trojan.upstream'' ''upstream'' (the (ac_UpstreamRaw app)) = Some t) \<and>
      (\<forall>j \<in> insert (the (ac_ProxyRaw app)) (snd ` set (ac_NamedProxyRaw app)).
        \<exists>t \<in> Proxy_types. module_type (GetModule r') ''trojan.proxy'' ''proxy'' j = Some t))"
proof -
  obtain r' where r': "run_calls co (program_init ops jmo) (r, Map.empty) = Returns (r', proxyParsers jmo)"
    "\<forall>m \<in> set init_all. GetModule r' (mi_ID m) = Some (mi_New m)"
    "GetDirective r' = (GetDirective r)(''trojan'' \<mapsto> handler_setup ops)"
    "GetOption r' = (GetOption r)(''trojan'' \<mapsto> app_option ops jmo)"
    using program_starts_parts [where co = co and GetModule = GetModule and GetDirective = GetDirective and
        GetOption = GetOption and r = r and ops = ops and jmo = jmo, OF assms(1,3-5)] by blast
  have start: "caddy_main co ops jmo standard Main r0 = Main (r', proxyParsers jmo)"
    by (simp add: caddy_main_def assms(2) r'(1))
  have lines: "line_rest s = []" if "segs d = s # ss" for s ss
    using assms(8) that by (cases s) (auto simp: block_lines_def)
  have reads: "handler_setup ops d = Some (read_handler s new_handler_options)" if "segs d = s # ss" for s ss
    using dispenser.handler_reads [OF assms(6,7) that, of new_handler_options] lines [OF that]
    by (simp add: handler_setup_def)
  have types: "(\<exists>t \<in> Upstream_types.
        module_type (GetModule r') ''trojan.upstream'' ''upstream'' (the (ac_UpstreamRaw app)) = Some t) \<and>
      (\<forall>j \<in> insert (the (ac_ProxyRaw app)) (snd ` set (ac_NamedProxyRaw app)).
        \<exists>t \<in> Proxy_types. module_type (GetModule r') ''trojan.proxy'' ''proxy'' j = Some t)"
    if "app_option ops jmo (proxyParsers jmo) d = Some (Inr app)" for app
    by (rule registered_types [where GetModule = "GetModule r'", OF r'(2) assms(6-9)])
      (use that in \<open>simp only: app_option_def\<close>)
  have installed: "GetDirective r' ''trojan'' = Some (handler_setup ops)"
    "GetOption r' ''trojan'' = Some (app_option ops jmo)" by (simp_all add: r'(3,4))
  show ?thesis
    by (intro exI [of _ r'] exI [of _ "handler_setup ops"] exI [of _ "app_option ops jmo"] conjI start r'(2)
        installed allI impI reads types [THEN conjunct1] types [THEN conjunct2])
qed

theorem program_starts_witness:
  "\<exists>r' app. caddy_main map_caddy_ops tape_ops module_object Returns Returns empty_caddy
      = Returns (r', proxyParsers module_object) \<and>
    mc_modules r' ''trojan.proxy.block_domain'' = Some BlockDomain_t \<and>
    parseCaddyfile tape_ops (proxyParsers module_object) module_object sample_tape = Some (Inr app) \<and>
    mc_options r' ''trojan'' \<noteq> None"
proof -
  let ?c = "empty_caddy :: (tape setup_fun, tape option_parser) map_caddy"
  have fresh: "\<forall>m \<in> set init_all. mc_modules ?c (mi_ID m) = None"
    "mc_directives ?c ''trojan'' = None" "mc_options ?c ''trojan'' = None"
    by (simp_all add: empty_caddy_def)
  have std: "Returns ?c = Returns ?c" by (rule refl)
  obtain app where app: "parseCaddyfile tape_ops (proxyParsers module_object) module_object sample_tape = Some (Inr app)"
    using sample_parsed by blast
  have m: "BlockDomain_CaddyModule \<in> set init_all" "mi_ID BlockDomain_CaddyModule = ''trojan.proxy.block_domain''"
    "mi_New BlockDomain_CaddyModule = BlockDomain_t"
    by (simp_all add: init_all_def init_proxy_def BlockDomain_CaddyModule_def)
  from program_starts [where standard = Returns and Main = Returns and GetModule = mc_modules and
      GetDirective = mc_directives and GetOption = mc_options and co = map_caddy_ops and ?r0.0 = ?c and r = ?c,
      OF map_caddy.caddy_registry_axioms std fresh
      tape.dispenser_axioms sample_tape_lines module_object_ok]
  obtain r' where r': "caddy_main map_caddy_ops tape_ops module_object Returns Returns empty_caddy
      = Returns (r', proxyParsers module_object)"
    "\<forall>m \<in> set init_all. mc_modules r' (mi_ID m) = Some (mi_New m)" "mc_options r' ''trojan'' \<noteq> None"
    by (elim exE conjE) simp
  from r'(2) m have "mc_modules r' ''trojan.proxy.block_domain'' = Some BlockDomain_t" by metis
  with r'(1,3) app show ?thesis by blast
qed

end
