(* ===== verification/Module_Loading.thy ===== *)
theory Module_Loading
  imports Entrance Program_Start
begin

text \<open>
  From a configuration to a running program. \<open>LoadModule\<close> of caddy finds the type of a proxy in
  the registry, decodes its fields and calls its \<open>Provision\<close>, which loads the proxy in front of it
  in turn; here this is the relation \<open>loads\<close> over the \<open>Provision\<close> functions of \<open>app/proxy*.go\<close>.
  The listener wrapper and the handler then take a proxy from the app and serve with it. The
  theorems show that every chain the program can load keeps the contract of a dialer, but for two
  of its types, and that stopping the app closes every chain without a panic.
\<close>

section \<open>Loading proxies\<close>

text \<open>
  The third-party code of the proxies, with the decoder of caddy for the fields of each type. A
  fresh value has its other fields nil.
\<close>

record third_party =
  tp_jmo :: module_object
  tp_env :: "json \<Rightarrow> go_error + env_proxy"
  tp_socks :: "json \<Rightarrow> go_error + socks_proxy"
  tp_http :: "json \<Rightarrow> go_error + http_proxy"
  tp_block :: "json \<Rightarrow> go_error + block_domain"
  tp_ss :: "json \<Rightarrow> go_error + ss_proxy"
  tp_unix :: "json \<Rightarrow> go_error + unix_proxy"
  tp_wg :: "json \<Rightarrow> go_error + wireguard_proxy"
  tp_FromEnvironmentUsing :: "proxy_ops \<Rightarrow> dial_fun"
  tp_FromEnvironment :: dial_fun
  tp_SOCKS5 :: socks5
  tp_http_lib :: http_lib
  tp_PickCipher :: "string \<Rightarrow> string \<Rightarrow> go_error + cipher_write"
  tp_parse_addr :: "string \<Rightarrow> bytes option"
  tp_resolve_udp :: "string \<Rightarrow> go_error + net_addr"
  tp_wg_lib :: wg_lib

abbreviation proxy_type :: "(string \<Rightarrow> go_type option) \<Rightarrow> json \<Rightarrow> go_type option" where
  "proxy_type lookup j \<equiv> module_type lookup ''trojan.proxy'' ''proxy'' j"

text \<open>
  \<open>loads tp lookup j ts p\<close>: loading the JSON \<open>j\<close> gives the proxy \<open>p\<close>, a chain of the types \<open>ts\<close>
  from the outermost one on. \<open>L\<close> is \<open>LoadModule\<close> for the field \<open>pre_proxy\<close>.
\<close>

inductive loads ::
  "third_party \<Rightarrow> (string \<Rightarrow> go_type option) \<Rightarrow> json \<Rightarrow> go_type list \<Rightarrow> proxy_ops \<Rightarrow> bool"
  for tp :: third_party and lookup :: "string \<Rightarrow> go_type option" where
  none: "proxy_type lookup j = Some t \<Longrightarrow> t \<in> {NoProxy_t, noProxy_t} \<Longrightarrow> loads tp lookup j [t] NoProxy"
| drop: "proxy_type lookup j = Some DropProxy_t \<Longrightarrow> loads tp lookup j [DropProxy_t] DropProxy"
| env: "proxy_type lookup j = Some t \<Longrightarrow> t \<in> {EnvProxy_t, envProxy_t} \<Longrightarrow> tp_env tp j = Inr p \<Longrightarrow>
    \<forall>r. ep_ProxyRaw p = Some r \<longrightarrow> (\<exists>px. L r = Inr px \<and> loads tp lookup r ts px) \<Longrightarrow>
    EnvProxy_Provision L (tp_FromEnvironmentUsing tp) (tp_FromEnvironment tp) p = Inr p' \<Longrightarrow>
    loads tp lookup j (t # ts) (EnvProxy p')"
| socks: "proxy_type lookup j = Some SocksProxy_t \<Longrightarrow> tp_socks tp j = Inr p \<Longrightarrow>
    \<forall>r. sk_ProxyRaw p = Some r \<longrightarrow> (\<exists>px. L r = Inr px \<and> loads tp lookup r ts px) \<Longrightarrow>
    SocksProxy_Provision L (tp_SOCKS5 tp) p = Inr p' \<Longrightarrow>
    loads tp lookup j (SocksProxy_t # ts) (SocksProxy p')"
| http: "proxy_type lookup j = Some HttpProxy_t \<Longrightarrow> tp_http tp j = Inr p \<Longrightarrow>
    \<forall>r. hp_ProxyRaw p = Some r \<longrightarrow> (\<exists>px. L r = Inr px \<and> loads tp lookup r ts px) \<Longrightarrow>
    HttpProxy_Provision L p = Inr p' \<Longrightarrow>
    loads tp lookup j (HttpProxy_t # ts) (HttpProxy (tp_http_lib tp) p')"
| block: "proxy_type lookup j = Some BlockDomain_t \<Longrightarrow> tp_block tp j = Inr p \<Longrightarrow>
    raw = (case bd_ProxyRaw p of None \<Rightarrow> tp_jmo tp (JObj []) ''proxy'' ''none'' | Some r \<Rightarrow> r) \<Longrightarrow>
    L raw = Inr px \<Longrightarrow> loads tp lookup raw ts px \<Longrightarrow>
    BlockDomain_Provision L (tp_jmo tp) p = Returns (Inr p') \<Longrightarrow>
    loads tp lookup j (BlockDomain_t # ts) (BlockDomain p')"
| shadowsocks: "proxy_type lookup j = Some ShadowsocksProxy_t \<Longrightarrow> tp_ss tp j = Inr p \<Longrightarrow>
    \<forall>r. ss_ProxyRaw p = Some r \<longrightarrow> (\<exists>px. L r = Inr px \<and> loads tp lookup r ts px) \<Longrightarrow>
    ShadowsocksProxy_Provision L (tp_PickCipher tp) p = Inr p' \<Longrightarrow>
    loads tp lookup j (ShadowsocksProxy_t # ts)
      (ShadowsocksProxy (tp_parse_addr tp) (tp_resolve_udp tp) p')"
| unix: "proxy_type lookup j = Some UnixProxy_t \<Longrightarrow> tp_unix tp j = Inr p \<Longrightarrow> UnixProxy_Provision p = None \<Longrightarrow>
    loads tp lookup j [UnixProxy_t] (UnixProxy p)"
| wireguard: "proxy_type lookup j = Some WireGuardProxy_t \<Longrightarrow> tp_wg tp j = Inr p \<Longrightarrow>
    WireGuardProxy_Provision (tp_wg_lib tp) p = (None, p') \<Longrightarrow>
    loads tp lookup j [WireGuardProxy_t] (WireGuardProxy (tp_wg_lib tp) p')"

text \<open>What a successful \<open>Provision\<close> has put behind the proxy: the loaded one, or the direct one.\<close>

lemma provisioned:
  "EnvProxy_Provision L F E p = Inr p' \<Longrightarrow> (case ep_ProxyRaw p of
     None \<Rightarrow> ep_proxy p' = Some NoProxy \<and> ep_dialer p' = Some E
   | Some r \<Rightarrow> \<exists>px. L r = Inr px \<and> ep_proxy p' = Some px \<and> ep_dialer p' = Some (F px))"
  "SocksProxy_Provision L S5 q = Inr q' \<Longrightarrow> \<exists>px d a. sk_proxy q' = Some px \<and> sk_dialer q' = Some d \<and>
     S5 ''tcp'' (sk_Server q) a px = Inr d \<and> (case sk_ProxyRaw q of None \<Rightarrow> px = NoProxy | Some r \<Rightarrow> L r = Inr px)"
  "HttpProxy_Provision L h = Inr h' \<Longrightarrow> \<exists>px. hp_proxy h' = Some px \<and>
     (case hp_ProxyRaw h of None \<Rightarrow> px = NoProxy | Some r \<Rightarrow> L r = Inr px)"
  "BlockDomain_Provision L jmo d = Returns (Inr d') \<Longrightarrow> \<exists>px. bd_proxy d' = Some px \<and>
     L (case bd_ProxyRaw d of None \<Rightarrow> jmo (JObj []) ''proxy'' ''none'' | Some r \<Rightarrow> r) = Inr px"
  "ShadowsocksProxy_Provision L PC s = Inr s' \<Longrightarrow> \<exists>px c. ss_proxy s' = Some px \<and> ss_cipher s' = Some c \<and>
     PC (ss_Method s) (ss_Password s) = Inr c \<and> (case ss_ProxyRaw s of None \<Rightarrow> px = NoProxy | Some r \<Rightarrow> L r = Inr px)"
  "WireGuardProxy_Provision lib w = (None, w') \<Longrightarrow> wg_tnet w' \<and> wg_dev w' \<noteq> None"
  by (auto simp: EnvProxy_Provision_def SocksProxy_Provision_def HttpProxy_Provision_def
      BlockDomain_Provision_def ShadowsocksProxy_Provision_def WireGuardProxy_Provision_def
      proxy_or_none_def Let_def and_then_eq_Returns split: option.splits sum.splits)

section \<open>Every chain can be closed\<close>

lemma close_chain:
  "px_Close NoProxy w = ret (None, w)" "px_Close DropProxy w = ret (None, w)"
  "px_Close (UnixProxy u) w = ret (None, w)"
  "ep_proxy e = Some px \<Longrightarrow> px_Close (EnvProxy e) w = px_Close px w"
  "sk_proxy s = Some px \<Longrightarrow> px_Close (SocksProxy s) w = px_Close px w"
  "hp_proxy h = Some px \<Longrightarrow> px_Close (HttpProxy lib h) w = px_Close px w"
  "bd_proxy b = Some px \<Longrightarrow> px_Close (BlockDomain b) w = px_Close px w"
  "ss_proxy ss = Some px \<Longrightarrow> px_Close (ShadowsocksProxy pa ru ss) w = px_Close px w"
  "wg_dev g \<noteq> None \<Longrightarrow> px_Close (WireGuardProxy wl g) w = ret (None, w)"
  by (auto simp: NoProxy_def NoProxy_Close_def DropProxy_def DropProxy_Close_def UnixProxy_def
      UnixProxy_Close_def EnvProxy_def SocksProxy_def HttpProxy_def BlockDomain_def ShadowsocksProxy_def
      ShadowsocksProxy_Close_def WireGuardProxy_def WireGuardProxy_Close_def close_defs)

lemma loaded_closes: "loads tp lookup j ts p \<Longrightarrow> px_Close p w = ret (None, w)"
proof (induction rule: loads.induct)
  case (env j t p L ts p')
  from provisioned(1) [OF env.hyps(4)] env.IH show ?case
    by (cases "ep_ProxyRaw p") (auto simp: close_chain)
next
  case (socks j p L ts p')
  from provisioned(2) [OF socks.hyps(3)] socks.IH show ?case
    by (cases "sk_ProxyRaw p") (auto simp: close_chain)
next
  case (http j p L ts p')
  from provisioned(3) [OF http.hyps(3)] http.IH show ?case
    by (cases "hp_ProxyRaw p") (auto simp: close_chain)
next
  case (block j p raw L px ts p')
  from provisioned(4) [OF block.hyps(6)] block.hyps(3,4) block.IH show ?case
    by (auto simp: close_chain)
next
  case (shadowsocks j p L ts p')
  from provisioned(5) [OF shadowsocks.hyps(3)] shadowsocks.IH show ?case
    by (cases "ss_ProxyRaw p") (auto simp: close_chain)
next
  case (wireguard j p p')
  with provisioned(6) show ?case by (simp add: close_chain)
qed (simp_all add: close_chain)

section \<open>Which chains keep the contract\<close>

text \<open>A dial function that returns and leaves open exactly what it returns.\<close>

definition dial_contract :: "dial_fun \<Rightarrow> bool" where
  "dial_contract d \<longleftrightarrow> (\<forall>network addr w. d network addr w \<noteq> None \<and>
     (\<forall>r w'. d network addr w = ret (r, w') \<longrightarrow> owns w r w'))"

text \<open>
  What is relied on of the third-party dialers: those of \<open>golang.org/x/net\<close> keep the contract over
  a proxy that does, the cipher touches its own connection only, and so does the WireGuard stack.
\<close>

definition third_party_laws :: "third_party \<Rightarrow> bool" where
  "third_party_laws tp \<longleftrightarrow>
     dial_contract (tp_FromEnvironment tp) \<and>
     (\<forall>px. dialer px \<longrightarrow> dial_contract (tp_FromEnvironmentUsing tp px)) \<and>
     (\<forall>n s a px d. dialer px \<longrightarrow> tp_SOCKS5 tp n s a px = Inr d \<longrightarrow> dial_contract d) \<and>
     (\<forall>m pw c. tp_PickCipher tp m pw = Inr c \<longrightarrow> stream_cipher c) \<and>
     (\<forall>n a w r w'. wl_Dial (tp_wg_lib tp) n a w = (r, w') \<longrightarrow> owns w r w') \<and>
     (\<forall>na w r w'. wl_ListenUDP (tp_wg_lib tp) na w = (r, w') \<longrightarrow> owns w r w')"

lemma dialerI:
  "(\<And>n a w. px_Dial p n a w = d n a w) \<Longrightarrow> dial_contract d \<Longrightarrow> dialer p"
  by unfold_locales (auto simp: dial_contract_def)

lemma packet_dialerI:
  "dialer p \<Longrightarrow> (\<And>n a w. \<exists>e. px_ListenPacket p n a w = ret (Inl e, w)) \<Longrightarrow> packet_dialer p"
  unfolding packet_dialer_def packet_dialer_axioms_def
  by (metis (no_types, lifting) option.distinct(1) option.inject outcome.inject(1) owns_failed prod.inject)

lemma env_packets: "ep_dialer p = Some d \<Longrightarrow> dial_contract d \<Longrightarrow> packet_dialer (EnvProxy p)"
  by (intro packet_dialerI dialerI [where d = d])
    (simp_all add: EnvProxy_def EnvProxy_Dial_def EnvProxy_ListenPacket_def)

lemma socks_packets: "sk_dialer p = Some d \<Longrightarrow> dial_contract d \<Longrightarrow> packet_dialer (SocksProxy p)"
  by (intro packet_dialerI dialerI [where d = d])
    (simp_all add: SocksProxy_def SocksProxy_Dial_def SocksProxy_ListenPacket_def)

lemma http_packets: "hp_proxy p = Some px \<Longrightarrow> dialer px \<Longrightarrow> packet_dialer (HttpProxy lib p)"
  by (intro packet_dialerI http_chain.is_dialer http_chain.intro http_chain_axioms.intro)
    (simp_all add: HttpProxy_def HttpProxy_ListenPacket_def)

lemma block_packets:
  assumes "bd_proxy d = Some px" "packet_dialer px"
  shows "packet_dialer (BlockDomain d)"
proof -
  have "block_packet_chain px d"
    using assms
    by (simp add: block_packet_chain_def block_chain_def block_chain_axioms_def packet_dialer_def)
  then show ?thesis by (rule block_packet_chain.is_packet_dialer)
qed

lemma wireguard_packets:
  assumes "third_party_laws tp" "wg_tnet p"
  shows "packet_dialer (WireGuardProxy (tp_wg_lib tp) p)"
proof unfold_locales
  fix network addr w r w'
  let ?p = "WireGuardProxy (tp_wg_lib tp) p"
  note defs = WireGuardProxy_def WireGuardProxy_Dial_def WireGuardProxy_ListenPacket_def
  show "px_Dial ?p network addr w \<noteq> None" "px_ListenPacket ?p network addr w \<noteq> None"
    by (simp_all add: defs split: sum.splits)
  show "owns w r w'" if "px_Dial ?p network addr w = ret (r, w')"
    using that assms by (auto simp: defs third_party_laws_def)
  show "owns w r w'" if "px_ListenPacket ?p network addr w = ret (r, w')"
    using that assms by (auto simp: defs third_party_laws_def split: sum.splits)
qed

text \<open>
  Every chain without \<open>UnixProxy\<close> and \<open>ShadowsocksProxy\<close> keeps the contract for both kinds of
  session. \<open>UnixProxy\<close> leaves its socket when the handshake fails; \<open>ShadowsocksProxy\<close> keeps the
  contract for \<open>Dial\<close> only.
\<close>

definition leaky :: "go_type set" where
  "leaky = {UnixProxy_t, ShadowsocksProxy_t}"

lemma loaded_packets:
  "loads tp lookup j ts p \<Longrightarrow> third_party_laws tp \<Longrightarrow> set ts \<inter> leaky = {} \<Longrightarrow> packet_dialer p"
proof (induction rule: loads.induct)
  case (none j t)
  show ?case by (rule direct_packets.packet_dialer_axioms)
next
  case (drop j)
  show ?case by (rule drop_packets.packet_dialer_axioms)
next
  case (env j t p L ts p')
  have "\<exists>d. ep_dialer p' = Some d \<and> dial_contract d"
    using provisioned(1) [OF env.hyps(4)] env.IH env.prems
    by (cases "ep_ProxyRaw p") (auto simp: third_party_laws_def packet_dialer_def)
  then show ?case using env_packets by blast
next
  case (socks j p L ts p')
  obtain px d a where d: "sk_dialer p' = Some d" "tp_SOCKS5 tp ''tcp'' (sk_Server p) a px = Inr d"
    "case sk_ProxyRaw p of None \<Rightarrow> px = NoProxy | Some r \<Rightarrow> L r = Inr px"
    using provisioned(2) [OF socks.hyps(3)] by blast
  have "dialer px"
    using d(3) socks.IH socks.prems direct.dialer_axioms
    by (cases "sk_ProxyRaw p") (auto simp: packet_dialer_def)
  with d(2) socks.prems(1) have "dial_contract d" by (auto simp: third_party_laws_def)
  with d(1) show ?case by (rule socks_packets)
next
  case (http j p L ts p')
  obtain px where px: "hp_proxy p' = Some px"
    "case hp_ProxyRaw p of None \<Rightarrow> px = NoProxy | Some r \<Rightarrow> L r = Inr px"
    using provisioned(3) [OF http.hyps(3)] by blast
  have "dialer px"
    using px(2) http.IH http.prems direct.dialer_axioms
    by (cases "hp_ProxyRaw p") (auto simp: packet_dialer_def)
  with px(1) show ?case by (rule http_packets)
next
  case (block j p raw L px ts p')
  from provisioned(4) [OF block.hyps(6)] block.hyps(3,4) have "bd_proxy p' = Some px" by auto
  moreover have "packet_dialer px" using block.IH block.prems by simp
  ultimately show ?case by (rule block_packets)
next
  case (wireguard j p p')
  with provisioned(6) show ?case by (intro wireguard_packets) auto
qed (simp_all add: leaky_def)

section \<open>The running program\<close>

text \<open>
  \<open>NewListener\<close> with the fields it is given, and \<open>WrapListener\<close>, which passes the provisioned
  ones on and starts the accepting loop.
\<close>

record 'u wrapped_listener =
  wr_Verbose :: bool
  wr_Upstream :: 'u
  wr_Proxy :: proxy_ops
  wr_queue :: listener
  wr_looping :: bool

definition new_wrapped :: "'u \<Rightarrow> proxy_ops \<Rightarrow> 'u wrapped_listener" where
  "new_wrapped u px =
     \<lparr>wr_Verbose = False, wr_Upstream = u, wr_Proxy = px, wr_queue = NewListener, wr_looping = False\<rparr>"

definition WrapListener :: "listener_options \<Rightarrow> 'u \<times> proxy_ops \<Rightarrow> 'u wrapped_listener" where
  "WrapListener m provisioned =
     (let ln = new_wrapped (fst provisioned) (snd provisioned);
          ln = ln\<lparr>wr_Verbose := lo_Verbose m\<rparr>
      in ln\<lparr>wr_looping := True\<rparr>)"

lemma WrapListener_fields [simp]:
  "wr_Proxy (WrapListener m (u, px)) = px" "wr_Upstream (WrapListener m (u, px)) = u"
  "wr_queue (WrapListener m (u, px)) = NewListener"
  by (simp_all add: WrapListener_def new_wrapped_def)

definition loadable :: "third_party \<Rightarrow> (string \<Rightarrow> go_type option) \<Rightarrow> loader \<Rightarrow> bool" where
  "loadable tp lookup LoadModule \<longleftrightarrow> (\<forall>j px. LoadModule j = Inr px \<longrightarrow> (\<exists>ts. loads tp lookup j ts px))"

definition without_leaks :: "third_party \<Rightarrow> (string \<Rightarrow> go_type option) \<Rightarrow> json \<Rightarrow> bool" where
  "without_leaks tp lookup j \<longleftrightarrow> (\<forall>ts px. loads tp lookup j ts px \<longrightarrow> set ts \<inter> leaky = {})"

text \<open>The proxies of a provisioned app, each loaded from its own member of the configuration.\<close>

lemma app_proxies:
  assumes "App_Provision jmo ops LoadUpstream LoadModule cfg = Inr app" "ac_ProxyRaw cfg = Some raw"
  shows "LoadModule raw = Inr (ap_proxy app)"
    "load_named LoadModule (ac_NamedProxyRaw cfg) = Inr (ap_namedProxy app)"
proof -
  obtain cfg' where d: "app_defaults jmo cfg = Inr cfg'"
    using assms(1) by (auto simp: App_Provision_def split: sum.splits)
  then have "ac_ProxyRaw cfg' = Some raw"
    using assms(2) by (auto simp: app_defaults_def Let_def split: sum.splits if_splits)
  then show "LoadModule raw = Inr (ap_proxy app)"
    "load_named LoadModule (ac_NamedProxyRaw cfg) = Inr (ap_namedProxy app)"
    using assms(1) d app_defaults_keeps [OF d]
    by (auto simp: App_Provision_def split: sum.splits)
qed

lemma load_named_member:
  "load_named LoadModule raws = Inr named \<Longrightarrow> (n, px) \<in> set named \<Longrightarrow>
    \<exists>j \<in> snd ` set raws. LoadModule j = Inr px"
proof (induction raws arbitrary: named)
  case (Cons a raws)
  obtain m raw where a: "a = (m, raw)" by (metis prod.exhaust)
  from Cons.prems(1) obtain qx rest where q: "LoadModule raw = Inr qx" "load_named LoadModule raws = Inr rest"
    "named = (m, qx) # rest"
    by (cases "LoadModule raw"; cases "load_named LoadModule raws") (auto simp: a)
  from Cons.prems(2) q(3) have "n = m \<and> px = qx \<or> (n, px) \<in> set rest" by auto
  with q(1) Cons.IH [OF q(2)] show ?case by (auto simp: a)
qed simp

lemma app_stops:
  assumes "loadable tp lookup LoadModule" "App_Provision jmo ops LoadUpstream LoadModule cfg = Inr app"
    "ac_ProxyRaw cfg = Some raw"
  shows "App_Stop app w = ret (None, w)"
proof -
  note p = app_proxies [OF assms(2,3)]
  have "px_Close px w = ret (None, w)" if "(n, px) \<in> set (ap_namedProxy app)" for n px w
    using load_named_member [OF p(2) that] assms(1) loaded_closes by (fastforce simp: loadable_def)
  then have "close_named (ap_namedProxy app) w = ret (fold ((\<lambda>_ w. w) \<circ> snd) (ap_namedProxy app) w)"
    by (intro close_named_all) auto
  moreover have "fold ((\<lambda>_ w. w) \<circ> snd) named w = w" for named :: "(string \<times> proxy_ops) list" and w :: net
    by (induction named) simp_all
  moreover have "px_Close (ap_proxy app) w = ret (None, w)"
    using p(1) assms(1) loaded_closes by (fastforce simp: loadable_def)
  ultimately show ?thesis by (simp add: App_Stop_def)
qed

lemma module_proxy:
  assumes "module_Provision what e (Inr app) name = Inr (u, px)"
  shows "px = ap_proxy app \<or> (\<exists>n. (n, px) \<in> set (ap_namedProxy app))"
  using assms
  by (auto simp: module_Provision_def GetProxy_def GetProxyByName_def dest: map_of_SomeD
      split: option.splits if_splits)

lemma configured_proxy:
  assumes "third_party_laws tp" "loadable tp lookup LoadModule"
    "App_Provision jmo ops LoadUpstream LoadModule cfg = Inr app" "ac_ProxyRaw cfg = Some raw"
    "\<forall>j \<in> insert raw (snd ` set (ac_NamedProxyRaw cfg)). without_leaks tp lookup j"
    "module_Provision what e (Inr app) name = Inr (u, px)"
  shows "packet_dialer px"
proof -
  note p = app_proxies [OF assms(3,4)]
  from module_proxy [OF assms(6)] p(1) load_named_member [OF p(2)]
  have "\<exists>j \<in> insert raw (snd ` set (ac_NamedProxyRaw cfg)). LoadModule j = Inr px" by auto
  then obtain j ts where "loads tp lookup j ts px" "set ts \<inter> leaky = {}"
    using assms(2,5) unfolding loadable_def without_leaks_def by blast
  then show ?thesis by (intro loaded_packets [OF _ assms(1)])
qed


section \<open>A concrete configuration\<close>

text \<open>A block list in front of the direct proxy; nothing else can be decoded.\<close>

definition direct_json :: json where
  "direct_json = JObj [(''proxy'', JStr ''none'')]"

definition block_json :: json where
  "block_json = JObj [(''proxy'', JStr ''block_domain'')]"

definition demo_block :: block_domain where
  "demo_block = \<lparr>bd_ProxyRaw = None, bd_DomainList = [''a.b''], bd_proxy = None, bd_node = Some NewNode\<rparr>"

definition no_wg :: wg_lib where
  "no_wg = \<lparr>wl_CreateNetTUN = (\<lambda>_ _ _. Some EOF), wl_IpcSet = (\<lambda>_. Some EOF), wl_Up = (\<lambda>_. Some EOF),
     wl_Dial = (\<lambda>_ _ w. (Inl EOF, w)), wl_ListenUDP = (\<lambda>_ w. (Inl EOF, w))\<rparr>"

definition demo_party :: third_party where
  "demo_party = \<lparr>tp_jmo = (\<lambda>j f n. JObj [(f, JStr n)]), tp_env = (\<lambda>_. Inl EOF), tp_socks = (\<lambda>_. Inl EOF),
     tp_http = (\<lambda>_. Inl EOF), tp_block = (\<lambda>_. Inr demo_block), tp_ss = (\<lambda>_. Inl EOF),
     tp_unix = (\<lambda>_. Inl EOF), tp_wg = (\<lambda>_. Inl EOF), tp_FromEnvironmentUsing = (\<lambda>_ _ _ w. ret (Inl EOF, w)),
     tp_FromEnvironment = (\<lambda>_ _ w. ret (Inl EOF, w)), tp_SOCKS5 = (\<lambda>_ _ _ _. Inl EOF),
     tp_http_lib = sample_lib, tp_PickCipher = (\<lambda>_ _. Inl EOF), tp_parse_addr = (\<lambda>_. None),
     tp_resolve_udp = (\<lambda>_. Inl EOF), tp_wg_lib = no_wg\<rparr>"

definition demo_lookup :: "string \<Rightarrow> go_type option" where
  "demo_lookup = map_of (map (\<lambda>m. (mi_ID m, mi_New m)) init_all)"

lemma demo_laws: "third_party_laws demo_party"
  by (auto simp: third_party_laws_def demo_party_def no_wg_def dial_contract_def)

lemma demo_types: "proxy_type demo_lookup direct_json = Some NoProxy_t"
  "proxy_type demo_lookup block_json = Some BlockDomain_t"
  by (simp_all add: module_type_def demo_lookup_def direct_json_def block_json_def inline_key_def
      init_all_def init_proxy_def module_defs)

definition direct_only :: loader where
  "direct_only j = (if j = direct_json then Inr NoProxy else Inl EOF)"

lemma demo_raw: "(case bd_ProxyRaw demo_block of None \<Rightarrow> tp_jmo demo_party (JObj []) ''proxy'' ''none'' | Some r \<Rightarrow> r)
    = direct_json"
  by (simp add: demo_block_def demo_party_def direct_json_def)

lemma demo_provision: "\<exists>p. BlockDomain_Provision direct_only (tp_jmo demo_party) demo_block = Returns (Inr p)"
proof -
  have "\<forall>d \<in> set [''a.b'']. no_wildcard d" by (simp add: no_wildcard_def labels_def trim_dot_def)
  then obtain nd where "put_all (Some NewNode) [''a.b''] = Returns nd"
    using put_all_plain [OF plain_NewNode] by blast
  then show ?thesis
    by (simp add: BlockDomain_Provision_def demo_block_def demo_party_def direct_only_def direct_json_def)
qed

lemma demo_direct: "loads demo_party demo_lookup direct_json [NoProxy_t] NoProxy"
  by (rule loads.none) (simp_all add: demo_types)

lemma demo_loads:
  "BlockDomain_Provision direct_only (tp_jmo demo_party) demo_block = Returns (Inr p) \<Longrightarrow>
    loads demo_party demo_lookup block_json [BlockDomain_t, NoProxy_t] (BlockDomain p)"
  by (rule loads.block [where L = direct_only and px = NoProxy, OF demo_types(2) _ demo_raw [symmetric] _ demo_direct])
    (simp_all add: demo_party_def direct_only_def)

lemma demo_without_leaks:
  "without_leaks demo_party demo_lookup direct_json" "without_leaks demo_party demo_lookup block_json"
proof -
  have direct: "ts = [NoProxy_t]" if "loads demo_party demo_lookup direct_json ts px" for ts px
    using that by cases (simp_all add: demo_types)
  then show "without_leaks demo_party demo_lookup direct_json"
    by (auto simp: without_leaks_def leaky_def dest!: direct)
  have block: "ts = [BlockDomain_t, NoProxy_t]" if "loads demo_party demo_lookup block_json ts px" for ts px
    using that
  proof cases
    case (block p raw L qx us p')
    then have "loads demo_party demo_lookup direct_json us qx"
      using demo_raw by (simp add: demo_party_def)
    with block direct show ?thesis by auto
  qed (simp_all add: demo_types)
  then show "without_leaks demo_party demo_lookup block_json"
    by (auto simp: without_leaks_def leaky_def dest!: block)
qed

definition block_config :: app_config where
  "block_config = \<lparr>ac_UpstreamRaw = Some (JStr ''caddy''), ac_ProxyRaw = Some direct_json,
     ac_NamedProxyRaw = [(''b'', block_json)], ac_Users = [''bob'']\<rparr>"


end
