(* ===== verification/Reload.thy ===== *)
theory Reload
  imports Entrance
begin

text \<open>
  Sessions and the reload of a configuration. caddy starts the new configuration, then stops the
  app and cleans up the modules of the old one; connections that its goroutines are serving go on.
  \<open>Cleanup\<close> of \<open>MemoryUpstream\<close> (\<open>app/upstream.go\<close>) closes the channel to the persistent store,
  and \<open>sendTask\<close> recovers from the panic of a send on it: the process survives, and what the
  session has used is dropped.
\<close>

section \<open>A store after its Cleanup\<close>

text \<open>
  What the persistent store holds once the goroutine has emptied the channel, which it does also
  when the channel has been closed.
\<close>

definition persisted :: "'u upstream_ops \<Rightarrow> 'u memory \<Rightarrow> 'u option" where
  "persisted pops m =
     (case (ch m, up m) of (Some c, Some u) \<Rightarrow> Some (fold (perform pops) (ch_buf c) u) | _ \<Rightarrow> None)"

definition cleaned :: "'u memory \<Rightarrow> bool" where
  "cleaned m \<longleftrightarrow> (case ch m of None \<Rightarrow> True | Some c \<Rightarrow> ch_closed c)"

lemma persisted_drained: "drained pops m = Some v \<Longrightarrow> persisted pops m = Some v"
  by (auto simp: persisted_def drained_def split: option.splits if_splits)

lemma persisted_goroutine [simp]: "persisted pops (persist_one pops m) = persisted pops m"
  by (auto simp: persisted_def persist_one_def split: option.splits list.splits)

lemma cleaned_goroutine [simp]: "cleaned (persist_one pops m) = cleaned m"
  by (auto simp: cleaned_def persist_one_def split: option.splits list.splits)

lemma send_after_cleanup: "cleaned m \<Longrightarrow> send_if_persistent pops t m = m"
  by (auto simp: cleaned_def send_if_persistent_def sendTask_def split: option.splits)

lemma cleaned_apply [simp]: "cleaned (mem_apply t m) = cleaned m"
  by (simp add: cleaned_def)

lemma persisted_apply [simp]: "persisted pops (mem_apply t m) = persisted pops m"
  by (simp add: persisted_def)

lemma cleanup_facts:
  assumes "mem_Cleanup m = Returns m'"
  shows "cleaned m'" "persisted pops m' = persisted pops m" "mm m' = mm m"
  using assms by (auto simp: mem_Cleanup_def cleaned_def persisted_def split: option.splits if_splits)

text \<open>Nothing that is called on such a store reaches the persistent one any more.\<close>

lemma calls_after_cleanup:
  "cleaned m \<Longrightarrow> cleaned (fold (mem_exec pops) ss m) \<and>
    persisted pops (fold (mem_exec pops) ss m) = persisted pops m"
proof (induction ss arbitrary: m)
  case (Cons s ss)
  have "cleaned (mem_exec pops s m) \<and> persisted pops (mem_exec pops s m) = persisted pops m"
    using Cons.prems by (cases s) (simp_all add: perform_mem send_after_cleanup)
  with Cons.IH [of "mem_exec pops s m"] show ?case by simp
qed simp

lemma charge_task:
  "charge (mem_ops pops) k h m =
    perform (mem_ops pops) (TaskConsume k (word_of_int (hw_nr h)) (word_of_int (hw_nw h))) m"
  "charge pops k h v = perform pops (TaskConsume k (word_of_int (hw_nr h)) (word_of_int (hw_nw h))) v"
  by (simp_all add: charge_def)

lemma charge_open:
  "drained pops m = Some v \<Longrightarrow> drained pops (charge (mem_ops pops) k h m) = Some (charge pops k h v)"
  unfolding charge_task perform_mem by (rule drained_send) (simp only: drained_apply)

lemma charge_cleaned:
  assumes "cleaned m"
  shows "persisted pops (charge (mem_ops pops) k h m) = persisted pops m"
  unfolding charge_task perform_mem by (simp only: send_after_cleanup [of "mem_apply t m" for t] cleaned_apply assms persisted_apply)

section \<open>Sessions over a reload\<close>

text \<open>
  C15: a session that outlives its configuration is free. A user who connects before a reload is
  served to the end, whatever happens meanwhile. When the session ends before the old store is
  cleaned up, its traffic reaches the persistent store; when it ends afterwards, only the counter
  in the memory of the old instance moves, which nobody reads again: the persistent store, from
  which the new instance works, holds what it held.
\<close>

theorem sessions_over_a_reload_are_free:
  assumes "mem_inv us" "validStorageKey k" "map_of (mm us) k \<noteq> None" "no_empty_reads s"
    "content s = greeting k @ rest" "rest \<noteq> []"
    "listen_over p (mem_ops pops) sent mw te ue s us w = ret (acts, us', w')"
    "drained pops us1 = Some v" "mem_Cleanup us1 = Returns us2"
  shows "\<exists>h. Serve h \<in> set acts \<and>
    (mw us = us1 \<longrightarrow> drained pops us' = Some (charge pops k h v)) \<and>
    (mw us = us2 \<longrightarrow> persisted pops us' = Some v \<and>
      mem_users us' k = Some (add_traffic (case mem_users us1 k of Some t \<Rightarrow> t | None \<Rightarrow> no_traffic)
        (word_of_int (hw_nr h)) (word_of_int (hw_nw h))))"
proof -
  let ?g = "\<lambda>key c. cont (serve_over p c te ue w) (\<lambda>(h, w).
    ret ([SniffDeadline, ClearDeadline, Serve h, CloseConn, ClearDeadline], charge (mem_ops pops) key h (mw us), w))"
  from mem.user_gets_tunnel [OF assms(4,5,2,6,1,3), of pops sent "\<lambda>acts. ret (acts, us, w)" ?g]
  obtain c' where "listen_over p (mem_ops pops) sent mw te ue s us w = ?g k c'"
    by (auto simp: listen_over_def)
  with assms(7) obtain h where h: "Serve h \<in> set acts" "us' = charge (mem_ops pops) k h (mw us)"
    by (auto simp: cont_ret_iff)
  note c = cleanup_facts [OF assms(9)]
  have "drained pops us' = Some (charge pops k h v)" if "mw us = us1"
    using charge_open [OF assms(8)] h(2) that by simp
  moreover have "persisted pops us' = Some v" if "mw us = us2"
    using charge_cleaned [OF c(1)] c(2) persisted_drained [OF assms(8)] h(2) that by simp
  moreover have "mem_users us' k = Some (add_traffic (case mem_users us1 k of Some t \<Rightarrow> t | None \<Rightarrow> no_traffic)
        (word_of_int (hw_nr h)) (word_of_int (hw_nw h)))" if "mw us = us2"
    unfolding h(2) that using c(3) by (simp add: charge_def mem_ops_def mem_Consume_users)
  ultimately show ?thesis using h(1) by blast
qed

text \<open>Alice over a persistent store, cleaned up while her session runs.\<close>

definition persistent_alice :: "(string \<times> bytes) list memory" where
  "persistent_alice = alice\<lparr>ch := Some \<lparr>ch_buf = [], ch_closed = False\<rparr>, up := Some demo_files\<rparr>"

definition cleaned_alice :: "(string \<times> bytes) list memory" where
  "cleaned_alice = alice\<lparr>ch := Some \<lparr>ch_buf = [], ch_closed = True\<rparr>, up := Some demo_files\<rparr>"

theorem sessions_over_a_reload_are_free_witness:
  "\<exists>acts us' w'. listen_over (HttpProxy sample_lib sample_proxy) (mem_ops (cu_ops list_storage Unmarshal)) True
      (\<lambda>_. cleaned_alice) demo_env demo_udp_env demo_session persistent_alice sample_net = ret (acts, us', w') \<and>
    persisted (cu_ops list_storage Unmarshal) us' = Some demo_files \<and>
    map_of (mm us') (GenKey ''alice'') = Some \<lparr>Up = 2, Down = 3\<rparr>"
proof -
  let ?ops = "cu_ops list_storage Unmarshal" and ?mw = "\<lambda>_ :: (string \<times> bytes) list memory. cleaned_alice"
  have alice: "mem_inv persistent_alice" "map_of (mm persistent_alice) (GenKey ''alice'') \<noteq> None"
    "map_of (mm (?mw persistent_alice)) (GenKey ''alice'') = Some no_traffic"
    using alice_inv alice_known by (simp_all add: persistent_alice_def cleaned_alice_def mem_inv_def)
  have store: "drained ?ops persistent_alice = Some demo_files" "mem_Cleanup persistent_alice = Returns cleaned_alice"
    by (simp_all add: drained_def mem_Cleanup_def persistent_alice_def cleaned_alice_def)
  obtain x run us' w' where run: "listen_over (HttpProxy sample_lib sample_proxy) (mem_ops ?ops) True ?mw demo_env
      demo_udp_env demo_session persistent_alice sample_net =
      ret ([SniffDeadline, ClearDeadline, Serve x, CloseConn, ClearDeadline], us', w')"
    "map_of (mm us') (GenKey ''alice'') = Some (add_traffic no_traffic (word_of_nat 2) (word_of_nat 3))"
    using listen_session [where mw = ?mw, OF alice(1) valid_GenKey alice(2,3) demo_session_facts(1,2)
        demo_session_end sample_world, of ?ops True demo_udp_env] by auto
  have "request CmdConnect (encode_addr (HostDomain [104]) 80) @ [7, 8] \<noteq> []" by (simp add: request_def)
  from sessions_over_a_reload_are_free [OF alice(1) valid_GenKey alice(2) demo_session_facts(1,2) this run(1) store]
  have "persisted ?ops us' = Some demo_files" by blast
  with run show ?thesis by (auto simp: add_traffic_def no_traffic_def)
qed

end
