(* ===== verification/Shadowsocks_Udp.thy ===== *)
theory Shadowsocks_Udp
  imports Entrance Shadowsocks_Proxy
begin

text \<open>
  UDP sessions through \<open>ShadowsocksProxy\<close>: \<open>HandleUDP\<close> of \<open>pkgs/trojan/trojan_udp.go\<close> over the
  packet connection of \<open>app/proxy_shadowsocks.go\<close>. What the session writes to and reads from its
  packet connection is related to the datagrams that the inner socket exchanges with the server: a
  simulation for \<open>WriteTo\<close>, and the list of what \<open>ReadFrom\<close> returns, which does not depend on what
  the buffer held before. The theorem follows a user of the listener to the wire and back.
\<close>

section \<open>The packet connection\<close>

text \<open>\<open>(*net.UDPAddr).String\<close>, also of a nil pointer.\<close>

definition UDPAddr_String :: "net_addr option \<Rightarrow> string" where
  "UDPAddr_String a =
     (case a of
        Some (UDPAddr ip port) \<Rightarrow> JoinHostPort (if ip = [] then [] else IP_String ip) (itoa (nat port))
      | _ \<Rightarrow> ''<nil>'')"

text \<open>\<open>ssPacketConn\<close>: the packet connection of the cipher and the address of the server.\<close>

record ss_packet_conn =
  sc_PacketConn :: packet_conn
  sc_addr :: net_addr

text \<open>\<open>WriteTo\<close> on it: the inner connection accepts a datagram whole or fails.\<close>

definition ssPacketConn_WriteTo ::
  "(string \<Rightarrow> bytes option) \<Rightarrow> ss_packet_conn \<Rightarrow> bytes \<Rightarrow> net_addr option \<Rightarrow> go_error option \<times> ss_packet_conn" where
  "ssPacketConn_WriteTo parse_addr c buf addr =
     (case ss_WriteTo parse_addr
             (\<lambda>b. (int (length b), fst (WriteTo (sc_PacketConn c) b (Some (sc_addr c))))) buf
             (UDPAddr_String addr) of
        (wire, n, err) \<Rightarrow>
          (err, c\<lparr>sc_PacketConn := snd (WriteTo (sc_PacketConn c) wire (Some (sc_addr c)))\<rparr>))"

text \<open>
  The simulation: a session that is told of the connection it writes to only whether a write
  failed sends, in place of each payload to its target, the encoded target and the payload to the
  server.
\<close>

definition on_wire :: "(string \<Rightarrow> bytes option) \<Rightarrow> net_addr \<Rightarrow> bytes \<times> net_addr option \<Rightarrow> bytes \<times> net_addr option" where
  "on_wire parse_addr server d =
     (case d of (payload, target) \<Rightarrow>
        ((case parse_addr (UDPAddr_String target) of None \<Rightarrow> [] | Some a \<Rightarrow> a) @ payload, Some server))"

definition wired :: "(string \<Rightarrow> bytes option) \<Rightarrow> net_addr \<Rightarrow> packet_conn \<Rightarrow> ss_packet_conn" where
  "wired parse_addr server pc =
     \<lparr>sc_PacketConn = pc\<lparr>pc_sent := map (on_wire parse_addr server) (pc_sent pc)\<rparr>, sc_addr = server\<rparr>"

lemma WriteTo_simulation:
  "WriteTo pc buf addr = (e, pc') \<Longrightarrow>
    ssPacketConn_WriteTo parse_addr (wired parse_addr server pc) buf addr = (e, wired parse_addr server pc')"
  by (auto simp: ssPacketConn_WriteTo_def ss_WriteTo_def WriteTo_def wired_def on_wire_def Let_def
      split: list.splits option.splits)

text \<open>The calls of a session in turn, on a connection whose writes succeed.\<close>

definition ss_sends ::
  "(string \<Rightarrow> bytes option) \<Rightarrow> net_addr \<Rightarrow> (bytes \<times> net_addr option) list \<Rightarrow> ss_packet_conn" where
  "ss_sends parse_addr server calls =
     fold (\<lambda>(buf, addr) c. snd (ssPacketConn_WriteTo parse_addr c buf addr)) calls
       \<lparr>sc_PacketConn = \<lparr>pc_script = [], pc_sent = []\<rparr>, sc_addr = server\<rparr>"

lemma ss_sends_wired:
  "ss_sends parse_addr server calls = wired parse_addr server \<lparr>pc_script = [], pc_sent = calls\<rparr>"
proof (induction calls rule: rev_induct)
  case Nil
  then show ?case by (simp add: ss_sends_def wired_def)
next
  case (snoc x calls)
  obtain buf addr where x: "x = (buf, addr)" by (metis prod.exhaust)
  have "WriteTo \<lparr>pc_script = [], pc_sent = calls\<rparr> buf addr = (None, \<lparr>pc_script = [], pc_sent = calls @ [x]\<rparr>)"
    by (simp add: WriteTo_def x)
  from WriteTo_simulation [OF this, of parse_addr server] snoc show ?case by (simp add: ss_sends_def x)
qed

text \<open>
  What the session reads: the datagrams of the server in turn, up to the first that \<open>ReadFrom\<close>
  refuses, into a buffer with room for any of them.
\<close>

record codec =
  cd_parse :: "string \<Rightarrow> bytes option"
  cd_split :: "bytes \<Rightarrow> bytes option"
  cd_text :: "bytes \<Rightarrow> string"
  cd_resolve :: "string \<Rightarrow> go_error + net_addr"

abbreviation read_wire :: "codec \<Rightarrow> bytes \<Rightarrow> bytes \<Rightarrow> ((go_error + nat \<times> net_addr) \<times> bytes) outcome" where
  "read_wire cd d b \<equiv> ss_ReadFrom (cd_split cd) (cd_text cd) (cd_resolve cd) (Inr d) b"

fun ss_receive :: "codec \<Rightarrow> bytes \<Rightarrow> bytes list \<Rightarrow> go_error \<Rightarrow> ((bytes \<times> net_addr) list \<times> go_error) outcome" where
  "ss_receive cd b [] e = Returns ([], e)"
| "ss_receive cd b (d # ds) e =
     and_then (read_wire cd d b) (\<lambda>(r, b).
       case r of
         Inl err \<Rightarrow> Returns ([], err)
       | Inr (n, addr) \<Rightarrow>
           and_then (ss_receive cd b ds e) (\<lambda>(ps, err). Returns ((take n b, addr) # ps, err)))"

text \<open>A datagram of the server for the target \<open>a\<close>, and the laws of the codec for it.\<close>

definition answers :: "codec \<Rightarrow> bytes \<Rightarrow> bytes \<times> net_addr \<Rightarrow> bool" where
  "answers cd d g \<longleftrightarrow> (case g of (payload, addr) \<Rightarrow> \<exists>tgt.
     d = tgt @ payload \<and> cd_split cd d = Some tgt \<and> cd_resolve cd (cd_text cd tgt) = Inr addr)"

lemma read_wire_answer:
  assumes "answers cd d (payload, addr)" "length d \<le> length b"
  shows "\<exists>b'. read_wire cd d b = Returns (Inr (length payload, addr), b') \<and> take (length payload) b' = payload \<and>
    length b' = length b"
proof -
  from assms(1) obtain tgt where d: "d = tgt @ payload" "cd_split cd (tgt @ payload) = Some tgt"
    "cd_resolve cd (cd_text cd tgt) = Inr addr" by (auto simp: answers_def)
  let ?b = "copy_at b 0 (tgt @ payload)"
  have b: "?b = tgt @ payload @ drop (length tgt + length payload) b"
    using assms(2) d(1) by (simp add: copy_at_def)
  have s: "slice ?b 0 (length tgt + length payload) = Returns (tgt @ payload)"
    "slice ?b (length tgt) (length tgt + length payload) = Returns payload"
    unfolding b by (simp_all add: slice_def)
  have "read_wire cd d b = Returns (Inr (length payload, addr), copy_at ?b 0 payload)"
    using assms(2) d s by (simp add: ss_ReadFrom_def min_absorb1 Let_def)
  moreover have "take (length payload) (copy_at ?b 0 payload) = payload" "length (copy_at ?b 0 payload) = length b"
    using assms(2) d(1) by (simp_all add: copy_at_def)
  ultimately show ?thesis by blast
qed

lemma receive_answers:
  assumes "list_all2 (answers cd) ds ps" "\<forall>d \<in> set ds. length d \<le> length b"
  shows "ss_receive cd b ds e = Returns (ps, e)"
  using assms
proof (induction ds ps arbitrary: b rule: list_all2_induct)
  case (Cons d ds g ps)
  obtain payload addr where g: "g = (payload, addr)" by (metis prod.exhaust)
  obtain b' where b': "read_wire cd d b = Returns (Inr (length payload, addr), b')"
    "take (length payload) b' = payload" "length b' = length b"
    using read_wire_answer [of cd d payload addr b] Cons.hyps Cons.prems g by auto
  with Cons.IH [of b'] Cons.prems g show ?case by simp
qed simp

text \<open>A datagram without an address ends the reading with an error that names no cause.\<close>

lemma receive_stray:
  assumes "list_all2 (answers cd) ds ps" "\<forall>d \<in> set (ds @ [x]). length d \<le> length b" "cd_split cd x = None"
  shows "ss_receive cd b (ds @ x # es) e = Returns (ps, Msg ''split address error: %!w(<nil>)'')"
  using assms(1,2)
proof (induction ds ps arbitrary: b rule: list_all2_induct)
  case Nil
  then show ?case using assms(3) by (simp add: ss_ReadFrom_def slice_def copy_at_def Let_def min_absorb1)
next
  case (Cons d ds g ps)
  obtain payload addr where g: "g = (payload, addr)" by (metis prod.exhaust)
  obtain b' where b': "read_wire cd d b = Returns (Inr (length payload, addr), b')"
    "take (length payload) b' = payload" "length b' = length b"
    using read_wire_answer [of cd d payload addr b] Cons.hyps Cons.prems g by auto
  with Cons.IH [of b'] Cons.prems g show ?case by simp
qed

section \<open>A user over shadowsocks\<close>

text \<open>The room for a datagram behind the header in the write buffer of \<open>HandleUDP\<close>.\<close>

definition udp_room :: bytes where
  "udp_room = drop (MaxAddrLen + 4) udp_write_buf"

lemma length_udp_room: "length udp_room = 65536"
  by (simp add: udp_room_def udp_write_buf_def)

lemma wired_sent:
  assumes "\<forall>g \<in> set gs. parse_addr (UDPAddr_String (snd (delivery dns g))) = Some (enc g)"
  shows "pc_sent (sc_PacketConn (ss_sends parse_addr server (map (delivery dns) gs))) =
    map (\<lambda>g. (enc g @ fst (delivery dns g), Some server)) gs"
  using assms by (auto simp: ss_sends_wired wired_def on_wire_def split: prod.splits)

text \<open>
  C7: a user's datagrams travel sealed, and come back as they were sent. A user of the listener
  with a UDP session over \<open>ShadowsocksProxy\<close>, in front of any proxy that gives a socket: on that
  socket, for every frame of the client in order, one datagram goes to the server, the encoded
  target of the frame and its payload; every datagram of the server, an encoded source and a
  payload, reaches the client as the frame of that source and payload; the socket is closed and
  the upload is charged. The laws of the third-party codec are assumed for the addresses that occur.
\<close>

theorem shadowsocks_user_datagrams:
  assumes user: "mem_inv us" "validStorageKey k" "map_of (mm us) k \<noteq> None" "map_of (mm (mw us)) k = Some t"
      "no_empty_reads s"
    and request: "content s = greeting k @ request CmdAssociate (encode_addr h port) @ concat (map frame_of gs)"
      "is_err s = EOF" "wf_host h" "\<forall>g \<in> set gs. datagram_ok (udp_dns ue) g"
    and proxy: "ss_proxy ss = Some px" "ss_cipher ss = Some conn_Write" "packet_dialer px"
      "px_ListenPacket px ''udp'' [] w = ret (Inr n, w1)" "cd_resolve cd (ss_Server ss) = Inr server"
    and targets: "\<forall>g \<in> set gs. cd_parse cd (UDPAddr_String (snd (delivery (udp_dns ue) g))) = Some (enc g)"
    and sources: "list_all2 (answers cd) ds ps" "\<forall>d \<in> set ds. length d \<le> 65536" "\<forall>g \<in> set ps. packet_ok g"
      "ss_receive cd udp_room ds timeout = Returns (packets ue, packets_end ue)" "isTimeoutError (Some timeout)"
    and socket: "udp_opened (ue\<lparr>listen_packet := None\<rparr>)" "sock ue = \<lparr>pc_script = [], pc_sent = []\<rparr>"
      "client_writer ue = \<lparr>os_script = [], os_data = []\<rparr>"
  shows "\<exists>x run us' w'. listen_over (ShadowsocksProxy (cd_parse cd) (cd_resolve cd) ss) (mem_ops pops) sent mw te ue s us w =
      ret ([SniffDeadline, ClearDeadline, Serve x, CloseConn, ClearDeadline], us', w') \<and>
    hw_err x = None \<and> hw_session x = UdpSession run \<and>
    pc_sent (sc_PacketConn (ss_sends (cd_parse cd) server (udp_sent run))) =
      map (\<lambda>g. (enc g @ fst (delivery (udp_dns ue) g), Some server)) gs \<and>
    udp_to_client run = concat (map packet_frame ps) \<and> new_open w w' = [] \<and>
    map_of (mm us') k = Some (add_traffic t (word_of_nat (length (concat (map frame_of gs)))) 0)"
proof -
  let ?p = "ShadowsocksProxy (cd_parse cd) (cd_resolve cd) ss"
  have read: "packets ue = ps" "packets_end ue = timeout"
    using receive_answers [OF sources(1), of udp_room timeout] sources(2,4) by (simp_all add: length_udp_room)
  have listen: "px_ListenPacket ?p ''udp'' [] w = ret (Inr n, w1)"
    using proxy by (simp add: ShadowsocksProxy_def ShadowsocksProxy_ListenPacket_def)
  from listen_udp_session [where mw = mw, OF user request packet_dialer.listen_owns [OF proxy(3,4)] listen socket(1,2),
      of pops sent te] sources(3,5) socket(3) read
  obtain x run us' w' where run: "listen_over ?p (mem_ops pops) sent mw te ue s us w =
      ret ([SniffDeadline, ClearDeadline, Serve x, CloseConn, ClearDeadline], us', w')"
    "hw_err x = None" "hw_session x = UdpSession run" "udp_sent run = map (delivery (udp_dns ue)) gs"
    "udp_to_client run = concat (map packet_frame ps)" "new_open w w' = []"
    "map_of (mm us') k = Some (add_traffic t (word_of_nat (length (concat (map frame_of gs)))) 0)"
    by auto
  with wired_sent [OF targets] show ?thesis by simp
qed

text \<open>A codec for one address: its encoding is one byte.\<close>

definition demo_codec :: codec where
  "demo_codec = \<lparr>cd_parse = (\<lambda>_. Some [97]), cd_split = (\<lambda>d. Some (take 1 d)), cd_text = string_of_bytes,
     cd_resolve = (\<lambda>_. Inr (UDPAddr [1, 2, 3, 4] 53))\<rparr>"

definition demo_ss :: ss_proxy where
  "demo_ss = \<lparr>ss_ProxyRaw = None, ss_Server = ''s:1'', ss_Password = ''x'', ss_Method = ''m'',
     ss_proxy = Some NoProxy, ss_cipher = Some net_Write\<rparr>"

theorem shadowsocks_user_datagrams_witness:
  "\<exists>x run us' w'. listen_over (ShadowsocksProxy (cd_parse demo_codec) (cd_resolve demo_codec) demo_ss) (mem_ops demo_pops)
      True id demo_env demo_udp_env datagram_session alice sample_net =
      ret ([SniffDeadline, ClearDeadline, Serve x, CloseConn, ClearDeadline], us', w') \<and>
    hw_session x = UdpSession run \<and>
    pc_sent (sc_PacketConn (ss_sends (cd_parse demo_codec) (UDPAddr [1, 2, 3, 4] 53) (udp_sent run))) = [([97, 7], Some (UDPAddr [1, 2, 3, 4] 53))] \<and>
    udp_to_client run = [1, 1, 2, 3, 4, 0, 53, 0, 2, 13, 10, 7, 8] \<and>
    map_of (mm us') (GenKey ''alice'') = Some \<lparr>Up = 12, Down = 0\<rparr>"
proof -
  let ?gs = "[(HostIPv4 [1, 2, 3, 4], 80, [7 :: byte])]" and ?ps = "[([7, 8 :: byte], UDPAddr [1, 2, 3, 4] 53)]"
  let ?enc = "\<lambda>g :: datagram. [97 :: byte]"
  have s: "no_empty_reads datagram_session" "is_err datagram_session = EOF" "wf_host (HostDomain [104])"
    "content datagram_session = greeting (GenKey ''alice'') @
      request CmdAssociate (encode_addr (HostDomain [104]) 80) @ concat (map frame_of ?gs)"
    by (simp_all add: datagram_session_def no_empty_reads_def content_def greeting_def frame_of_def encode_frame_def)
  have gs: "\<forall>g \<in> set ?gs. datagram_ok (udp_dns demo_udp_env) g"
    using demo_datagrams by (simp add: demo_udp_env_def)
  obtain n w1 where net: "px_ListenPacket NoProxy ''udp'' [] sample_net = ret (Inr n, w1)"
    by (simp add: NoProxy_def NoProxy_ListenPacket_def net_Dial_def sample_net_def)
  have ss: "ss_proxy demo_ss = Some NoProxy" "ss_cipher demo_ss = Some net_Write"
    "cd_resolve demo_codec (ss_Server demo_ss) = Inr (UDPAddr [1, 2, 3, 4] 53)"
    by (simp_all add: demo_ss_def demo_codec_def)
  have targets: "\<forall>g \<in> set ?gs. cd_parse demo_codec (UDPAddr_String (snd (delivery (udp_dns demo_udp_env) g))) = Some (?enc g)"
    by (simp add: demo_codec_def)
  have ds: "list_all2 (answers demo_codec) [[97, 7, 8]] ?ps" "\<forall>d \<in> set [[97 :: byte, 7, 8]]. length d \<le> 65536"
    "\<forall>g \<in> set ?ps. packet_ok g"
    by (simp_all add: answers_def demo_codec_def packet_ok_def)
  have socket: "udp_opened (demo_udp_env\<lparr>listen_packet := None\<rparr>)" "sock demo_udp_env = \<lparr>pc_script = [], pc_sent = []\<rparr>"
    "client_writer demo_udp_env = \<lparr>os_script = [], os_data = []\<rparr>" "isTimeoutError (Some ErrDeadlineExceeded)"
    "packets demo_udp_env = ?ps" "packets_end demo_udp_env = ErrDeadlineExceeded"
    by (simp_all add: demo_udp_env_def udp_opened_def isTimeoutError_def)
  have rcv: "ss_receive demo_codec udp_room [[97, 7, 8]] ErrDeadlineExceeded =
      Returns (packets demo_udp_env, packets_end demo_udp_env)"
    unfolding socket(5,6) by (rule receive_answers [OF ds(1)]) (simp add: length_udp_room)
  have len: "length (concat (map frame_of ?gs)) = 12"
    by (simp add: frame_of_def encode_frame_def encode_addr_def)
  have out: "concat (map packet_frame ?ps) = [1, 1, 2, 3, 4, 0, 53, 0, 2, 13, 10, 7, 8]"
    by (simp add: packet_frame_def encode_frame_def host_of_ip_def To4_def
        encode_addr_def addr_types byte_hi_def byte_lo_def)
  from shadowsocks_user_datagrams [where mw = id, OF alice_inv valid_GenKey alice_known s(1,4,2,3) gs ss(1,2)
      direct_packets.packet_dialer_axioms net ss(3) targets ds rcv socket(4,1-3), of demo_pops True demo_env]
  show ?thesis unfolding len out by (auto simp: add_traffic_def no_traffic_def delivery_def)
qed

end
