(* ===== verification/Spec2Isabelle.thy ===== *)
theory Spec2Isabelle
  imports Domaintree Http_Tunnel Admin Module_Loading Reload Shadowsocks_Udp
begin

text \<open>
  A verification development for caddy-trojan, a module of the web server caddy that serves
  the trojan proxy protocol beside ordinary web pages. Paths below are under \<open>src/\<close>.

  \<^bold>\<open>The program.\<close> A connection reaches the program in one of two ways. The listener wrapper
  (\<open>modules/listener/listener.go\<close>) reads the first bytes of every accepted connection: when
  they are the key of a user, the connection is served as a tunnel, otherwise the bytes are
  given back (\<open>pkgs/rawconn\<close>) and the connection goes to the web server. The HTTP handler
  (\<open>modules/handler/handler.go\<close>) serves tunnels inside CONNECT requests and websockets
  (\<open>pkgs/websocket\<close>) and limits sources that fail. In both, \<open>pkgs/trojan\<close> reads the request
  behind the key (\<open>trojan.go\<close>), whose address is a SOCKS address (\<open>pkgs/socks\<close>), and relays a
  TCP stream (\<open>trojan_tcp.go\<close>, \<open>wakeable.go\<close>) or UDP datagrams (\<open>trojan_udp.go\<close>) through a
  proxy (\<open>app/proxy*.go\<close>). Users and their traffic live in a store (\<open>app/upstream.go\<close>). The
  app (\<open>app/app.go\<close>) holds the store and the proxies, the Caddyfile (\<open>app/caddyfile.go\<close>,
  \<open>app/proxy_registry.go\<close>) configures it, and an admin endpoint (\<open>modules/admin/admin.go\<close>)
  lists and changes the users.

  \<^bold>\<open>Theories and sources.\<close>
  \<^item> \<open>Trojan_Prelude\<close>: bytes, strings, errors, panics, slices, numbers as text.
  \<^item> \<open>Go_IO\<close>: connections as scripts of reads, \<open>io.ReadFull\<close>; locale \<open>io_reader\<close>, the contract
    of a connection wrapper.
  \<^item> \<open>Go_Net\<close>: \<open>SplitHostPort\<close>, \<open>ParseIP\<close>, \<open>Atoi\<close>, base64 of the standard library.
  \<^item> \<open>Http_Response\<close>: \<open>bufio.Reader\<close>, the line reader and \<open>http.ReadResponse\<close>.
  \<^item> \<open>Socks_Addr\<close>: \<open>pkgs/socks/addr.go\<close>.
  \<^item> \<open>Trojan_Key\<close>: \<open>trojan.GenKey\<close> with SHA-224, and \<open>validStorageKey\<close>.
  \<^item> \<open>Domaintree\<close>: \<open>pkgs/domaintree/domaintree.go\<close>.
  \<^item> \<open>Trojan_Tcp\<close>, \<open>Trojan_Udp\<close>, \<open>Trojan_Header\<close>: \<open>pkgs/trojan\<close>.
  \<^item> \<open>Tcp_Interleaved\<close>: \<open>HandleTCP\<close> of \<open>pkgs/trojan/trojan_tcp.go\<close> again, as the steps of its two
    goroutines; \<open>Udp_Interleaved\<close>: \<open>HandleUDP\<close> of \<open>pkgs/trojan/trojan_udp.go\<close> likewise.
  \<^item> \<open>Http_Tunnel\<close>: \<open>FlushWriter\<close> of \<open>modules/handler\<close>, the optional methods that
    \<open>pkgs/trojan/wakeable.go\<close> asks for, and how a tunnel over HTTP ends.
  \<^item> \<open>Tunnel_Session\<close>: \<open>HandleWithDialer\<close> of \<open>pkgs/trojan/trojan.go\<close> over a proxy and the
    network; locale \<open>packet_dialer\<close>.
  \<^item> \<open>Rawconn\<close>, \<open>Websocket\<close>: \<open>pkgs/rawconn\<close>, \<open>pkgs/websocket\<close>.
  \<^item> \<open>Upstream\<close>, \<open>Memory_Upstream\<close>, \<open>Caddy_Upstream\<close>: \<open>app/upstream.go\<close>; locales \<open>upstream\<close> and
    \<open>reliable_upstream\<close>, the contract of a store.
  \<^item> \<open>Listener\<close>: the goroutine of a connection and the queue of \<open>modules/listener\<close>.
  \<^item> \<open>Rate_Limiter\<close>, \<open>Handler\<close>: \<open>modules/handler\<close>.
  \<^item> \<open>Entrance\<close>: the listener and the handler over a proxy, the network and the store.
  \<^item> \<open>Json_Utils\<close>: \<open>pkgs/x/utils.go\<close>.
  \<^item> \<open>Dialers\<close>: the interface \<open>Proxy\<close> over a state of the network, \<open>NoProxy\<close>, \<open>DropProxy\<close>;
    locale \<open>dialer\<close>, the contract of a proxy.
  \<^item> \<open>Proxies\<close>: \<open>EnvProxy\<close>, \<open>SocksProxy\<close>, \<open>HttpProxy\<close>, \<open>BlockDomain\<close> of \<open>app/proxy.go\<close>.
  \<^item> \<open>Shadowsocks_Proxy\<close>, \<open>Unix_Proxy\<close>, \<open>Wireguard_Proxy\<close>: \<open>app/proxy_shadowsocks.go\<close>,
    \<open>app/proxy_unix.go\<close>, \<open>app/proxy_wireguard.go\<close>.
  \<^item> \<open>Proxy_Registry\<close>: \<open>app/proxy_registry.go\<close> and the parsers of the init functions.
  \<^item> \<open>Caddyfile\<close>: \<open>app/caddyfile.go\<close>; locale \<open>dispenser\<close>, what is used of caddy's tokens.
  \<^item> \<open>App\<close>: \<open>app/app.go\<close>.
  \<^item> \<open>Module_Config\<close>: \<open>Provision\<close> and \<open>UnmarshalCaddyfile\<close> of the listener and the handler.
  \<^item> \<open>Admin\<close>: \<open>modules/admin/admin.go\<close>.
  \<^item> \<open>Modules\<close>: the \<open>CaddyModule\<close> methods, what the \<open>init\<close> functions register, and the types a
    parsed configuration loads; locale \<open>module_registry\<close>.
  \<^item> \<open>Program_Start\<close>: the \<open>init\<close> functions as lists of calls and \<open>main\<close> of \<open>cmd/caddy/main.go\<close>;
    locale \<open>caddy_registry\<close>, the tables of caddy they write.
  \<^item> \<open>Module_Loading\<close>: the proxies a module loader can return for a configuration (\<open>loads\<close>), the
    wrapped listener, and the configured program from \<open>App.Provision\<close> to \<open>App.Stop\<close>.
  \<^item> \<open>Reload\<close>: sessions of the listener that outlive the store they began with.
  \<^item> \<open>Shadowsocks_Udp\<close>: \<open>ssPacketConn\<close> of \<open>app/proxy_shadowsocks.go\<close> under a UDP session.

  \<^bold>\<open>State and operations.\<close> A struct is a record with its fields, an interface a record of
  operations, and an operation a function that returns its results and the new state. Errors
  are values of \<open>go_error\<close>; a run-time panic (index, slice, nil, closed channel) is the
  constructor \<open>Panics\<close> of \<open>outcome\<close>, so that its absence is a theorem. Indices that the
  code computes in \<open>byte\<close> wrap around, and traffic counters are words of 64 bits. A
  connection is the finite script of what its reads return and a list of what was written;
  the network of the proxies is a script of dials and the list of all connections made.
  Goroutines are sequential functions of what they see, with the order of their results as an
  input (\<open>Trojan_Tcp\<close>, \<open>Trojan_Udp\<close>), or steps of a relation where the order matters: the
  queue of the listener (\<open>ln_step\<close>), the calls, sends and the persistence goroutine of the
  store (\<open>mem_system\<close>), and the two directions of a TCP or UDP session with their channel,
  deadlines, idle timer and blocking reads and writes (\<open>tcp_step\<close>, \<open>udp_step\<close>), of which the
  sequential \<open>HandleTCP\<close> and \<open>HandleUDP\<close> are proved to be the abstraction (\<open>seen\<close> and \<open>met\<close> map
  a state to its inputs).

  \<^bold>\<open>Locales.\<close> \<open>io_reader\<close> is interpreted by the plain connection, the rewinding connection and
  the websocket, so that reading through any of them is reading one stream. \<open>upstream\<close> and
  \<open>reliable_upstream\<close> are interpreted by the memory store over any store and by the
  persistent store; the app and the admin endpoint are proved over any such store. \<open>dialer\<close> is
  interpreted by \<open>NoProxy\<close> and \<open>DropProxy\<close>, and by sublocales (\<open>http_chain\<close>, \<open>block_chain\<close>,
  \<open>ss_chain\<close>) by a proxy in front of any dialer; \<open>packet_dialer\<close> extends it by \<open>ListenPacket\<close>
  and carries the sessions over a proxy. \<open>stream_cipher\<close>, \<open>dispenser\<close>,
  \<open>module_registry\<close> and \<open>caddy_registry\<close> state what is relied on of third-party code, with an instance each.

  \<^bold>\<open>What the lemmas show.\<close> For the codec: exactly which bytes are addresses, and round trips.
  For the tunnels: what is relayed is a prefix of the stream, complete when both ends are, and
  counted exactly; every interleaving of the goroutines of a session returns what the sequential
  function returns, and a session ends when one of its peers does; frames round trip; the
  buffers are not left. For the two entrances over a proxy and the network: what the target of a
  user receives and what the user is charged, that no connection stays open whoever connects,
  that only users are served and everybody else sees an untouched web server. For the stores:
  the contract, the agreement of memory and storage over sequences of calls and over
  interleavings. For the limiter: who is never blocked. For the proxies: no dial leaves a
  connection behind, what a tunnel through a proxy carries, what a block list refuses (the tree
  decides like the list of its rules), round trips of the handshake and of datagrams. For the
  configuration: the parsers return, what they accept can be provisioned and names registered
  modules of the right kind, and after that exactly the configured and the loaded users can
  connect; any sequence of requests to the admin endpoint refines a set of users. For the whole
  program: it starts, with every module, the directive and the option registered; a loaded
  configuration leaves no connection open, whatever its chain of proxies, and stops.
  Some theorems state defects the modelling showed, each as a concrete behaviour:
  panics on domains of 254 or 255 bytes, a nil pointer behind a wildcard rule, a session that
  hangs on a remote that has ended but reads no more, sessions over HTTP that outlive their
  remote or their idle timer, a wake-up of a UDP session that its idle
  timer overwrites, UDP downloads that are not counted, traffic lost over a reload, failures that
  are recorded after the clean-up has ended, connections left open by \<open>UnixProxy\<close>
  and \<open>ShadowsocksProxy\<close>, UDP sessions that WireGuard refuses, counters lost at a restart, and
  the ways in which memory and storage can disagree.

  \<^bold>\<open>Bounds and fuel.\<close> No definition has fuel. Loops are structural, functions with a measure
  (the bytes a script still holds, the text still to parse), or \<open>partial_function\<close>s where the
  return is a theorem: reading through a wrapper (\<open>ReadFull_via\<close>), the buffered reader and
  \<open>ReadResponse\<close>, and the loops over a dispenser. The channel holds 16 tasks, the queue of the
  listener 8 connections, the buffered reader 4096 bytes and 100 reads without data, as in the
  code and the library.

  \<^bold>\<open>Parameters.\<close> Name resolution, URL parsing and the case folding of hosts, the storage of
  certmagic and the decoder of counters, the registries, the module loader, the encoder and the
  command of caddy, its standard modules, its dispenser, the decoder of the fields of a module,
  the dialers of \<open>golang.org/x/net\<close>, the cipher and the addresses of go-shadowsocks2, the
  WireGuard device, the frames of the websocket library, the verdict of \<open>net/http\<close> on header
  fields and the syntax of JSON. What is assumed of them is a named law (\<open>storage_laws\<close>,
  \<open>decoder_law\<close>, \<open>module_object_law\<close>, \<open>third_party_laws\<close>, the locales above), and every property
  that needs one has a witness with an instance.

  \<^bold>\<open>Not modelled.\<close> Logging; the deadline methods of wrappers that only forward; the constant
  delay of \<open>Validate\<close>; JSON numbers that a \<open>float64\<close> cannot hold; the commands
  of caddy behind \<open>main\<close>.

  \<^bold>\<open>Plan.\<close> The components of the program are all modelled. What remains is finer detail of the
  model: a UDP session with the datagrams of several sockets on one network, and the time that
  the limiter and the deadlines share.
\<close>

end
